(* ===== verification/Pwb_Prelude.thy ===== *)
theory Pwb_Prelude
  imports Main "HOL-Library.Word"
begin

text \<open>
  Shared vocabulary of the development: the machine integers of the Rust code with its
  saturating and widening arithmetic, the \<open>Result\<close> type and the \<open>?\<close> operator, the
  slice functions (\<open>position\<close>, \<open>collect\<close> into a \<open>Result\<close>), and two interface
  locales that several components provide: \<^verbatim>\<open>codec\<close> (encode and decode) and
  \<^verbatim>\<open>slot_table\<close> (an array of slots, each with an occupied flag and a key).
\<close>

section \<open>Machine integers\<close>

type_synonym u8 = "8 word"
type_synonym u16 = "16 word"
type_synonym u32 = "32 word"
type_synonym u64 = "64 word"
type_synonym u128 = "128 word"
type_synonym i32 = "32 word"  \<comment> \<open>read with \<^const>\<open>sint\<close>\<close>
type_synonym i64 = "64 word"  \<comment> \<open>read with \<^const>\<open>sint\<close>\<close>
type_synonym usize = "64 word"

named_theorems unat_simps "readings of the word operations as natural numbers"
named_theorems codec_simps "equations of the encoders and decoders of shared records"

text \<open>\<open>saturating_add\<close>, \<open>saturating_sub\<close> and \<open>abs_diff\<close> of the unsigned integers.\<close>

definition sat_add :: "'a::len word \<Rightarrow> 'a word \<Rightarrow> 'a word" where
  "sat_add a b = (if unat a + unat b < 2 ^ LENGTH('a) then a + b else - 1)"

definition sat_sub :: "'a::len word \<Rightarrow> 'a word \<Rightarrow> 'a word" where
  "sat_sub a b = (if b \<le> a then a - b else 0)"

definition abs_diff :: "'a::len word \<Rightarrow> 'a word \<Rightarrow> 'a word" where
  "abs_diff a b = (if a < b then b - a else a - b)"

text \<open>\<open>checked_add\<close> and \<open>checked_mul\<close>: \<open>None\<close> on overflow.\<close>

definition word_checked_add :: "'a::len word \<Rightarrow> 'a word \<Rightarrow> 'a word option" where
  "word_checked_add a b = (if unat a + unat b < 2 ^ LENGTH('a) then Some (a + b) else None)"

definition word_checked_mul :: "'a::len word \<Rightarrow> 'a word \<Rightarrow> 'a word option" where
  "word_checked_mul a b = (if unat a * unat b < 2 ^ LENGTH('a) then Some (a * b) else None)"

text \<open>\<open>u128::from\<close>, and \<open>u64::try_from(v)\<close> with \<open>u64::MAX\<close> for a value that does not fit.\<close>

definition widen :: "u64 \<Rightarrow> u128" where
  "widen a = ucast a"

definition narrow_or_max :: "u128 \<Rightarrow> u64" where
  "narrow_or_max v = (if unat v < 2 ^ 64 then ucast v else - 1)"

definition word_div_ceil :: "'a::len word \<Rightarrow> 'a word \<Rightarrow> 'a word" where
  "word_div_ceil a b = (if a mod b = 0 then a div b else a div b + 1)"

lemma unat_max_word [unat_simps]: "unat (- 1 :: 'a::len word) = 2 ^ LENGTH('a) - 1"
  by (simp add: unsigned_minus_1_eq_mask mask_eq_exp_minus_1)

lemma unat_bound: "unat (a :: 'a::len word) < 2 ^ LENGTH('a)"
  by (rule unsigned_less)

lemma unat_u64_less [simp]: "unat (a :: u64) < 18446744073709551616"
  using unat_bound [of a] by simp

lemma unat_u64_le [simp]: "unat (a :: u64) \<le> 18446744073709551615"
  using unat_u64_less [of a] by linarith

lemma unat_sat_add [unat_simps]:
  "unat (sat_add a b) = min (unat a + unat b) (2 ^ LENGTH('a) - 1)" for a b :: "'a::len word"
  by (auto simp: sat_add_def unat_max_word unat_word_ariths)

lemma unat_sat_sub [unat_simps]: "unat (sat_sub a b) = unat a - unat b"
  by (auto simp: sat_sub_def unat_sub word_le_nat_alt)

lemma unat_abs_diff [unat_simps]:
  "unat (abs_diff a b) = (if unat a < unat b then unat b - unat a else unat a - unat b)"
  by (auto simp: abs_diff_def word_less_nat_alt unat_sub word_le_nat_alt)

lemma word_min_nat [unat_simps]: "unat (min a b) = min (unat a) (unat b)" for a b :: "'a::len word"
  by (auto simp: min_def word_le_nat_alt)

lemma word_max_nat [unat_simps]: "unat (max a b) = max (unat a) (unat b)" for a b :: "'a::len word"
  by (auto simp: max_def word_le_nat_alt)

lemma sat_add_zero [simp]: "sat_add a 0 = a" "sat_add 0 a = a"
  by (simp_all add: sat_add_def unat_bound)

lemma sat_add_max: "unat a + unat b \<ge> 2 ^ LENGTH('a) - 1 \<Longrightarrow> sat_add a b = - 1"
  for a b :: "'a::len word"
  by (simp add: word_eq_iff_unsigned unat_simps)
     (simp add: word_unat_eq_iff unat_simps)

lemma word_checked_add_Some:
  "word_checked_add a b = Some c \<longleftrightarrow> unat c = unat a + unat b" for a b c :: "'a::len word"
  using unat_bound [of c]
  by (auto simp: word_checked_add_def unat_word_ariths word_unat_eq_iff simp del: unsigned_less)

lemma word_checked_mul_Some:
  "word_checked_mul a b = Some c \<longleftrightarrow> unat c = unat a * unat b" for a b c :: "'a::len word"
  using unat_bound [of c]
  by (auto simp: word_checked_mul_def unat_word_ariths word_unat_eq_iff simp del: unsigned_less)

lemma unat_widen [unat_simps]: "unat (widen a) = unat a"
proof -
  have "unat a < 2 ^ 128"
    by (rule less_le_trans [OF unat_bound]) simp
  then show ?thesis by (simp add: widen_def unsigned_ucast_eq take_bit_nat_eq_self del: unsigned_less)
qed

lemma unat_widen_mult [unat_simps]: "unat (widen a * widen b) = unat a * unat b"
proof -
  have "unat a * unat b < 2 ^ 64 * 2 ^ 64"
    using unat_bound [of a] unat_bound [of b] by (intro mult_strict_mono) auto
  then show ?thesis by (simp add: unat_word_ariths unat_widen)
qed

lemma unat_narrow_or_max [unat_simps]: "unat (narrow_or_max v) = min (unat v) (2 ^ 64 - 1)"
  by (auto simp: narrow_or_max_def unat_max_word unsigned_ucast_eq take_bit_nat_eq_self)

lemma unat_word_div [unat_simps]: "unat (a div b) = unat a div unat b" for a b :: "'a::len word"
  by (rule unat_div)

section \<open>Results\<close>

text \<open>
  \<open>PwbResult<T>\<close> is a sum with the error on the left. \<^verbatim>\<open>rbind\<close> is the \<open>?\<close> operator, and
  \<^verbatim>\<open>sbind\<close> is \<open>?\<close> inside a function that also mutates a state: what was written before
  an error stays written. \<^verbatim>\<open>rtraverse\<close> is \<open>collect::<Result<Vec<_>, _>>()\<close>: the first
  error ends it.
\<close>

definition rbind :: "'e + 'a \<Rightarrow> ('a \<Rightarrow> 'e + 'b) \<Rightarrow> 'e + 'b" where
  "rbind m f = (case m of Inl e \<Rightarrow> Inl e | Inr x \<Rightarrow> f x)"

definition sbind :: "('e + 'a) \<times> 's \<Rightarrow> ('a \<Rightarrow> 's \<Rightarrow> ('e + 'b) \<times> 's) \<Rightarrow> ('e + 'b) \<times> 's" where
  "sbind m f = (case m of (Inl e, s) \<Rightarrow> (Inl e, s) | (Inr x, s) \<Rightarrow> f x s)"

fun rtraverse :: "('a \<Rightarrow> 'e + 'b) \<Rightarrow> 'a list \<Rightarrow> 'e + 'b list" where
  "rtraverse f [] = Inr []"
| "rtraverse f (x # xs) = rbind (f x) (\<lambda>y. rbind (rtraverse f xs) (\<lambda>ys. Inr (y # ys)))"

definition is_ok :: "'e + 'a \<Rightarrow> bool" where
  "is_ok m = (case m of Inl _ \<Rightarrow> False | Inr _ \<Rightarrow> True)"

lemma rbind_simps [simp]: "rbind (Inl e) f = Inl e" "rbind (Inr x) f = f x"
  by (simp_all add: rbind_def)

lemma sbind_simps [simp]: "sbind (Inl e, s) f = (Inl e, s)" "sbind (Inr x, s) f = f x s"
  by (simp_all add: sbind_def)

lemma is_ok_simps [simp]: "\<not> is_ok (Inl e)" "is_ok (Inr x)"
  by (simp_all add: is_ok_def)

lemma rbind_Inr_iff: "rbind m f = Inr y \<longleftrightarrow> (\<exists>x. m = Inr x \<and> f x = Inr y)"
  by (cases m) auto

lemma rbind_Inl_iff: "rbind m f = Inl e \<longleftrightarrow> m = Inl e \<or> (\<exists>x. m = Inr x \<and> f x = Inl e)"
  by (cases m) auto

lemma rtraverse_Inr_length: "rtraverse f xs = Inr ys \<Longrightarrow> length ys = length xs"
  by (induction xs arbitrary: ys) (auto simp: rbind_Inr_iff)

lemma rtraverse_Inr_nth:
  "rtraverse f xs = Inr ys \<Longrightarrow> i < length xs \<Longrightarrow> f (xs ! i) = Inr (ys ! i)"
proof (induction xs arbitrary: ys i)
  case (Cons x xs)
  then show ?case by (cases i) (auto simp: rbind_Inr_iff)
qed simp

lemma rtraverse_map_Inr: "(\<And>x. x \<in> set xs \<Longrightarrow> f x = Inr (g x)) \<Longrightarrow> rtraverse f xs = Inr (map g xs)"
  by (induction xs) auto

lemma rtraverse_Inl: "rtraverse f xs = Inl e \<Longrightarrow> \<exists>x \<in> set xs. f x = Inl e"
  by (induction xs) (auto simp: rbind_Inl_iff)

section \<open>Slices\<close>

text \<open>\<open>iter().position(p)\<close>: the index of the first element that satisfies \<open>p\<close>.\<close>

fun position :: "('a \<Rightarrow> bool) \<Rightarrow> 'a list \<Rightarrow> nat option" where
  "position p [] = None"
| "position p (x # xs) = (if p x then Some 0 else map_option Suc (position p xs))"

lemma position_None: "position p xs = None \<longleftrightarrow> (\<forall>x \<in> set xs. \<not> p x)"
  by (induction xs) auto

lemma position_Some:
  "position p xs = Some i \<longleftrightarrow> i < length xs \<and> p (xs ! i) \<and> (\<forall>j < i. \<not> p (xs ! j))"
proof (induction xs arbitrary: i)
  case (Cons x xs)
  show ?case
  proof (cases i)
    case 0
    then show ?thesis by simp
  next
    case (Suc k)
    have split: "(\<forall>j < Suc k. \<not> p ((x # xs) ! j)) \<longleftrightarrow> \<not> p x \<and> (\<forall>j < k. \<not> p (xs ! j))"
      by (auto simp: less_Suc_eq_0_disj)
    show ?thesis
      by (auto simp: Suc split Cons.IH)
  qed
qed simp

lemma position_SomeD:
  assumes "position p xs = Some i"
  shows "i < length xs" and "p (xs ! i)" and "\<And>j. j < i \<Longrightarrow> \<not> p (xs ! j)"
  using assms by (simp_all add: position_Some)

lemma position_Some_nth: "position p xs = Some i \<Longrightarrow> i < length xs \<and> p (xs ! i)"
  by (simp add: position_Some)

lemma position_None_nth: "position p xs = None \<longleftrightarrow> (\<forall>i < length xs. \<not> p (xs ! i))"
  by (simp add: position_None all_set_conv_all_nth)

lemma position_unique:
  assumes "i < length xs" and "p (xs ! i)" and "\<And>j. j < length xs \<Longrightarrow> p (xs ! j) \<Longrightarrow> j = i"
  shows "position p xs = Some i"
  unfolding position_Some
proof (intro conjI allI impI notI assms(1,2))
  fix j assume "j < i" "p (xs ! j)"
  with assms(1) assms(3) [of j] show False by simp
qed

lemma position_take:
  assumes "\<And>i. n \<le> i \<Longrightarrow> i < length xs \<Longrightarrow> \<not> p (xs ! i)"
  shows "position p (take n xs) = position p xs"
proof (cases "position p xs")
  case None
  then show ?thesis by (metis position_None in_set_takeD)
next
  case (Some i)
  with assms have "i < n" by (metis linorder_not_le position_SomeD(1,2))
  with Some have "position p (take n xs) = Some i" by (auto simp: position_Some)
  with Some show ?thesis by simp
qed

lemma length_filter_update:
  assumes "i < length xs" and "P x"
  shows "length (filter P (xs[i := x])) = (if P (xs ! i) then length (filter P xs) else Suc (length (filter P xs)))"
  using assms
proof (induction xs arbitrary: i)
  case (Cons y ys)
  then show ?case by (cases i) auto
qed simp

lemma length_filter_less: "i < length xs \<Longrightarrow> \<not> P (xs ! i) \<Longrightarrow> length (filter P xs) < length xs"
  by (rule length_filter_less) (auto simp: in_set_conv_nth)

section \<open>Interfaces shared by the components\<close>

text \<open>
  A codec stores a value in a representation that can also hold invalid values. An
  \<^verbatim>\<open>exact_codec\<close> accepts nothing but the images of its encoder.
\<close>

locale codec =
  fixes enc :: "'a \<Rightarrow> 'c"
    and dec :: "'c \<Rightarrow> 'e + 'a"
  assumes dec_enc: "dec (enc x) = Inr x"
begin

lemma enc_eq_iff: "enc x = enc y \<longleftrightarrow> x = y"
  by (metis dec_enc sum.inject(2))

lemma dec_enc_list: "rtraverse dec (map enc xs) = Inr xs"
  by (induction xs) (simp_all add: dec_enc)

lemma dec_error_not_enc: "dec c = Inl e \<Longrightarrow> c \<noteq> enc x"
  using dec_enc by auto

end

locale exact_codec = codec +
  assumes enc_dec: "dec c = Inr x \<Longrightarrow> enc x = c"
begin

lemma dec_Inr_iff: "dec c = Inr x \<longleftrightarrow> c = enc x"
  using enc_dec dec_enc by metis

lemma dec_error_iff: "(\<exists>e. dec c = Inl e) \<longleftrightarrow> c \<notin> range enc"
  by (metis dec_error_not_enc enc_dec old.sum.exhaust rangeE rangeI)

end

text \<open>
  A slot table is an array of entries, each occupied or not, with a key. Read as a partial
  function from keys to entries, it is well formed when no two occupied slots share a key.
\<close>

definition slot_match :: "('e \<Rightarrow> bool) \<Rightarrow> ('e \<Rightarrow> 'k) \<Rightarrow> 'k \<Rightarrow> 'e \<Rightarrow> bool" where
  "slot_match occ key k e \<longleftrightarrow> occ e \<and> key e = k"

definition slot_lookup :: "('e \<Rightarrow> bool) \<Rightarrow> ('e \<Rightarrow> 'k) \<Rightarrow> 'e list \<Rightarrow> 'k \<Rightarrow> 'e option" where
  "slot_lookup occ key tbl k = map_option (\<lambda>i. tbl ! i) (position (slot_match occ key k) tbl)"

definition keys_distinct :: "('e \<Rightarrow> bool) \<Rightarrow> ('e \<Rightarrow> 'k) \<Rightarrow> 'e list \<Rightarrow> bool" where
  "keys_distinct occ key tbl \<longleftrightarrow>
     (\<forall>i < length tbl. \<forall>j < length tbl.
        occ (tbl ! i) \<and> occ (tbl ! j) \<and> key (tbl ! i) = key (tbl ! j) \<longrightarrow> i = j)"

locale slot_table =
  fixes occ :: "'e \<Rightarrow> bool"
    and key :: "'e \<Rightarrow> 'k"
    and blank :: 'e
  assumes blank_free: "\<not> occ blank"
begin

lemma lookup_None: "slot_lookup occ key tbl k = None \<longleftrightarrow>
    (\<forall>i < length tbl. \<not> slot_match occ key k (tbl ! i))"
  by (simp add: slot_lookup_def position_None_nth)

lemma lookup_Some:
  assumes "keys_distinct occ key tbl"
  shows "slot_lookup occ key tbl k = Some e \<longleftrightarrow>
    (\<exists>i < length tbl. tbl ! i = e \<and> slot_match occ key k e)"
proof
  assume "slot_lookup occ key tbl k = Some e"
  then obtain i where "position (slot_match occ key k) tbl = Some i" "tbl ! i = e"
    by (auto simp: slot_lookup_def)
  then show "\<exists>i < length tbl. tbl ! i = e \<and> slot_match occ key k e"
    using position_SomeD(1,2) by blast
next
  assume "\<exists>i < length tbl. tbl ! i = e \<and> slot_match occ key k e"
  then obtain i where i: "i < length tbl" "tbl ! i = e" "slot_match occ key k (tbl ! i)"
    by auto
  then have "position (slot_match occ key k) tbl = Some i"
    using assms by (intro position_unique) (auto simp: keys_distinct_def slot_match_def)
  with i show "slot_lookup occ key tbl k = Some e" by (simp add: slot_lookup_def)
qed

lemma lookup_in_set:
  "keys_distinct occ key tbl \<Longrightarrow> slot_lookup occ key tbl k = Some e \<longleftrightarrow> e \<in> set tbl \<and> occ e \<and> key e = k"
  unfolding lookup_Some by (auto simp: slot_match_def in_set_conv_nth)

lemma lookup_match: "slot_lookup occ key tbl k = Some e \<Longrightarrow> occ e \<and> key e = k"
  by (auto simp: slot_lookup_def slot_match_def dest: position_SomeD)

lemma distinct_blank: "keys_distinct occ key (replicate n blank)"
  by (simp add: keys_distinct_def blank_free)

lemma lookup_blank: "slot_lookup occ key (replicate n blank) k = None"
  by (simp add: lookup_None slot_match_def blank_free)

text \<open>
  Writing an entry into a slot, when no other slot holds its key: the table stays well
  formed, the key is found, the key the slot held before is gone, the others are unchanged.
\<close>

lemma distinct_put:
  assumes "keys_distinct occ key tbl" and "i < length tbl"
    and "\<And>j. j < length tbl \<Longrightarrow> j \<noteq> i \<Longrightarrow> \<not> slot_match occ key (key e) (tbl ! j)"
  shows "keys_distinct occ key (tbl[i := e])"
  unfolding keys_distinct_def
proof (intro allI impI, elim conjE)
  fix j k assume "j < length (tbl[i := e])" "k < length (tbl[i := e])"
    and "occ (tbl[i := e] ! j)" "occ (tbl[i := e] ! k)"
    and "key (tbl[i := e] ! j) = key (tbl[i := e] ! k)"
  with assms show "j = k"
    by (cases "j = i"; cases "k = i") (auto simp: keys_distinct_def slot_match_def)
qed

lemma lookup_put:
  assumes d: "keys_distinct occ key tbl" and i: "i < length tbl" and o: "occ e"
    and free: "\<And>j. j < length tbl \<Longrightarrow> j \<noteq> i \<Longrightarrow> \<not> slot_match occ key (key e) (tbl ! j)"
  shows "slot_lookup occ key (tbl[i := e]) k =
    (if k = key e then Some e
     else if slot_match occ key k (tbl ! i) then None
     else slot_lookup occ key tbl k)"
proof -
  have d': "keys_distinct occ key (tbl[i := e])" using d i free by (rule distinct_put)
  consider "k = key e" | "k \<noteq> key e" "slot_match occ key k (tbl ! i)"
    | "k \<noteq> key e" "\<not> slot_match occ key k (tbl ! i)" by blast
  then show ?thesis
  proof cases
    case 1
    have "slot_lookup occ key (tbl[i := e]) (key e) = Some e"
      using i o by (subst lookup_Some [OF d']) (auto simp: slot_match_def)
    with 1 show ?thesis by simp
  next
    case 2
    have "\<not> slot_match occ key k (tbl[i := e] ! j)" if "j < length tbl" for j
      using 2 d i that by (cases "j = i") (auto simp: slot_match_def keys_distinct_def)
    with 2 show ?thesis by (simp add: lookup_None)
  next
    case 3
    have "slot_lookup occ key (tbl[i := e]) k = Some x \<longleftrightarrow> slot_lookup occ key tbl k = Some x" for x
      unfolding lookup_Some [OF d'] lookup_Some [OF d]
      using 3 i by (auto simp: nth_list_update slot_match_def split: if_splits)
    with 3 show ?thesis by (metis not_Some_eq)
  qed
qed

lemma free_if_position_None:
  "position (slot_match occ key k) tbl = None \<Longrightarrow> j < length tbl \<Longrightarrow> \<not> slot_match occ key k (tbl ! j)"
  by (simp add: position_None_nth)

lemma free_if_position_Some:
  assumes "keys_distinct occ key tbl" and "position (slot_match occ key k) tbl = Some i"
    and "j < length tbl" and "j \<noteq> i"
  shows "\<not> slot_match occ key k (tbl ! j)"
  using assms position_SomeD(1,2) [OF assms(2)] by (auto simp: keys_distinct_def slot_match_def)

lemma distinct_fill:
  "keys_distinct occ key (map (\<lambda>_. blank) tbl)"
  by (simp add: keys_distinct_def blank_free)

end

text \<open>
  A keyed store of bounded size, as its clients use it. \<^verbatim>\<open>admit k i f\<close> runs \<open>f\<close> on the value of
  \<open>k\<close>, or on \<open>i\<close> when \<open>k\<close> is new and there is room, and keeps what \<open>f\<close> left only when it
  succeeded. \<^verbatim>\<open>visit k f\<close> does the same for a value that is there and nothing otherwise.
  \<^verbatim>\<open>map_admit\<close> and \<^verbatim>\<open>map_visit\<close> say this of a partial function.
\<close>

definition map_admit ::
  "bool \<Rightarrow> 'e \<Rightarrow> 'k \<Rightarrow> 'v \<Rightarrow> ('v \<Rightarrow> ('e + 'r) \<times> 'v) \<Rightarrow> ('k \<rightharpoonup> 'v) \<Rightarrow> ('e + 'r) \<times> ('k \<rightharpoonup> 'v)" where
  "map_admit room full k i f m =
     (if m k = None \<and> \<not> room then (Inl full, m)
      else case f (case m k of Some v \<Rightarrow> v | None \<Rightarrow> i) of
             (Inl e, _) \<Rightarrow> (Inl e, m)
           | (Inr r, v) \<Rightarrow> (Inr r, m(k \<mapsto> v)))"

definition map_visit ::
  "'k \<Rightarrow> ('v \<Rightarrow> ('e + 'r) \<times> 'v) \<Rightarrow> ('k \<rightharpoonup> 'v) \<Rightarrow> ('e + 'r option) \<times> ('k \<rightharpoonup> 'v)" where
  "map_visit k f m =
     (case m k of
        None \<Rightarrow> (Inr None, m)
      | Some v \<Rightarrow> (case f v of
             (Inl e, _) \<Rightarrow> (Inl e, m)
           | (Inr r, v) \<Rightarrow> (Inr (Some r), m(k \<mapsto> v))))"

locale keyed_store =
  fixes ok :: "'s \<Rightarrow> bool"
    and get :: "'s \<Rightarrow> 'k \<Rightarrow> 'v option"
    and room :: "'s \<Rightarrow> bool"
    and full :: 'e
    and key_of :: "'v \<Rightarrow> 'k"
    and admit :: "'k \<Rightarrow> 'v \<Rightarrow> ('v \<Rightarrow> ('e + 'r) \<times> 'v) \<Rightarrow> 's \<Rightarrow> ('e + 'r) \<times> 's"
    and visit :: "'k \<Rightarrow> ('v \<Rightarrow> ('e + 'r) \<times> 'v) \<Rightarrow> 's \<Rightarrow> ('e + 'r option) \<times> 's"
  assumes get_key: "get s k = Some v \<Longrightarrow> key_of v = k"
    and admit_refines: "ok s \<Longrightarrow> key_of i = k \<Longrightarrow> (\<And>v. key_of (snd (f v)) = key_of v) \<Longrightarrow>
      ok (snd (admit k i f s)) \<and>
      map_prod id get (admit k i f s) = map_admit (room s) full k i f (get s)"
    and visit_refines: "ok s \<Longrightarrow> (\<And>v. key_of (snd (f v)) = key_of v) \<Longrightarrow>
      ok (snd (visit k f s)) \<and> map_prod id get (visit k f s) = map_visit k f (get s)"
begin

lemma admit_result:
  assumes "ok s" and "key_of i = k" and "\<And>v. key_of (snd (f v)) = key_of v"
  shows "fst (admit k i f s) = fst (map_admit (room s) full k i f (get s))"
    and "get (snd (admit k i f s)) = snd (map_admit (room s) full k i f (get s))"
    and "ok (snd (admit k i f s))"
  using admit_refines [of s i k f] assms
  by (auto simp: map_prod_def split_beta dest: arg_cong [of _ _ fst] arg_cong [of _ _ snd])

lemma visit_result:
  assumes "ok s" and "\<And>v. key_of (snd (f v)) = key_of v"
  shows "fst (visit k f s) = fst (map_visit k f (get s))"
    and "get (snd (visit k f s)) = snd (map_visit k f (get s))"
    and "ok (snd (visit k f s))"
  using visit_refines [of s f k] assms
  by (auto simp: map_prod_def split_beta dest: arg_cong [of _ _ fst] arg_cong [of _ _ snd])

text \<open>An operation touches no other key, and one that fails touches nothing.\<close>

lemma admit_frame:
  assumes "ok s" and "key_of i = k" and "\<And>v. key_of (snd (f v)) = key_of v" and "k' \<noteq> k"
  shows "get (snd (admit k i f s)) k' = get s k'"
  using assms(4) by (auto simp: admit_result [OF assms(1-3)] map_admit_def split: prod.splits sum.splits)

lemma admit_error:
  assumes "ok s" and "key_of i = k" and "\<And>v. key_of (snd (f v)) = key_of v"
    and "fst (admit k i f s) = Inl e"
  shows "get (snd (admit k i f s)) = get s"
  using assms(4) by (auto simp: admit_result [OF assms(1-3)] map_admit_def split: prod.splits sum.splits if_splits)

lemma visit_frame:
  assumes "ok s" and "\<And>v. key_of (snd (f v)) = key_of v" and "k' \<noteq> k"
  shows "get (snd (visit k f s)) k' = get s k'"
  using assms(3) by (auto simp: visit_result [OF assms(1,2)] map_visit_def split: prod.splits sum.splits option.splits)

end

end
