(* ===== verification/Pwb_Strings.thy ===== *)
theory Pwb_Strings
  imports Pwb_Prelude
begin

text \<open>
  The functions of Rust's \<open>str\<close> and integer formatting that the code calls. A Rust string is
  its sequence of UTF-8 bytes, here a \<^typ>\<open>string\<close> whose characters are bytes: \<open>len\<close> is
  \<^const>\<open>length\<close>, \<open>as_bytes\<close> is the list itself. \<^verbatim>\<open>utf8_valid\<close> is the check of
  \<open>std::str::from_utf8\<close> (the well-formed byte sequences of the Unicode standard).
\<close>

abbreviation byte_of :: "char \<Rightarrow> nat" where
  "byte_of \<equiv> of_char"

definition as_bytes :: "string \<Rightarrow> u8 list" where
  "as_bytes s = map of_char s"

section \<open>Decimal numbers\<close>

definition digit_char :: "nat \<Rightarrow> char" where
  "digit_char d = char_of (48 + d)"

definition char_digit :: "char \<Rightarrow> nat option" where
  "char_digit c = (if 48 \<le> byte_of c \<and> byte_of c \<le> 57 then Some (byte_of c - 48) else None)"

text \<open>\<open>to_string()\<close> of an unsigned and of a signed integer.\<close>

fun show_nat :: "nat \<Rightarrow> string" where
  "show_nat n = (if n < 10 then [digit_char n] else show_nat (n div 10) @ [digit_char (n mod 10)])"

declare show_nat.simps [simp del]

definition show_int :: "int \<Rightarrow> string" where
  "show_int i = (if i < 0 then CHR ''-'' # show_nat (nat (- i)) else show_nat (nat i))"

text \<open>
  \<open>str::parse::<u64>()\<close>: an optional plus sign, then at least one digit and nothing else; a
  value above \<open>u64::MAX\<close> is an error.
\<close>

fun parse_digits :: "nat \<Rightarrow> string \<Rightarrow> nat option" where
  "parse_digits acc [] = Some acc"
| "parse_digits acc (c # cs) =
     (case char_digit c of
        None \<Rightarrow> None
      | Some d \<Rightarrow> if acc * 10 + d < 2 ^ 64 then parse_digits (acc * 10 + d) cs else None)"

definition str_parse_u64 :: "string \<Rightarrow> u64 option" where
  "str_parse_u64 s =
     (case s of
        [] \<Rightarrow> None
      | c # cs \<Rightarrow>
          let digits = (if c = CHR ''+'' then cs else s)
          in if digits = [] then None else map_option of_nat (parse_digits 0 digits))"

lemma byte_digit_char: "d < 10 \<Longrightarrow> byte_of (digit_char d) = 48 + d"
  by (simp add: digit_char_def)

lemma char_digit_digit_char [simp]: "d < 10 \<Longrightarrow> char_digit (digit_char d) = Some d"
  by (simp add: char_digit_def byte_digit_char)

lemma digit_char_not_plus: "d < 10 \<Longrightarrow> digit_char d \<noteq> CHR ''+''"
proof
  assume "d < 10" and "digit_char d = CHR ''+''"
  then have "48 + d = byte_of (CHR ''+'')" by (metis byte_digit_char)
  then show False by simp
qed

lemma show_nat_nonempty: "show_nat n \<noteq> []"
  by (subst show_nat.simps) simp

lemma parse_digits_append:
  "parse_digits acc (xs @ ys) = (case parse_digits acc xs of None \<Rightarrow> None | Some a \<Rightarrow> parse_digits a ys)"
  by (induction xs arbitrary: acc) (auto split: option.splits)

lemma parse_show_nat: "n < 2 ^ 64 \<Longrightarrow> parse_digits 0 (show_nat n) = Some n"
proof (induction n rule: show_nat.induct)
  case (1 n)
  show ?case
  proof (cases "n < 10")
    case True
    then show ?thesis using "1.prems" by (subst show_nat.simps) simp
  next
    case False
    with 1 have IH: "parse_digits 0 (show_nat (n div 10)) = Some (n div 10)" by simp
    have "n div 10 * 10 + n mod 10 = n" by simp
    with False IH "1.prems" show ?thesis
      by (subst show_nat.simps) (simp add: parse_digits_append)
  qed
qed

lemma hd_show_nat: "\<exists>d < 10. hd (show_nat n) = digit_char d"
proof (induction n rule: show_nat.induct)
  case (1 n)
  then show ?case
    by (subst show_nat.simps) (auto simp: show_nat_nonempty)
qed

lemma parse_show_u64: "str_parse_u64 (show_nat (unat w)) = Some w" for w :: u64
proof -
  obtain c cs where s: "show_nat (unat w) = c # cs"
    using show_nat_nonempty by (meson list.exhaust)
  then have "c \<noteq> CHR ''+''"
    using hd_show_nat [of "unat w"] digit_char_not_plus by (metis list.sel(1))
  moreover have "parse_digits 0 (show_nat (unat w)) = Some (unat w)"
    using unat_bound [of w] by (intro parse_show_nat) simp
  ultimately show ?thesis by (simp add: str_parse_u64_def s)
qed

section \<open>Case and white space\<close>

definition ascii_lower :: "char \<Rightarrow> char" where
  "ascii_lower c = (if 65 \<le> byte_of c \<and> byte_of c \<le> 90 then char_of (byte_of c + 32) else c)"

definition to_ascii_lowercase :: "string \<Rightarrow> string" where
  "to_ascii_lowercase s = map ascii_lower s"

text \<open>
  The Unicode property \<open>White_Space\<close>, on the UTF-8 encoding of one character: U+0009 to
  U+000D and U+0020 (one byte), U+0085 and U+00A0 (two bytes), U+1680, U+2000 to U+200A,
  U+2028, U+2029, U+202F, U+205F and U+3000 (three bytes).
\<close>

definition ws1 :: "char \<Rightarrow> bool" where
  "ws1 a \<longleftrightarrow> 9 \<le> byte_of a \<and> byte_of a \<le> 13 \<or> byte_of a = 32"

definition ws2 :: "char \<Rightarrow> char \<Rightarrow> bool" where
  "ws2 a b \<longleftrightarrow> byte_of a = 194 \<and> (byte_of b = 133 \<or> byte_of b = 160)"

definition ws3 :: "char \<Rightarrow> char \<Rightarrow> char \<Rightarrow> bool" where
  "ws3 a b c \<longleftrightarrow>
     byte_of a = 225 \<and> byte_of b = 154 \<and> byte_of c = 128 \<or>
     byte_of a = 226 \<and> byte_of b = 128 \<and>
       (128 \<le> byte_of c \<and> byte_of c \<le> 138 \<or> byte_of c = 168 \<or> byte_of c = 169 \<or> byte_of c = 175) \<or>
     byte_of a = 226 \<and> byte_of b = 129 \<and> byte_of c = 159 \<or>
     byte_of a = 227 \<and> byte_of b = 128 \<and> byte_of c = 128"

text \<open>\<open>str::trim\<close>: white space is removed at both ends; the end is read from the back.\<close>

fun trim_start :: "string \<Rightarrow> string" where
  "trim_start [] = []"
| "trim_start [a] = (if ws1 a then [] else [a])"
| "trim_start [a, b] = (if ws1 a then trim_start [b] else if ws2 a b then [] else [a, b])"
| "trim_start (a # b # c # s) =
     (if ws1 a then trim_start (b # c # s)
      else if ws2 a b then trim_start (c # s)
      else if ws3 a b c then trim_start s
      else a # b # c # s)"

fun trim_rev :: "string \<Rightarrow> string" where
  "trim_rev [] = []"
| "trim_rev [a] = (if ws1 a then [] else [a])"
| "trim_rev [b, a] = (if ws1 b then trim_rev [a] else if ws2 a b then [] else [b, a])"
| "trim_rev (c # b # a # s) =
     (if ws1 c then trim_rev (b # a # s)
      else if ws2 b c then trim_rev (a # s)
      else if ws3 a b c then trim_rev s
      else c # b # a # s)"

definition trim_end :: "string \<Rightarrow> string" where
  "trim_end s = rev (trim_rev (rev s))"

definition str_trim :: "string \<Rightarrow> string" where
  "str_trim s = trim_end (trim_start s)"

lemma set_trim_start: "set (trim_start s) \<subseteq> set s"
  by (induction s rule: trim_start.induct) auto

lemma set_trim_rev: "set (trim_rev s) \<subseteq> set s"
  by (induction s rule: trim_rev.induct) auto

lemma set_str_trim: "set (str_trim s) \<subseteq> set s"
  using set_trim_rev [of "rev (trim_start s)"] set_trim_start [of s]
  by (auto simp: str_trim_def trim_end_def)

lemma length_trim_start: "length (trim_start s) \<le> length s"
  by (induction s rule: trim_start.induct) auto

lemma length_trim_rev: "length (trim_rev s) \<le> length s"
  by (induction s rule: trim_rev.induct) auto

lemma length_str_trim: "length (str_trim s) \<le> length s"
  using length_trim_rev [of "rev (trim_start s)"] length_trim_start [of s]
  by (simp add: str_trim_def trim_end_def)

lemma trim_rev_idem: "trim_rev (trim_rev s) = trim_rev s"
  by (induction s rule: trim_rev.induct) auto

lemma trim_start_idem: "trim_start (trim_start s) = trim_start s"
  by (induction s rule: trim_start.induct) auto

lemma trim_rev_suffix: "\<exists>p. s = p @ trim_rev s"
proof (induction s rule: trim_rev.induct)
  case (4 c b a s)
  consider "ws1 c" | "\<not> ws1 c" "ws2 b c" | "\<not> ws1 c" "\<not> ws2 b c" "ws3 a b c"
    | "\<not> ws1 c" "\<not> ws2 b c" "\<not> ws3 a b c" by blast
  then show ?case
  proof cases
    case 1
    with 4(1) obtain p where "b # a # s = p @ trim_rev (b # a # s)" by blast
    with 1 have "c # b # a # s = (c # p) @ trim_rev (c # b # a # s)" by simp
    then show ?thesis by blast
  next
    case 2
    with 4(2) obtain p where "a # s = p @ trim_rev (a # s)" by blast
    with 2 have "c # b # a # s = (c # b # p) @ trim_rev (c # b # a # s)" by simp
    then show ?thesis by blast
  next
    case 3
    with 4(3) obtain p where "s = p @ trim_rev s" by blast
    with 3 have "c # b # a # s = (c # b # a # p) @ trim_rev (c # b # a # s)" by simp
    then show ?thesis by blast
  qed simp
qed auto

text \<open>Trimming is idempotent: a prefix of a string that starts with no white space starts with none.\<close>

definition starts_ws :: "string \<Rightarrow> bool" where
  "starts_ws s =
     (case s of
        a # b # c # r \<Rightarrow> ws1 a \<or> ws2 a b \<or> ws3 a b c
      | [a, b] \<Rightarrow> ws1 a \<or> ws2 a b
      | [a] \<Rightarrow> ws1 a
      | [] \<Rightarrow> False)"

lemma trim_start_fix: "trim_start s = s \<longleftrightarrow> \<not> starts_ws s"
proof (cases s rule: trim_start.cases)
  case (4 a b c r)
  have "trim_start (b # c # r) \<noteq> a # b # c # r" "trim_start (c # r) \<noteq> a # b # c # r"
    "trim_start r \<noteq> a # b # c # r"
    using length_trim_start [of "b # c # r"] length_trim_start [of "c # r"] length_trim_start [of r]
    by auto
  then show ?thesis by (simp add: 4 starts_ws_def)
qed (auto simp: starts_ws_def)

lemma starts_ws_prefix: "starts_ws p \<Longrightarrow> starts_ws (p @ q)"
  by (cases p rule: trim_start.cases; cases q rule: trim_start.cases)
     (auto simp: starts_ws_def split: list.splits)

lemma trim_end_prefix: "\<exists>q. s = trim_end s @ q"
proof -
  obtain p where "rev s = p @ trim_rev (rev s)" using trim_rev_suffix by blast
  then have "rev (rev s) = trim_end s @ rev p" by (metis rev_append trim_end_def)
  then show ?thesis by auto
qed

lemma str_trim_idem [simp]: "str_trim (str_trim s) = str_trim s"
proof -
  have "\<not> starts_ws (trim_start s)" using trim_start_idem trim_start_fix by blast
  moreover obtain q where "trim_start s = trim_end (trim_start s) @ q" using trim_end_prefix by blast
  ultimately have "\<not> starts_ws (str_trim s)" using starts_ws_prefix by (metis str_trim_def)
  then have "trim_start (str_trim s) = str_trim s" by (simp add: trim_start_fix)
  then show ?thesis
    by (simp add: str_trim_def [of "str_trim s"]) (simp add: str_trim_def trim_end_def trim_rev_idem)
qed

section \<open>UTF-8\<close>

definition cont :: "char \<Rightarrow> bool" where
  "cont c \<longleftrightarrow> 128 \<le> byte_of c \<and> byte_of c < 192"

text \<open>
  The length of the well-formed character a byte sequence starts with: the lead byte fixes
  the number of continuation bytes and the range of the first of them.
\<close>

definition utf8_width :: "char \<Rightarrow> nat" where
  "utf8_width a =
     (let x = byte_of a in
      if x < 128 then 1
      else if 194 \<le> x \<and> x \<le> 223 then 2
      else if 224 \<le> x \<and> x \<le> 239 then 3
      else if 240 \<le> x \<and> x \<le> 244 then 4
      else 0)"

definition utf8_second :: "char \<Rightarrow> char \<Rightarrow> bool" where
  "utf8_second a b \<longleftrightarrow>
     (byte_of a = 224 \<longrightarrow> 160 \<le> byte_of b) \<and> (byte_of a = 237 \<longrightarrow> byte_of b < 160) \<and>
     (byte_of a = 240 \<longrightarrow> 144 \<le> byte_of b) \<and> (byte_of a = 244 \<longrightarrow> byte_of b < 144)"

definition utf8_char_len :: "string \<Rightarrow> nat option" where
  "utf8_char_len s =
     (case s of [] \<Rightarrow> None | a # r \<Rightarrow>
        let n = utf8_width a in
        if n = 0 \<or> length r < n - 1 then None
        else if list_all cont (take (n - 1) r) \<and> (n = 1 \<or> utf8_second a (hd r)) then Some n
        else None)"

lemma utf8_width_le: "utf8_width a \<le> 4"
  by (simp add: utf8_width_def Let_def)

lemma utf8_width_not_cont: "utf8_width a \<noteq> 0 \<Longrightarrow> \<not> cont a"
  by (auto simp: utf8_width_def cont_def Let_def split: if_splits)

lemma utf8_char_len_pos:
  "utf8_char_len s = Some n \<Longrightarrow> 0 < n \<and> n \<le> 4 \<and> n \<le> length s"
  using utf8_width_le by (auto simp: utf8_char_len_def Let_def split: list.splits if_splits)

function utf8_valid :: "string \<Rightarrow> bool" where
  "utf8_valid s = (s = [] \<or> (case utf8_char_len s of None \<Rightarrow> False | Some n \<Rightarrow> utf8_valid (drop n s)))"
  by pat_completeness auto
termination
proof (relation "measure length")
  fix s :: string and n
  assume "utf8_char_len s = Some n"
  then show "(drop n s, s) \<in> measure length"
    using utf8_char_len_pos [of s n] by (cases s) auto
qed simp

declare utf8_valid.simps [simp del]

text \<open>\<open>str::is_char_boundary\<close>.\<close>

definition is_char_boundary :: "string \<Rightarrow> nat \<Rightarrow> bool" where
  "is_char_boundary s i \<longleftrightarrow> i = 0 \<or> i = length s \<or> i < length s \<and> \<not> cont (s ! i)"

lemma utf8_char_len_cont:
  assumes "utf8_char_len s = Some n" and "0 < i" and "i < n"
  shows "cont (s ! i)"
proof -
  obtain a r where s: "s = a # r" "list_all cont (take (n - 1) r)" "n - 1 \<le> length r"
    using assms(1) by (auto simp: utf8_char_len_def Let_def split: list.splits if_splits)
  then have "cont (take (n - 1) r ! (i - 1))"
    using assms(2,3) by (simp only: list_all_length) (simp add: diff_less_mono)
  with s assms(2,3) show ?thesis by (cases i) auto
qed

lemma utf8_char_len_take:
  assumes "utf8_char_len s = Some n" and "n \<le> i"
  shows "utf8_char_len (take i s) = Some n"
proof -
  have pos: "0 < n" using utf8_char_len_pos [OF assms(1)] by simp
  with assms(2) obtain k where i: "i = Suc k" by (cases i) auto
  obtain a r where s: "s = a # r" by (cases s) (use assms(1) in \<open>auto simp: utf8_char_len_def\<close>)
  have "hd (take k r) = hd r" if "utf8_width a \<noteq> Suc 0"
    using that assms i pos s
    by (cases k; cases r) (auto simp: utf8_char_len_def Let_def split: if_splits)
  moreover have "min (n - 1) k = n - 1" using assms(2) i by simp
  ultimately show ?thesis
    using assms(1)
    by (cases "utf8_width a = Suc 0") (auto simp: utf8_char_len_def i s Let_def split: if_splits)
qed

lemma utf8_valid_take:
  "utf8_valid s \<Longrightarrow> i \<le> length s \<Longrightarrow> is_char_boundary s i \<Longrightarrow> utf8_valid (take i s)"
proof (induction s arbitrary: i rule: utf8_valid.induct)
  case (1 s)
  show ?case
  proof (cases "i = 0 \<or> s = []")
    case True
    then show ?thesis by (auto simp: utf8_valid.simps)
  next
    case False
    with 1(2) obtain n where n: "utf8_char_len s = Some n" "utf8_valid (drop n s)"
      by (subst (asm) utf8_valid.simps) (auto split: option.splits)
    note pos = utf8_char_len_pos [OF n(1)]
    have "n \<le> i"
      using 1(4) False n(1) utf8_char_len_cont [OF n(1), of i] 1(3) pos
      by (force simp: is_char_boundary_def)
    moreover have "is_char_boundary (drop n s) (i - n)"
      using 1(4) \<open>n \<le> i\<close> pos False by (auto simp: is_char_boundary_def)
    ultimately have "utf8_valid (take (i - n) (drop n s))"
      using False n 1(3) by (intro 1(1)) auto
    then have "utf8_valid (drop n (take i s))" by (simp add: drop_take)
    moreover have "utf8_char_len (take i s) = Some n"
      using n(1) \<open>n \<le> i\<close> by (rule utf8_char_len_take)
    ultimately show ?thesis by (subst utf8_valid.simps) simp
  qed
qed

lemma utf8_boundary_near:
  "utf8_valid s \<Longrightarrow> i \<le> length s \<Longrightarrow> \<exists>j \<le> i. i - j \<le> 3 \<and> is_char_boundary s j"
proof (induction s arbitrary: i rule: utf8_valid.induct)
  case (1 s)
  show ?case
  proof (cases "i = 0 \<or> s = []")
    case True
    then show ?thesis using 1(3) by (intro exI [of _ 0]) (auto simp: is_char_boundary_def)
  next
    case False
    with 1(2) obtain n where n: "utf8_char_len s = Some n" "utf8_valid (drop n s)"
      by (subst (asm) utf8_valid.simps) (auto split: option.splits)
    note pos = utf8_char_len_pos [OF n(1)]
    show ?thesis
    proof (cases "i < n")
      case True
      with pos show ?thesis by (intro exI [of _ 0]) (auto simp: is_char_boundary_def)
    next
      case False
      from 1(3) have "i - n \<le> length (drop n s)" by simp
      then obtain j where j: "j \<le> i - n" "i - n - j \<le> 3" "is_char_boundary (drop n s) j"
        using 1(1) [OF n, of "i - n"]
        by blast
      show ?thesis
      proof (cases "j = 0")
        case True
        have "is_char_boundary s n"
        proof (cases "drop n s")
          case Nil
          with pos show ?thesis by (simp add: is_char_boundary_def)
        next
          case (Cons a r)
          with n(2) have "\<exists>m. utf8_char_len (a # r) = Some m"
            by (subst (asm) utf8_valid.simps) (auto split: option.splits)
          then have "\<not> cont a"
            using utf8_width_not_cont [of a] by (auto simp: utf8_char_len_def Let_def split: if_splits)
          moreover have "s ! n = a" "n < length s"
            using Cons by (metis hd_drop_conv_nth list.discI list.sel(1) drop_eq_Nil linorder_not_le)+
          ultimately show ?thesis by (simp add: is_char_boundary_def)
        qed
        with True j False show ?thesis by (intro exI [of _ n]) auto
      next
        case nz: False
        with j have "is_char_boundary s (n + j)"
          using pos by (auto simp: is_char_boundary_def)
        with j False show ?thesis by (intro exI [of _ "n + j"]) auto
      qed
    qed
  qed
qed

text \<open>
  \<open>Utf8Error\<close>: the length of the valid prefix, and the length of the rejected sequence
  (\<open>None\<close> when the input ends inside a character). Its \<open>Display\<close> text appears in the
  error for a damaged scope name.
\<close>

function utf8_valid_up_to :: "string \<Rightarrow> nat" where
  "utf8_valid_up_to s = (case utf8_char_len s of None \<Rightarrow> 0 | Some n \<Rightarrow> n + utf8_valid_up_to (drop n s))"
  by pat_completeness auto
termination
proof (relation "measure length")
  fix s :: string and n
  assume "utf8_char_len s = Some n"
  then show "(drop n s, s) \<in> measure length"
    using utf8_char_len_pos [of s n] by (cases s) auto
qed simp

declare utf8_valid_up_to.simps [simp del]

definition utf8_error_len :: "string \<Rightarrow> nat option" where
  "utf8_error_len s =
     (case s of
        [] \<Rightarrow> None
      | [a] \<Rightarrow> if utf8_width a = 0 then Some 1 else None
      | a # b # r \<Rightarrow>
          if utf8_width a = 0 \<or> \<not> cont b \<or> \<not> utf8_second a b then Some 1
          else (case r of
              [] \<Rightarrow> None
            | c # q \<Rightarrow> if \<not> cont c then Some 2 else if q = [] then None else Some 3))"

definition utf8_error_display :: "string \<Rightarrow> string" where
  "utf8_error_display s =
     (let n = utf8_valid_up_to s in
      case utf8_error_len (drop n s) of
        Some k \<Rightarrow> ''invalid utf-8 sequence of '' @ show_nat k @ '' bytes from index '' @ show_nat n
      | None \<Rightarrow> ''incomplete utf-8 byte sequence from index '' @ show_nat n)"

end
