(* ===== verification/Pwb_Types.thy ===== *)
theory Pwb_Types
  imports Pwb_Strings
begin

text \<open>
  The shared vocabulary of the extension: \<^verbatim>\<open>src/types.rs\<close> and \<^verbatim>\<open>src/errors.rs\<close>. The enums
  keep the source's constructors (decision kinds and reason codes carry a prefix, as their
  names overlap); struct fields carry a prefix for the struct. The lemmas show the round
  trip between enums and their SQL spelling, and that the integer EWMA of a query profile
  stays between its old value and the new observation without overflow.
\<close>

type_synonym wal_bytes = u64
type_synonym query_id = u64
type_synonym scope_hash = u64
type_synonym policy_id = i32
type_synonym epoch_millis = u64

section \<open>Errors\<close>

datatype pwb_error =
    InvalidBudgetMode string
  | InvalidScopeKind string
  | InvalidPolicyValue string string string  \<comment> \<open>field, value, reason\<close>
  | InsufficientPrivilege string
  | MissingScope
  | BudgetExceeded policy_id wal_bytes wal_bytes
  | Internal string

type_synonym 'a pwb_result = "pwb_error + 'a"

text \<open>The SQLSTATE classes the code names; PostgreSQL defines their codes.\<close>

datatype sql_error_code =
    ERRCODE_INVALID_PARAMETER_VALUE
  | ERRCODE_INSUFFICIENT_PRIVILEGE
  | ERRCODE_RAISE_EXCEPTION
  | ERRCODE_INTERNAL_ERROR

fun error_sql_code :: "pwb_error \<Rightarrow> sql_error_code" where
  "error_sql_code (InvalidBudgetMode _) = ERRCODE_INVALID_PARAMETER_VALUE"
| "error_sql_code (InvalidScopeKind _) = ERRCODE_INVALID_PARAMETER_VALUE"
| "error_sql_code (InvalidPolicyValue _ _ _) = ERRCODE_INVALID_PARAMETER_VALUE"
| "error_sql_code (InsufficientPrivilege _) = ERRCODE_INSUFFICIENT_PRIVILEGE"
| "error_sql_code MissingScope = ERRCODE_RAISE_EXCEPTION"
| "error_sql_code (BudgetExceeded _ _ _) = ERRCODE_RAISE_EXCEPTION"
| "error_sql_code (Internal _) = ERRCODE_INTERNAL_ERROR"

fun error_message :: "pwb_error \<Rightarrow> string" where
  "error_message (InvalidBudgetMode _) = ''invalid pg_wal_budget policy value''"
| "error_message (InvalidScopeKind _) = ''invalid pg_wal_budget policy value''"
| "error_message (InvalidPolicyValue _ _ _) = ''invalid pg_wal_budget policy value''"
| "error_message (InsufficientPrivilege _) = ''insufficient privilege for pg_wal_budget operation''"
| "error_message MissingScope = ''pg_wal_budget could not determine statement scope''"
| "error_message (BudgetExceeded _ _ _) = ''pg_wal_budget rejected statement: WAL budget exceeded''"
| "error_message (Internal _) = ''pg_wal_budget internal error''"

text \<open>\<open>impl Display for PwbError\<close>.\<close>

fun error_display :: "pwb_error \<Rightarrow> string" where
  "error_display (InvalidBudgetMode v) = ''invalid budget mode: '' @ v"
| "error_display (InvalidScopeKind v) = ''invalid scope kind: '' @ v"
| "error_display (InvalidPolicyValue f v r) =
     ''invalid policy value for '' @ f @ '': '' @ v @ '' ('' @ r @ '')''"
| "error_display (InsufficientPrivilege op) = ''insufficient privilege to '' @ op"
| "error_display MissingScope = ''missing scope''"
| "error_display (BudgetExceeded pid predicted available) =
     ''WAL budget exceeded for policy '' @ show_int (sint pid) @ '': predicted '' @
     show_nat (unat predicted) @ '' bytes, available '' @ show_nat (unat available) @ '' bytes''"
| "error_display (Internal m) = ''internal error: '' @ m"

text \<open>
  \<open>errors::raise\<close> does not return: it reports the error to PostgreSQL with this code and
  text.
\<close>

definition raised_report :: "pwb_error \<Rightarrow> sql_error_code \<times> string" where
  "raised_report e = (error_sql_code e, error_message e @ '': '' @ error_display e)"

section \<open>Enums\<close>

datatype budget_mode = Off | Observe | Shadow | Reject | Queue

fun budget_mode_as_sql_str :: "budget_mode \<Rightarrow> string" where
  "budget_mode_as_sql_str Off = ''off''"
| "budget_mode_as_sql_str Observe = ''observe''"
| "budget_mode_as_sql_str Shadow = ''shadow''"
| "budget_mode_as_sql_str Reject = ''reject''"
| "budget_mode_as_sql_str Queue = ''queue''"

definition budget_mode_parse_sql :: "string \<Rightarrow> budget_mode pwb_result" where
  "budget_mode_parse_sql input =
     (let s = to_ascii_lowercase (str_trim input) in
      if s = ''off'' then Inr Off
      else if s = ''observe'' then Inr Observe
      else if s = ''shadow'' then Inr Shadow
      else if s = ''reject'' then Inr Reject
      else if s = ''queue'' then Inr Queue
      else Inl (InvalidBudgetMode input))"

datatype scope_kind = Database | Role | Application | Tenant | Composite

fun scope_kind_as_sql_str :: "scope_kind \<Rightarrow> string" where
  "scope_kind_as_sql_str Database = ''database''"
| "scope_kind_as_sql_str Role = ''role''"
| "scope_kind_as_sql_str Application = ''application''"
| "scope_kind_as_sql_str Tenant = ''tenant''"
| "scope_kind_as_sql_str Composite = ''composite''"

definition scope_kind_parse_sql :: "string \<Rightarrow> scope_kind pwb_result" where
  "scope_kind_parse_sql input =
     (let s = to_ascii_lowercase (str_trim input) in
      if s = ''database'' then Inr Database
      else if s = ''role'' then Inr Role
      else if s = ''application'' then Inr Application
      else if s = ''tenant'' then Inr Tenant
      else if s = ''composite'' then Inr Composite
      else Inl (InvalidScopeKind input))"

datatype decision_kind =
    DkAllowed | DkWouldReject | DkRejected | DkNoMatchingPolicy | DkMissingScope
  | DkInternalErrorFailOpen

fun decision_kind_as_sql_str :: "decision_kind \<Rightarrow> string" where
  "decision_kind_as_sql_str DkAllowed = ''allowed''"
| "decision_kind_as_sql_str DkWouldReject = ''would_reject''"
| "decision_kind_as_sql_str DkRejected = ''rejected''"
| "decision_kind_as_sql_str DkNoMatchingPolicy = ''no_matching_policy''"
| "decision_kind_as_sql_str DkMissingScope = ''missing_scope''"
| "decision_kind_as_sql_str DkInternalErrorFailOpen = ''internal_error_fail_open''"

datatype statement_class = ReadOnly | Write | Utility | Copy | Unknown

fun statement_class_as_sql_str :: "statement_class \<Rightarrow> string" where
  "statement_class_as_sql_str ReadOnly = ''read_only''"
| "statement_class_as_sql_str Write = ''write''"
| "statement_class_as_sql_str Utility = ''utility''"
| "statement_class_as_sql_str Copy = ''copy''"
| "statement_class_as_sql_str Unknown = ''unknown''"

datatype reason_code =
    RcPolicyDisabled | RcPolicyMatched | RcBudgetAvailable | RcBudgetExceeded | RcObserveMode
  | RcShadowMode | RcNoMatchingPolicy | RcMissingScope | RcPredictionUnavailable
  | RcInternalErrorFailOpen

fun reason_code_as_sql_str :: "reason_code \<Rightarrow> string" where
  "reason_code_as_sql_str RcPolicyDisabled = ''policy_disabled''"
| "reason_code_as_sql_str RcPolicyMatched = ''policy_matched''"
| "reason_code_as_sql_str RcBudgetAvailable = ''budget_available''"
| "reason_code_as_sql_str RcBudgetExceeded = ''budget_exceeded''"
| "reason_code_as_sql_str RcObserveMode = ''observe_mode''"
| "reason_code_as_sql_str RcShadowMode = ''shadow_mode''"
| "reason_code_as_sql_str RcNoMatchingPolicy = ''no_matching_policy''"
| "reason_code_as_sql_str RcMissingScope = ''missing_scope''"
| "reason_code_as_sql_str RcPredictionUnavailable = ''prediction_unavailable''"
| "reason_code_as_sql_str RcInternalErrorFailOpen = ''internal_error_fail_open''"

section \<open>Structs\<close>

record scope_key =
  sk_kind :: scope_kind
  sk_value_hash :: scope_hash
  sk_debug_value :: "string option"

definition scope_key_with_debug_value :: "scope_kind \<Rightarrow> scope_hash \<Rightarrow> string \<Rightarrow> scope_key" where
  "scope_key_with_debug_value kind value_hash debug_value =
     \<lparr>sk_kind = kind, sk_value_hash = value_hash, sk_debug_value = Some debug_value\<rparr>"

record admission_context =
  ac_query_id :: "query_id option"
  ac_scope :: scope_key
  ac_statement_class :: statement_class
  ac_predicted_wal_bytes :: wal_bytes

record admission_decision =
  ad_kind :: decision_kind
  ad_policy_id :: "policy_id option"
  ad_charged_bytes :: wal_bytes
  ad_available_before :: wal_bytes
  ad_available_after :: wal_bytes
  ad_reason_code :: reason_code

datatype wal_measurement_kind = ExactBackend | Unavailable

record active_statement_state =
  as_decision :: admission_decision
  as_start_wal_bytes :: "wal_bytes option"
  as_measurement_kind :: wal_measurement_kind
  as_query_id :: "query_id option"
  as_scope_kind :: scope_kind
  as_scope_hash :: scope_hash
  as_statement_class :: statement_class
  as_predicted_wal_bytes :: wal_bytes

definition decision_allowed ::
  "policy_id option \<Rightarrow> wal_bytes \<Rightarrow> reason_code \<Rightarrow> admission_decision" where
  "decision_allowed policy_id charged_bytes reason_code =
     \<lparr>ad_kind = DkAllowed, ad_policy_id = policy_id, ad_charged_bytes = charged_bytes,
      ad_available_before = 0, ad_available_after = 0, ad_reason_code = reason_code\<rparr>"

definition decision_would_reject :: "policy_id \<Rightarrow> wal_bytes \<Rightarrow> admission_decision" where
  "decision_would_reject policy_id charged_bytes =
     \<lparr>ad_kind = DkWouldReject, ad_policy_id = Some policy_id, ad_charged_bytes = charged_bytes,
      ad_available_before = 0, ad_available_after = 0, ad_reason_code = RcBudgetExceeded\<rparr>"

definition decision_rejected :: "policy_id \<Rightarrow> wal_bytes \<Rightarrow> admission_decision" where
  "decision_rejected policy_id charged_bytes =
     \<lparr>ad_kind = DkRejected, ad_policy_id = Some policy_id, ad_charged_bytes = charged_bytes,
      ad_available_before = 0, ad_available_after = 0, ad_reason_code = RcBudgetExceeded\<rparr>"

definition decision_no_matching_policy :: admission_decision where
  "decision_no_matching_policy =
     \<lparr>ad_kind = DkNoMatchingPolicy, ad_policy_id = None, ad_charged_bytes = 0,
      ad_available_before = 0, ad_available_after = 0, ad_reason_code = RcNoMatchingPolicy\<rparr>"

definition decision_internal_error_fail_open :: admission_decision where
  "decision_internal_error_fail_open =
     \<lparr>ad_kind = DkInternalErrorFailOpen, ad_policy_id = None, ad_charged_bytes = 0,
      ad_available_before = 0, ad_available_after = 0, ad_reason_code = RcInternalErrorFailOpen\<rparr>"

definition with_availability ::
  "admission_decision \<Rightarrow> wal_bytes \<Rightarrow> wal_bytes \<Rightarrow> admission_decision" where
  "with_availability d available_before available_after =
     d\<lparr>ad_available_before := available_before, ad_available_after := available_after\<rparr>"

section \<open>Query profiles\<close>

record query_wal_profile =
  qp_calls :: u64
  qp_ewma_wal_bytes :: wal_bytes
  qp_max_wal_bytes :: wal_bytes
  qp_last_seen_epoch_ms :: epoch_millis

record profile_ewma_weights =
  ew_numerator :: u64
  ew_denominator :: u64

definition ewma_weights_new :: "u64 \<Rightarrow> u64 \<Rightarrow> profile_ewma_weights pwb_result" where
  "ewma_weights_new numerator denominator =
     (if denominator = 0 \<or> numerator = 0 \<or> numerator > denominator
      then Inl (Internal (''invalid profile EWMA weights: '' @ show_nat (unat numerator) @ ''/'' @
                          show_nat (unat denominator)))
      else Inr \<lparr>ew_numerator = numerator, ew_denominator = denominator\<rparr>)"

definition query_profile_new :: "wal_bytes \<Rightarrow> epoch_millis \<Rightarrow> query_wal_profile" where
  "query_profile_new first_actual now_epoch_ms =
     \<lparr>qp_calls = 1, qp_ewma_wal_bytes = first_actual, qp_max_wal_bytes = first_actual,
      qp_last_seen_epoch_ms = now_epoch_ms\<rparr>"

text \<open>
  \<open>record_observation\<close>. Its \<open>debug_assert\<close>s (a positive numerator, at most the denominator)
  are facts of every weight that \<^const>\<open>ewma_weights_new\<close> returns.
\<close>

definition record_observation ::
  "query_wal_profile \<Rightarrow> wal_bytes \<Rightarrow> epoch_millis \<Rightarrow> u64 \<Rightarrow> u64 \<Rightarrow> query_wal_profile" where
  "record_observation p actual now_epoch_ms alpha_numerator alpha_denominator =
     (let old_weight = alpha_denominator - alpha_numerator;
          weighted_sum = widen (qp_ewma_wal_bytes p) * widen old_weight + widen actual * widen alpha_numerator;
          ewma = weighted_sum div widen alpha_denominator
      in p\<lparr>qp_ewma_wal_bytes := narrow_or_max ewma,
           qp_calls := sat_add (qp_calls p) 1,
           qp_max_wal_bytes := max (qp_max_wal_bytes p) actual,
           qp_last_seen_epoch_ms := now_epoch_ms\<rparr>)"

definition weights_ok :: "profile_ewma_weights \<Rightarrow> bool" where
  "weights_ok w \<longleftrightarrow> 0 < ew_numerator w \<and> ew_numerator w \<le> ew_denominator w"

definition profile_ok :: "query_wal_profile \<Rightarrow> bool" where
  "profile_ok p \<longleftrightarrow> 0 < qp_calls p \<and> qp_ewma_wal_bytes p \<le> qp_max_wal_bytes p"

lemma ewma_weights_new_Inr:
  "ewma_weights_new n d = Inr w \<longleftrightarrow>
     w = \<lparr>ew_numerator = n, ew_denominator = d\<rparr> \<and> 0 < n \<and> n \<le> d"
  by (auto simp: ewma_weights_new_def word_neq_0_conv not_less)

lemma ewma_weights_new_ok: "ewma_weights_new n d = Inr w \<Longrightarrow> weights_ok w"
  by (auto simp: ewma_weights_new_Inr weights_ok_def)

section \<open>Properties\<close>

text \<open>The weighted sum of the EWMA fits 128 bits, and its quotient fits 64.\<close>

lemma ewma_sum_bound:
  fixes e a n d :: u64
  assumes "n \<le> d"
  shows "unat (widen e * widen (d - n) + widen a * widen n) =
           unat e * (unat d - unat n) + unat a * unat n" (is "_ = ?s")
    and "unat e * (unat d - unat n) + unat a * unat n \<le> max (unat e) (unat a) * unat d"
proof -
  let ?m = "max (unat e) (unat a)"
  have nd: "unat n \<le> unat d" using assms by (simp add: word_le_nat_alt)
  have "?s \<le> ?m * (unat d - unat n) + ?m * unat n"
    by (intro add_mono mult_right_mono) auto
  also have "\<dots> = ?m * unat d" using nd by (simp flip: distrib_left)
  finally show le: "?s \<le> ?m * unat d" .
  have "?m * unat d < 2 ^ 64 * 2 ^ 64"
    using unat_bound [of e] unat_bound [of a] unat_bound [of d] by (intro mult_strict_mono) auto
  with le have "?s < 2 ^ 128" by simp
  moreover have "unat (d - n) = unat d - unat n"
    using assms by (rule unat_sub)
  ultimately show "unat (widen e * widen (d - n) + widen a * widen n) = ?s"
    by (simp add: unat_word_ariths(1) [where 'a = 128] unat_widen_mult)
qed

lemma record_observation_ewma:
  assumes "n \<le> d" and "0 < d"
  shows "unat (qp_ewma_wal_bytes (record_observation p a t n d)) =
    (unat (qp_ewma_wal_bytes p) * (unat d - unat n) + unat a * unat n) div unat d" (is "_ = ?s div _")
proof -
  have d: "0 < unat d" using assms(2) by (simp add: unat_gt_0 word_neq_0_conv)
  have "?s \<le> max (unat (qp_ewma_wal_bytes p)) (unat a) * unat d"
    using assms(1) by (rule ewma_sum_bound)
  then have "?s div unat d \<le> max (unat (qp_ewma_wal_bytes p)) (unat a)"
    using d by (metis div_le_mono nonzero_mult_div_cancel_right less_numeral_extra(3))
  also have "max (unat (qp_ewma_wal_bytes p)) (unat a) \<le> 2 ^ 64 - 1"
    by simp
  finally show ?thesis
    by (simp add: record_observation_def Let_def unat_narrow_or_max unat_word_div
        ewma_sum_bound(1) [OF assms(1)] unat_widen min_absorb1)
qed

lemma record_observation_bounds:
  assumes "weights_ok w" and "profile_ok p"
  shows "min (qp_ewma_wal_bytes p) a
           \<le> qp_ewma_wal_bytes (record_observation p a t (ew_numerator w) (ew_denominator w))
       \<and> qp_ewma_wal_bytes (record_observation p a t (ew_numerator w) (ew_denominator w))
           \<le> max (qp_ewma_wal_bytes p) a
       \<and> profile_ok (record_observation p a t (ew_numerator w) (ew_denominator w))"
proof -
  let ?n = "ew_numerator w" and ?d = "ew_denominator w" and ?e = "qp_ewma_wal_bytes p"
  let ?p = "record_observation p a t ?n ?d"
  have nd: "?n \<le> ?d" and "0 < ?d"
    using assms(1) by (auto simp: weights_ok_def)
  then have d: "0 < unat ?d" and ndn: "unat ?n \<le> unat ?d"
    by (simp_all add: unat_gt_0 word_neq_0_conv word_le_nat_alt)
  let ?s = "unat ?e * (unat ?d - unat ?n) + unat a * unat ?n"
  have eq: "unat (qp_ewma_wal_bytes ?p) = ?s div unat ?d"
    using nd \<open>0 < ?d\<close> by (rule record_observation_ewma)
  have "min (unat ?e) (unat a) * unat ?d
      = min (unat ?e) (unat a) * (unat ?d - unat ?n) + min (unat ?e) (unat a) * unat ?n"
    using ndn by (simp flip: distrib_left)
  also have "\<dots> \<le> ?s" by (intro add_mono mult_right_mono) auto
  finally have "min (unat ?e) (unat a) \<le> ?s div unat ?d"
    using d by (simp add: less_eq_div_iff_mult_less_eq)
  moreover have "?s div unat ?d \<le> max (unat ?e) (unat a)"
    using div_le_mono [OF ewma_sum_bound(2) [OF nd, of ?e a], of "unat ?d"] d by simp
  ultimately have lo: "min ?e a \<le> qp_ewma_wal_bytes ?p" and hi: "qp_ewma_wal_bytes ?p \<le> max ?e a"
    by (simp_all add: word_le_nat_alt eq word_min_nat word_max_nat)
  moreover have "profile_ok ?p"
  proof -
    have "0 < unat (qp_calls p)"
      using assms(2) by (simp add: profile_ok_def word_less_nat_alt)
    then have "0 < unat (sat_add (qp_calls p) 1)" by (simp add: unat_simps)
    then have "0 < qp_calls ?p"
      by (simp add: record_observation_def Let_def word_less_nat_alt)
    moreover have "max ?e a \<le> qp_max_wal_bytes ?p"
      using assms(2) by (auto simp: profile_ok_def record_observation_def Let_def max_def)
    ultimately show ?thesis using order_trans [OF hi] by (simp add: profile_ok_def)
  qed
  ultimately show ?thesis by blast
qed

lemma record_observation_ok:
  "weights_ok w \<Longrightarrow> profile_ok p \<Longrightarrow>
     profile_ok (record_observation p a t (ew_numerator w) (ew_denominator w))"
  using record_observation_bounds by blast


lemma query_profile_new_ok: "profile_ok (query_profile_new a t)"
  by (simp add: profile_ok_def query_profile_new_def)



section \<open>SQL spelling\<close>

lemma budget_mode_parse_Inr:
  "budget_mode_parse_sql input = Inr m \<longleftrightarrow> to_ascii_lowercase (str_trim input) = budget_mode_as_sql_str m"
  by (cases m) (auto simp: budget_mode_parse_sql_def Let_def)

lemma scope_kind_parse_Inr:
  "scope_kind_parse_sql input = Inr k \<longleftrightarrow> to_ascii_lowercase (str_trim input) = scope_kind_as_sql_str k"
  by (cases k) (auto simp: scope_kind_parse_sql_def Let_def)

lemma lower_trim_mode: "to_ascii_lowercase (str_trim (budget_mode_as_sql_str m)) = budget_mode_as_sql_str m"
  by (cases m; hypsubst; code_simp)

lemma lower_trim_kind: "to_ascii_lowercase (str_trim (scope_kind_as_sql_str k)) = scope_kind_as_sql_str k"
  by (cases k; hypsubst; code_simp)

lemmas lower_trim_spelling = lower_trim_mode lower_trim_kind

lemma parse_as_sql [simp]:
  "budget_mode_parse_sql (budget_mode_as_sql_str m) = Inr m"
  "scope_kind_parse_sql (scope_kind_as_sql_str k) = Inr k"
  by (simp_all add: budget_mode_parse_Inr scope_kind_parse_Inr lower_trim_spelling)

lemma budget_mode_parse_Inl: "budget_mode_parse_sql input = Inl e \<Longrightarrow> e = InvalidBudgetMode input"
  by (auto simp: budget_mode_parse_sql_def Let_def split: if_splits)

lemma scope_kind_parse_Inl: "scope_kind_parse_sql input = Inl e \<Longrightarrow> e = InvalidScopeKind input"
  by (auto simp: scope_kind_parse_sql_def Let_def split: if_splits)

text \<open>
  A budget mode and a scope kind are read from SQL exactly as they are spelled there, up
  to surrounding white space and the case of ASCII letters; anything else is an error that
  carries the input; and what the extension writes it reads back.
\<close>

lemma sql_enums_parse:
  "((budget_mode_parse_sql input = Inr m) = (to_ascii_lowercase (str_trim input) = budget_mode_as_sql_str m))
   \<and> ((scope_kind_parse_sql input = Inr k) = (to_ascii_lowercase (str_trim input) = scope_kind_as_sql_str k))
   \<and> budget_mode_parse_sql input \<in> insert (Inl (InvalidBudgetMode input)) (range Inr)
   \<and> scope_kind_parse_sql input \<in> insert (Inl (InvalidScopeKind input)) (range Inr)
   \<and> budget_mode_parse_sql (budget_mode_as_sql_str m) = Inr m
   \<and> scope_kind_parse_sql (scope_kind_as_sql_str k) = Inr k"
proof (intro conjI)
  show "budget_mode_parse_sql input \<in> insert (Inl (InvalidBudgetMode input)) (range Inr)"
    using budget_mode_parse_Inl by (cases "budget_mode_parse_sql input") blast+
  show "scope_kind_parse_sql input \<in> insert (Inl (InvalidScopeKind input)) (range Inr)"
    using scope_kind_parse_Inl by (cases "scope_kind_parse_sql input") blast+
qed (simp_all add: budget_mode_parse_Inr scope_kind_parse_Inr lower_trim_spelling)

end
