(* ===== verification/Pwb_Records.thy ===== *)
theory Pwb_Records
  imports Pwb_Types
begin

text \<open>
  The records of the shared-memory segment and their encodings, \<^verbatim>\<open>src/shmem/records.rs\<close>:
  the header, the counters, and the four kinds of array slots with their conversions to and
  from the Rust-side values. The lemmas show that every encoder is undone by its decoder,
  that the enum decoders accept exactly the encoded bytes, and that a scope name is cut to
  at most 256 bytes at a character boundary.
\<close>

section \<open>Counters\<close>

record pwb_counters =
  pc_accepted_statements :: u64
  pc_rejected_statements :: u64
  pc_shadow_would_reject_count :: u64
  pc_predicted_wal_bytes :: u64
  pc_actual_wal_bytes :: u64
  pc_absolute_prediction_error :: u64
  pc_scope_debt_bytes :: u64
  pc_missing_actual_wal_count :: u64
  pc_internal_fail_open_count :: u64
  pc_aborted_after_charge_count :: u64
  pc_scope_name_drop_count :: u64

record counter_delta =
  cd_accepted_statements :: u64
  cd_rejected_statements :: u64
  cd_shadow_would_reject_count :: u64
  cd_predicted_wal_bytes :: u64
  cd_actual_wal_bytes :: u64
  cd_absolute_prediction_error :: u64
  cd_scope_debt_bytes :: u64
  cd_missing_actual_wal_count :: u64
  cd_internal_fail_open_count :: u64
  cd_aborted_after_charge_count :: u64
  cd_scope_name_drop_count :: u64

definition pwb_counters_default :: pwb_counters where
  "pwb_counters_default =
     \<lparr>pc_accepted_statements = 0, pc_rejected_statements = 0, pc_shadow_would_reject_count = 0,
      pc_predicted_wal_bytes = 0, pc_actual_wal_bytes = 0, pc_absolute_prediction_error = 0,
      pc_scope_debt_bytes = 0, pc_missing_actual_wal_count = 0, pc_internal_fail_open_count = 0,
      pc_aborted_after_charge_count = 0, pc_scope_name_drop_count = 0\<rparr>"

definition counter_delta_default :: counter_delta where
  "counter_delta_default =
     \<lparr>cd_accepted_statements = 0, cd_rejected_statements = 0, cd_shadow_would_reject_count = 0,
      cd_predicted_wal_bytes = 0, cd_actual_wal_bytes = 0, cd_absolute_prediction_error = 0,
      cd_scope_debt_bytes = 0, cd_missing_actual_wal_count = 0, cd_internal_fail_open_count = 0,
      cd_aborted_after_charge_count = 0, cd_scope_name_drop_count = 0\<rparr>"

definition saturating_add_delta :: "pwb_counters \<Rightarrow> counter_delta \<Rightarrow> pwb_counters" where
  "saturating_add_delta c d =
     \<lparr>pc_accepted_statements = sat_add (pc_accepted_statements c) (cd_accepted_statements d),
      pc_rejected_statements = sat_add (pc_rejected_statements c) (cd_rejected_statements d),
      pc_shadow_would_reject_count =
        sat_add (pc_shadow_would_reject_count c) (cd_shadow_would_reject_count d),
      pc_predicted_wal_bytes = sat_add (pc_predicted_wal_bytes c) (cd_predicted_wal_bytes d),
      pc_actual_wal_bytes = sat_add (pc_actual_wal_bytes c) (cd_actual_wal_bytes d),
      pc_absolute_prediction_error =
        sat_add (pc_absolute_prediction_error c) (cd_absolute_prediction_error d),
      pc_scope_debt_bytes = sat_add (pc_scope_debt_bytes c) (cd_scope_debt_bytes d),
      pc_missing_actual_wal_count =
        sat_add (pc_missing_actual_wal_count c) (cd_missing_actual_wal_count d),
      pc_internal_fail_open_count =
        sat_add (pc_internal_fail_open_count c) (cd_internal_fail_open_count d),
      pc_aborted_after_charge_count =
        sat_add (pc_aborted_after_charge_count c) (cd_aborted_after_charge_count d),
      pc_scope_name_drop_count = sat_add (pc_scope_name_drop_count c) (cd_scope_name_drop_count d)\<rparr>"

section \<open>The header\<close>

record pwb_shared_state =
  ss_magic :: u32
  ss_layout_version :: u32
  ss_recent_decision_capacity :: u32
  ss_profile_cache_capacity :: u32
  ss_budget_bucket_capacity :: u32
  ss_scope_name_capacity :: u32
  ss_recent_decision_head :: u64
  ss_recent_decision_count :: u32
  ss_profiles_len :: u32
  ss_budget_buckets_len :: u32
  ss_profile_restore_state :: u8
  ss_profile_restore_padding :: "u8 list"
  ss_profile_restore_started_epoch_ms :: epoch_millis
  ss_last_profile_persist_epoch_ms :: epoch_millis
  ss_profile_dirty_count :: u64
  ss_counters :: pwb_counters

definition MAGIC :: u32 where "MAGIC = 0x50574201"
definition LAYOUT_VERSION :: u32 where "LAYOUT_VERSION = 6"

text \<open>The header of an empty segment whose arrays all have the same capacity.\<close>

definition test_state :: "u32 \<Rightarrow> pwb_shared_state" where
  "test_state shmem_capacity =
     \<lparr>ss_magic = MAGIC, ss_layout_version = LAYOUT_VERSION,
      ss_recent_decision_capacity = shmem_capacity, ss_profile_cache_capacity = shmem_capacity,
      ss_budget_bucket_capacity = shmem_capacity, ss_scope_name_capacity = shmem_capacity,
      ss_recent_decision_head = 0, ss_recent_decision_count = 0, ss_profiles_len = 0,
      ss_budget_buckets_len = 0, ss_profile_restore_state = 0,
      ss_profile_restore_padding = replicate 7 0, ss_profile_restore_started_epoch_ms = 0,
      ss_last_profile_persist_epoch_ms = 0, ss_profile_dirty_count = 0,
      ss_counters = pwb_counters_default\<rparr>"

lemma test_state_simps [simp]:
  "ss_magic (test_state n) = MAGIC" "ss_layout_version (test_state n) = LAYOUT_VERSION"
  "ss_recent_decision_capacity (test_state n) = n" "ss_profile_cache_capacity (test_state n) = n"
  "ss_budget_bucket_capacity (test_state n) = n" "ss_scope_name_capacity (test_state n) = n"
  "ss_recent_decision_head (test_state n) = 0" "ss_recent_decision_count (test_state n) = 0"
  "ss_profiles_len (test_state n) = 0" "ss_budget_buckets_len (test_state n) = 0"
  "ss_profile_restore_state (test_state n) = 0" "ss_profile_dirty_count (test_state n) = 0"
  "ss_counters (test_state n) = pwb_counters_default"
  by (simp_all add: test_state_def)

section \<open>Optional fields and enums\<close>

definition flag_of :: "'a option \<Rightarrow> u8" where
  "flag_of x = (if x = None then 0 else 1)"

definition unwrap_or_zero :: "'a::zero option \<Rightarrow> 'a" where
  "unwrap_or_zero x = (case x of None \<Rightarrow> 0 | Some v \<Rightarrow> v)"

definition decode_optional :: "u8 \<Rightarrow> 'a \<Rightarrow> 'a option pwb_result" where
  "decode_optional flag value =
     (if flag = 0 then Inr None
      else if flag = 1 then Inr (Some value)
      else Inl (Internal (''invalid optional field flag in shared memory: '' @ show_nat (unat flag))))"

definition invalid_enum :: "string \<Rightarrow> u8 \<Rightarrow> 'a pwb_result" where
  "invalid_enum field value =
     Inl (Internal (''invalid '' @ field @ '' enum value in shared memory: '' @ show_nat (unat value)))"

fun encode_decision_kind :: "decision_kind \<Rightarrow> u8" where
  "encode_decision_kind DkAllowed = 1"
| "encode_decision_kind DkWouldReject = 2"
| "encode_decision_kind DkRejected = 3"
| "encode_decision_kind DkNoMatchingPolicy = 4"
| "encode_decision_kind DkMissingScope = 5"
| "encode_decision_kind DkInternalErrorFailOpen = 6"

definition decode_decision_kind :: "u8 \<Rightarrow> decision_kind pwb_result" where
  "decode_decision_kind v =
     (if v = 1 then Inr DkAllowed
      else if v = 2 then Inr DkWouldReject
      else if v = 3 then Inr DkRejected
      else if v = 4 then Inr DkNoMatchingPolicy
      else if v = 5 then Inr DkMissingScope
      else if v = 6 then Inr DkInternalErrorFailOpen
      else invalid_enum ''decision_kind'' v)"

fun encode_reason_code :: "reason_code \<Rightarrow> u8" where
  "encode_reason_code RcPolicyDisabled = 1"
| "encode_reason_code RcPolicyMatched = 2"
| "encode_reason_code RcBudgetAvailable = 3"
| "encode_reason_code RcBudgetExceeded = 4"
| "encode_reason_code RcObserveMode = 5"
| "encode_reason_code RcShadowMode = 6"
| "encode_reason_code RcNoMatchingPolicy = 7"
| "encode_reason_code RcMissingScope = 8"
| "encode_reason_code RcPredictionUnavailable = 9"
| "encode_reason_code RcInternalErrorFailOpen = 10"

definition decode_reason_code :: "u8 \<Rightarrow> reason_code pwb_result" where
  "decode_reason_code v =
     (if v = 1 then Inr RcPolicyDisabled
      else if v = 2 then Inr RcPolicyMatched
      else if v = 3 then Inr RcBudgetAvailable
      else if v = 4 then Inr RcBudgetExceeded
      else if v = 5 then Inr RcObserveMode
      else if v = 6 then Inr RcShadowMode
      else if v = 7 then Inr RcNoMatchingPolicy
      else if v = 8 then Inr RcMissingScope
      else if v = 9 then Inr RcPredictionUnavailable
      else if v = 10 then Inr RcInternalErrorFailOpen
      else invalid_enum ''reason_code'' v)"

fun encode_scope_kind :: "scope_kind \<Rightarrow> u8" where
  "encode_scope_kind Database = 1"
| "encode_scope_kind Role = 2"
| "encode_scope_kind Application = 3"
| "encode_scope_kind Tenant = 4"
| "encode_scope_kind Composite = 5"

definition decode_scope_kind :: "u8 \<Rightarrow> scope_kind pwb_result" where
  "decode_scope_kind v =
     (if v = 1 then Inr Database
      else if v = 2 then Inr Role
      else if v = 3 then Inr Application
      else if v = 4 then Inr Tenant
      else if v = 5 then Inr Composite
      else invalid_enum ''scope_kind'' v)"

fun encode_statement_class :: "statement_class \<Rightarrow> u8" where
  "encode_statement_class ReadOnly = 1"
| "encode_statement_class Write = 2"
| "encode_statement_class Utility = 3"
| "encode_statement_class Copy = 4"
| "encode_statement_class Unknown = 5"

definition decode_statement_class :: "u8 \<Rightarrow> statement_class pwb_result" where
  "decode_statement_class v =
     (if v = 1 then Inr ReadOnly
      else if v = 2 then Inr Write
      else if v = 3 then Inr Utility
      else if v = 4 then Inr Copy
      else if v = 5 then Inr Unknown
      else invalid_enum ''statement_class'' v)"

interpretation kind_codec: exact_codec encode_decision_kind decode_decision_kind
proof unfold_locales
  show "decode_decision_kind (encode_decision_kind x) = Inr x" for x
    by (cases x) (simp_all add: decode_decision_kind_def)
  show "decode_decision_kind c = Inr x \<Longrightarrow> encode_decision_kind x = c" for c x
    by (auto simp: decode_decision_kind_def invalid_enum_def split: if_splits)
qed

interpretation reason_codec: exact_codec encode_reason_code decode_reason_code
proof unfold_locales
  show "decode_reason_code (encode_reason_code x) = Inr x" for x
    by (cases x) (simp_all add: decode_reason_code_def)
  show "decode_reason_code c = Inr x \<Longrightarrow> encode_reason_code x = c" for c x
    by (auto simp: decode_reason_code_def invalid_enum_def split: if_splits)
qed

interpretation scope_codec: exact_codec encode_scope_kind decode_scope_kind
proof unfold_locales
  show "decode_scope_kind (encode_scope_kind x) = Inr x" for x
    by (cases x) (simp_all add: decode_scope_kind_def)
  show "decode_scope_kind c = Inr x \<Longrightarrow> encode_scope_kind x = c" for c x
    by (auto simp: decode_scope_kind_def invalid_enum_def split: if_splits)
qed

interpretation class_codec: exact_codec encode_statement_class decode_statement_class
proof unfold_locales
  show "decode_statement_class (encode_statement_class x) = Inr x" for x
    by (cases x) (simp_all add: decode_statement_class_def)
  show "decode_statement_class c = Inr x \<Longrightarrow> encode_statement_class x = c" for c x
    by (auto simp: decode_statement_class_def invalid_enum_def split: if_splits)
qed

lemma decode_optional_flag [codec_simps]:
  "decode_optional (flag_of x) (unwrap_or_zero x) = Inr x"
  by (cases x) (simp_all add: decode_optional_def flag_of_def unwrap_or_zero_def)

lemma decode_optional_Inr:
  "decode_optional f v = Inr x \<longleftrightarrow> f = 0 \<and> x = None \<or> f = 1 \<and> x = Some v"
  by (auto simp: decode_optional_def)

section \<open>Recent decisions\<close>

record pwb_recent_decision =
  rd_timestamp_epoch_ms :: epoch_millis
  rd_decision_kind :: u8
  rd_reason_code :: u8
  rd_scope_kind :: u8
  rd_statement_class :: u8
  rd_has_policy_id :: u8
  rd_has_query_id :: u8
  rd_has_actual_wal_bytes :: u8
  rd_padding :: u8
  rd_policy_id :: policy_id
  rd_query_id :: query_id
  rd_scope_hash :: scope_hash
  rd_predicted_wal_bytes :: wal_bytes
  rd_actual_wal_bytes :: wal_bytes
  rd_available_before :: wal_bytes
  rd_available_after :: wal_bytes

definition pwb_recent_decision_default :: pwb_recent_decision where
  "pwb_recent_decision_default =
     \<lparr>rd_timestamp_epoch_ms = 0, rd_decision_kind = 0, rd_reason_code = 0, rd_scope_kind = 0,
      rd_statement_class = 0, rd_has_policy_id = 0, rd_has_query_id = 0,
      rd_has_actual_wal_bytes = 0, rd_padding = 0, rd_policy_id = 0, rd_query_id = 0,
      rd_scope_hash = 0, rd_predicted_wal_bytes = 0, rd_actual_wal_bytes = 0,
      rd_available_before = 0, rd_available_after = 0\<rparr>"

record recent_decision_record =
  rr_timestamp_epoch_ms :: epoch_millis
  rr_decision_kind :: decision_kind
  rr_policy_id :: "policy_id option"
  rr_scope_kind :: scope_kind
  rr_scope_hash :: scope_hash
  rr_query_id :: "query_id option"
  rr_statement_class :: statement_class
  rr_predicted_wal_bytes :: wal_bytes
  rr_actual_wal_bytes :: "wal_bytes option"
  rr_available_before :: wal_bytes
  rr_available_after :: wal_bytes
  rr_reason_code :: reason_code

definition sample_decision :: recent_decision_record where
  "sample_decision =
     \<lparr>rr_timestamp_epoch_ms = 123, rr_decision_kind = DkAllowed, rr_policy_id = Some 7,
      rr_scope_kind = Tenant, rr_scope_hash = 99, rr_query_id = Some 42,
      rr_statement_class = Write, rr_predicted_wal_bytes = 100, rr_actual_wal_bytes = None,
      rr_available_before = 500, rr_available_after = 400, rr_reason_code = RcBudgetAvailable\<rparr>"

definition recent_decision_encode :: "recent_decision_record \<Rightarrow> pwb_recent_decision" where
  "recent_decision_encode r =
     \<lparr>rd_timestamp_epoch_ms = rr_timestamp_epoch_ms r,
      rd_decision_kind = encode_decision_kind (rr_decision_kind r),
      rd_reason_code = encode_reason_code (rr_reason_code r),
      rd_scope_kind = encode_scope_kind (rr_scope_kind r),
      rd_statement_class = encode_statement_class (rr_statement_class r),
      rd_has_policy_id = flag_of (rr_policy_id r),
      rd_has_query_id = flag_of (rr_query_id r),
      rd_has_actual_wal_bytes = flag_of (rr_actual_wal_bytes r),
      rd_padding = 0,
      rd_policy_id = unwrap_or_zero (rr_policy_id r),
      rd_query_id = unwrap_or_zero (rr_query_id r),
      rd_scope_hash = rr_scope_hash r,
      rd_predicted_wal_bytes = rr_predicted_wal_bytes r,
      rd_actual_wal_bytes = unwrap_or_zero (rr_actual_wal_bytes r),
      rd_available_before = rr_available_before r,
      rd_available_after = rr_available_after r\<rparr>"

definition recent_decision_decode :: "pwb_recent_decision \<Rightarrow> recent_decision_record pwb_result" where
  "recent_decision_decode s =
     rbind (decode_decision_kind (rd_decision_kind s)) (\<lambda>decision_kind.
     rbind (decode_optional (rd_has_policy_id s) (rd_policy_id s)) (\<lambda>policy_id.
     rbind (decode_scope_kind (rd_scope_kind s)) (\<lambda>scope_kind.
     rbind (decode_optional (rd_has_query_id s) (rd_query_id s)) (\<lambda>query_id.
     rbind (decode_statement_class (rd_statement_class s)) (\<lambda>statement_class.
     rbind (decode_optional (rd_has_actual_wal_bytes s) (rd_actual_wal_bytes s)) (\<lambda>actual.
     rbind (decode_reason_code (rd_reason_code s)) (\<lambda>reason_code.
       Inr \<lparr>rr_timestamp_epoch_ms = rd_timestamp_epoch_ms s,
            rr_decision_kind = decision_kind,
            rr_policy_id = policy_id,
            rr_scope_kind = scope_kind,
            rr_scope_hash = rd_scope_hash s,
            rr_query_id = query_id,
            rr_statement_class = statement_class,
            rr_predicted_wal_bytes = rd_predicted_wal_bytes s,
            rr_actual_wal_bytes = actual,
            rr_available_before = rd_available_before s,
            rr_available_after = rd_available_after s,
            rr_reason_code = reason_code\<rparr>)))))))"

interpretation decision_codec: codec recent_decision_encode recent_decision_decode
  by unfold_locales
     (simp add: recent_decision_encode_def recent_decision_decode_def codec_simps
        kind_codec.dec_enc reason_codec.dec_enc scope_codec.dec_enc class_codec.dec_enc)

section \<open>Query profiles\<close>

record pwb_query_wal_profile =
  pq_calls :: u64
  pq_ewma_wal_bytes :: wal_bytes
  pq_max_wal_bytes :: wal_bytes
  pq_last_seen_epoch_ms :: epoch_millis

definition raw_profile :: "query_wal_profile \<Rightarrow> pwb_query_wal_profile" where
  "raw_profile p =
     \<lparr>pq_calls = qp_calls p, pq_ewma_wal_bytes = qp_ewma_wal_bytes p,
      pq_max_wal_bytes = qp_max_wal_bytes p, pq_last_seen_epoch_ms = qp_last_seen_epoch_ms p\<rparr>"

definition rust_profile :: "pwb_query_wal_profile \<Rightarrow> query_wal_profile" where
  "rust_profile p =
     \<lparr>qp_calls = pq_calls p, qp_ewma_wal_bytes = pq_ewma_wal_bytes p,
      qp_max_wal_bytes = pq_max_wal_bytes p, qp_last_seen_epoch_ms = pq_last_seen_epoch_ms p\<rparr>"

lemma rust_raw_profile [simp]: "rust_profile (raw_profile p) = p"
  by (simp add: rust_profile_def raw_profile_def)

lemma raw_rust_profile [simp]: "raw_profile (rust_profile p) = p"
  by (simp add: rust_profile_def raw_profile_def)

record pwb_profile_entry =
  pe_occupied :: u8
  pe_has_scope_hash :: u8
  pe_padding :: "u8 list"
  pe_scope_hash :: scope_hash
  pe_query_id :: query_id
  pe_profile :: pwb_query_wal_profile

definition pwb_profile_entry_default :: pwb_profile_entry where
  "pwb_profile_entry_default =
     \<lparr>pe_occupied = 0, pe_has_scope_hash = 0, pe_padding = replicate 6 0, pe_scope_hash = 0,
      pe_query_id = 0,
      pe_profile = \<lparr>pq_calls = 0, pq_ewma_wal_bytes = 0, pq_max_wal_bytes = 0,
                    pq_last_seen_epoch_ms = 0\<rparr>\<rparr>"

record query_profile_snapshot =
  qs_scope_hash :: "scope_hash option"
  qs_query_id :: query_id
  qs_profile :: query_wal_profile

record decoded_profile_entry =
  dp_scope_hash :: "scope_hash option"
  dp_query_id :: query_id
  dp_profile :: pwb_query_wal_profile

definition profile_entry_encode ::
  "scope_hash option \<Rightarrow> query_id \<Rightarrow> pwb_query_wal_profile \<Rightarrow> pwb_profile_entry" where
  "profile_entry_encode scope_hash query_id profile =
     \<lparr>pe_occupied = 1,
      pe_has_scope_hash = (if scope_hash \<noteq> None then 1 else 0),
      pe_padding = replicate 6 0,
      pe_scope_hash = (case scope_hash of Some h \<Rightarrow> h | None \<Rightarrow> 0),
      pe_query_id = query_id,
      pe_profile = profile\<rparr>"

definition profile_entry_decode :: "pwb_profile_entry \<Rightarrow> decoded_profile_entry pwb_result" where
  "profile_entry_decode e =
     (if pe_occupied e \<noteq> 1
      then Inl (Internal (''invalid profile occupied flag: '' @ show_nat (unat (pe_occupied e))))
      else rbind (decode_optional (pe_has_scope_hash e) (pe_scope_hash e)) (\<lambda>scope_hash.
             Inr \<lparr>dp_scope_hash = scope_hash, dp_query_id = pe_query_id e,
                  dp_profile = pe_profile e\<rparr>))"

definition profile_entry_of :: "decoded_profile_entry \<Rightarrow> pwb_profile_entry" where
  "profile_entry_of d = profile_entry_encode (dp_scope_hash d) (dp_query_id d) (dp_profile d)"

interpretation profile_codec: codec profile_entry_of profile_entry_decode
proof unfold_locales
  show "profile_entry_decode (profile_entry_of d) = Inr d" for d
    by (cases "dp_scope_hash d")
       (simp_all add: profile_entry_of_def profile_entry_encode_def profile_entry_decode_def
          decode_optional_def)
qed

section \<open>Budget buckets\<close>

record pwb_budget_bucket =
  pb_occupied :: u8
  pb_padding :: "u8 list"
  pb_policy_id :: policy_id
  pb_scope_hash :: scope_hash
  pb_available_bytes :: wal_bytes
  pb_max_burst_bytes :: wal_bytes
  pb_rate_bytes_per_sec :: wal_bytes
  pb_last_refill_epoch_ms :: epoch_millis
  pb_debt_bytes :: wal_bytes

record budget_bucket_state =
  bb_policy_id :: policy_id
  bb_scope_hash :: scope_hash
  bb_available_bytes :: wal_bytes
  bb_max_burst_bytes :: wal_bytes
  bb_rate_bytes_per_sec :: wal_bytes
  bb_last_refill_epoch_ms :: epoch_millis
  bb_debt_bytes :: wal_bytes

record budget_bucket_snapshot =
  bs_policy_id :: policy_id
  bs_scope_hash :: scope_hash
  bs_available_bytes :: wal_bytes
  bs_max_burst_bytes :: wal_bytes
  bs_rate_bytes_per_sec :: wal_bytes
  bs_last_refill_epoch_ms :: epoch_millis
  bs_debt_bytes :: wal_bytes

definition pwb_budget_bucket_default :: pwb_budget_bucket where
  "pwb_budget_bucket_default =
     \<lparr>pb_occupied = 0, pb_padding = replicate 3 0, pb_policy_id = 0, pb_scope_hash = 0,
      pb_available_bytes = 0, pb_max_burst_bytes = 0, pb_rate_bytes_per_sec = 0,
      pb_last_refill_epoch_ms = 0, pb_debt_bytes = 0\<rparr>"

definition budget_bucket_encode :: "budget_bucket_state \<Rightarrow> pwb_budget_bucket" where
  "budget_bucket_encode b =
     \<lparr>pb_occupied = 1, pb_padding = replicate 3 0, pb_policy_id = bb_policy_id b,
      pb_scope_hash = bb_scope_hash b, pb_available_bytes = bb_available_bytes b,
      pb_max_burst_bytes = bb_max_burst_bytes b, pb_rate_bytes_per_sec = bb_rate_bytes_per_sec b,
      pb_last_refill_epoch_ms = bb_last_refill_epoch_ms b, pb_debt_bytes = bb_debt_bytes b\<rparr>"

definition budget_bucket_state_of :: "pwb_budget_bucket \<Rightarrow> budget_bucket_state" where
  "budget_bucket_state_of b =
     \<lparr>bb_policy_id = pb_policy_id b, bb_scope_hash = pb_scope_hash b,
      bb_available_bytes = pb_available_bytes b, bb_max_burst_bytes = pb_max_burst_bytes b,
      bb_rate_bytes_per_sec = pb_rate_bytes_per_sec b,
      bb_last_refill_epoch_ms = pb_last_refill_epoch_ms b, bb_debt_bytes = pb_debt_bytes b\<rparr>"

definition budget_bucket_decode :: "pwb_budget_bucket \<Rightarrow> budget_bucket_state pwb_result" where
  "budget_bucket_decode b =
     (if pb_occupied b \<noteq> 1
      then Inl (Internal (''invalid budget bucket occupied flag: '' @ show_nat (unat (pb_occupied b))))
      else Inr (budget_bucket_state_of b))"

lemma bucket_state_of_encode [simp]: "budget_bucket_state_of (budget_bucket_encode b) = b"
  by (simp add: budget_bucket_state_of_def budget_bucket_encode_def)

lemma bucket_encode_occupied [simp]: "pb_occupied (budget_bucket_encode b) = 1"
  by (simp add: budget_bucket_encode_def)

interpretation bucket_codec: codec budget_bucket_encode budget_bucket_decode
  by unfold_locales (simp add: budget_bucket_decode_def)

section \<open>Scope names\<close>

definition SCOPE_NAME_VALUE_BYTES :: nat where
  "SCOPE_NAME_VALUE_BYTES = 256"

record pwb_scope_name =
  sn_occupied :: u8
  sn_scope_kind :: u8
  sn_value_len :: u16
  sn_padding :: "u8 list"
  sn_scope_hash :: scope_hash
  sn_first_seen_epoch_ms :: epoch_millis
  sn_last_seen_epoch_ms :: epoch_millis
  sn_seen_count :: u64
  sn_value_bytes :: string

record scope_name_snapshot =
  sv_scope_kind :: scope_kind
  sv_scope_hash :: scope_hash
  sv_scope_value :: string
  sv_first_seen_epoch_ms :: epoch_millis
  sv_last_seen_epoch_ms :: epoch_millis
  sv_seen_count :: u64

definition pwb_scope_name_default :: pwb_scope_name where
  "pwb_scope_name_default =
     \<lparr>sn_occupied = 0, sn_scope_kind = 0, sn_value_len = 0, sn_padding = replicate 4 0,
      sn_scope_hash = 0, sn_first_seen_epoch_ms = 0, sn_last_seen_epoch_ms = 0, sn_seen_count = 0,
      sn_value_bytes = replicate SCOPE_NAME_VALUE_BYTES (char_of (0::nat))\<rparr>"

text \<open>The loop of \<open>truncate_utf8\<close>: step back to the next character boundary.\<close>

fun boundary_down :: "string \<Rightarrow> nat \<Rightarrow> nat" where
  "boundary_down value 0 = 0"
| "boundary_down value (Suc end') =
     (if is_char_boundary value (Suc end') then Suc end' else boundary_down value end')"

definition truncate_utf8 :: "string \<Rightarrow> nat \<Rightarrow> string" where
  "truncate_utf8 value max_bytes =
     (if length value \<le> max_bytes then value else take (boundary_down value max_bytes) value)"

definition scope_name_value_len :: "nat \<Rightarrow> u16" where
  "scope_name_value_len value_len = (if value_len < 2 ^ 16 then of_nat value_len else - 1)"

definition scope_name_encode_value ::
  "scope_kind \<Rightarrow> scope_hash \<Rightarrow> string \<Rightarrow> epoch_millis \<Rightarrow> epoch_millis \<Rightarrow> u64 \<Rightarrow> pwb_scope_name" where
  "scope_name_encode_value scope_kind scope_hash scope_value first_seen last_seen seen_count =
     (let truncated = truncate_utf8 scope_value SCOPE_NAME_VALUE_BYTES;
          value_bytes = truncated @ replicate (SCOPE_NAME_VALUE_BYTES - length truncated) (char_of (0::nat))
      in \<lparr>sn_occupied = 1, sn_scope_kind = encode_scope_kind scope_kind,
          sn_value_len = scope_name_value_len (length truncated), sn_padding = replicate 4 0,
          sn_scope_hash = scope_hash, sn_first_seen_epoch_ms = first_seen,
          sn_last_seen_epoch_ms = last_seen, sn_seen_count = seen_count,
          sn_value_bytes = value_bytes\<rparr>)"

definition scope_name_decode :: "pwb_scope_name \<Rightarrow> scope_name_snapshot pwb_result" where
  "scope_name_decode n =
     (if sn_occupied n \<noteq> 1
      then Inl (Internal (''invalid scope name occupied flag: '' @ show_nat (unat (sn_occupied n))))
      else let value_len = unat (sn_value_len n) in
      if value_len > SCOPE_NAME_VALUE_BYTES
      then Inl (Internal (''invalid scope name value length: '' @ show_nat value_len))
      else let bytes = take value_len (sn_value_bytes n) in
      if \<not> utf8_valid bytes
      then Inl (Internal (''invalid scope name UTF-8 in shared memory: '' @ utf8_error_display bytes))
      else rbind (decode_scope_kind (sn_scope_kind n)) (\<lambda>scope_kind.
             Inr \<lparr>sv_scope_kind = scope_kind, sv_scope_hash = sn_scope_hash n,
                  sv_scope_value = bytes, sv_first_seen_epoch_ms = sn_first_seen_epoch_ms n,
                  sv_last_seen_epoch_ms = sn_last_seen_epoch_ms n,
                  sv_seen_count = sn_seen_count n\<rparr>))"

definition scope_name_matches_key :: "pwb_scope_name \<Rightarrow> scope_kind \<Rightarrow> scope_hash \<Rightarrow> bool" where
  "scope_name_matches_key n scope_kind scope_hash \<longleftrightarrow>
     sn_occupied n = 1 \<and> sn_scope_kind n = encode_scope_kind scope_kind \<and> sn_scope_hash n = scope_hash"

lemma boundary_down_le: "boundary_down s n \<le> n"
  by (induction n) auto

lemma boundary_down_boundary: "is_char_boundary s (boundary_down s n)"
  by (induction n) (auto simp: is_char_boundary_def)

lemma boundary_down_greatest: "is_char_boundary s j \<Longrightarrow> j \<le> n \<Longrightarrow> j \<le> boundary_down s n"
  by (induction n) (auto simp: le_Suc_eq)

text \<open>Truncation keeps a well-formed prefix and loses at most one partial character.\<close>

lemma truncate_utf8_props:
  assumes "utf8_valid s"
  shows "utf8_valid (truncate_utf8 s n)"
    and "length (truncate_utf8 s n) \<le> n"
    and "\<exists>r. s = truncate_utf8 s n @ r"
    and "n < length s \<Longrightarrow> n \<le> length (truncate_utf8 s n) + 3"
proof -
  let ?j = "boundary_down s n"
  have j: "?j \<le> n" by (rule boundary_down_le)
  show "utf8_valid (truncate_utf8 s n)"
    using assms j boundary_down_boundary [of s n]
    by (auto simp: truncate_utf8_def intro!: utf8_valid_take)
  show "length (truncate_utf8 s n) \<le> n"
    using j by (auto simp: truncate_utf8_def)
  show "\<exists>r. s = truncate_utf8 s n @ r"
    by (auto simp: truncate_utf8_def intro: exI [of _ "drop ?j s"])
  assume lt: "n < length s"
  obtain i where i: "i \<le> n" "n - i \<le> 3" "is_char_boundary s i"
    using utf8_boundary_near [OF assms less_imp_le [OF lt]] by blast
  then have "i \<le> ?j" by (intro boundary_down_greatest)
  with i j lt show "n \<le> length (truncate_utf8 s n) + 3" by (simp add: truncate_utf8_def)
qed

section \<open>Properties\<close>

text \<open>
  C28: whatever is written into a shared array is read back: the encodings of recent
  decisions, budget buckets and query profile entries are undone by their decoders.
\<close>

theorem shared_record_round_trip:
  "recent_decision_decode (recent_decision_encode r) = Inr r
   \<and> budget_bucket_decode (budget_bucket_encode b) = Inr b
   \<and> profile_entry_decode (profile_entry_encode h q p)
       = Inr \<lparr>dp_scope_hash = h, dp_query_id = q, dp_profile = p\<rparr>"
  using profile_codec.dec_enc [of "\<lparr>dp_scope_hash = h, dp_query_id = q, dp_profile = p\<rparr>"]
  by (simp add: decision_codec.dec_enc bucket_codec.dec_enc profile_entry_of_def)

text \<open>
  The slot a decision is written to differs from a slot that decodes to it in the padding
  and in the values of absent fields only.
\<close>

definition normal_slot :: "pwb_recent_decision \<Rightarrow> pwb_recent_decision" where
  "normal_slot s = s\<lparr>rd_padding := 0,
       rd_policy_id := (if rd_has_policy_id s = 0 then 0 else rd_policy_id s),
       rd_query_id := (if rd_has_query_id s = 0 then 0 else rd_query_id s),
       rd_actual_wal_bytes := (if rd_has_actual_wal_bytes s = 0 then 0 else rd_actual_wal_bytes s)\<rparr>"

lemma decode_optional_if: "decode_optional f (if f = 0 then 0 else v) = decode_optional f v"
  by (simp add: decode_optional_def)

lemma decode_normal_slot: "recent_decision_decode (normal_slot s) = recent_decision_decode s"
  unfolding recent_decision_decode_def normal_slot_def
  by (simp add: decode_optional_if split del: if_split cong del: if_weak_cong)

lemma decode_optional_normal:
  "decode_optional f v = Inr x \<Longrightarrow> flag_of x = f \<and> unwrap_or_zero x = (if f = 0 then 0 else v)"
  by (auto simp: decode_optional_Inr flag_of_def unwrap_or_zero_def)

lemma decision_decode_encode:
  assumes "recent_decision_decode s = Inr r"
  shows "recent_decision_encode r = normal_slot s"
proof -
  from assms obtain k p sk q c a rc where
    d: "decode_decision_kind (rd_decision_kind s) = Inr k"
    "decode_optional (rd_has_policy_id s) (rd_policy_id s) = Inr p"
    "decode_scope_kind (rd_scope_kind s) = Inr sk"
    "decode_optional (rd_has_query_id s) (rd_query_id s) = Inr q"
    "decode_statement_class (rd_statement_class s) = Inr c"
    "decode_optional (rd_has_actual_wal_bytes s) (rd_actual_wal_bytes s) = Inr a"
    "decode_reason_code (rd_reason_code s) = Inr rc"
    and r: "r = \<lparr>rr_timestamp_epoch_ms = rd_timestamp_epoch_ms s, rr_decision_kind = k,
      rr_policy_id = p, rr_scope_kind = sk, rr_scope_hash = rd_scope_hash s, rr_query_id = q,
      rr_statement_class = c, rr_predicted_wal_bytes = rd_predicted_wal_bytes s,
      rr_actual_wal_bytes = a, rr_available_before = rd_available_before s,
      rr_available_after = rd_available_after s, rr_reason_code = rc\<rparr>"
    by (auto simp: recent_decision_decode_def rbind_Inr_iff)
  note opt = d(2,4,6) [THEN decode_optional_normal]
  show ?thesis
    using opt d(1,3,5,7)
    by (simp add: r recent_decision_encode_def normal_slot_def kind_codec.enc_dec
        scope_codec.enc_dec class_codec.enc_dec reason_codec.enc_dec)
qed

text \<open>
  A damaged recent-decision slot is never read as a decision: a slot decodes to a
  decision exactly when it is, up to padding and absent fields, the encoding of that
  decision; so any other enum byte or presence flag is an error.
\<close>

lemma recent_decision_decode_exact:
  "recent_decision_decode s = Inr r \<longleftrightarrow> recent_decision_encode r = normal_slot s"
proof
  assume "recent_decision_decode s = Inr r"
  then show "recent_decision_encode r = normal_slot s" by (rule decision_decode_encode)
next
  assume "recent_decision_encode r = normal_slot s"
  then have "recent_decision_decode (normal_slot s) = Inr r"
    by (metis decision_codec.dec_enc)
  then show "recent_decision_decode s = Inr r" by (simp add: decode_normal_slot)
qed

lemma unat_scope_name_value_len:
  "n \<le> SCOPE_NAME_VALUE_BYTES \<Longrightarrow> unat (scope_name_value_len n) = n"
  by (simp add: scope_name_value_len_def SCOPE_NAME_VALUE_BYTES_def unsigned_of_nat take_bit_nat_eq_self)

text \<open>
  A scope name that is stored and read back is the given name cut at a character
  boundary: the result is a prefix of at most 256 bytes, valid UTF-8, at most three bytes
  short of the limit when the name is longer, and the name itself when it fits; the other
  fields are those given.
\<close>

lemma scope_name_round_trip:
  assumes "utf8_valid v"
  shows "\<exists>w r. scope_name_decode (scope_name_encode_value k h v f l c) =
      Inr \<lparr>sv_scope_kind = k, sv_scope_hash = h, sv_scope_value = w,
           sv_first_seen_epoch_ms = f, sv_last_seen_epoch_ms = l, sv_seen_count = c\<rparr>
    \<and> v = w @ r \<and> utf8_valid w \<and> length w \<le> 256
    \<and> (length v \<le> 256 \<longrightarrow> w = v) \<and> (256 < length v \<longrightarrow> 253 \<le> length w)"
proof -
  let ?w = "truncate_utf8 v SCOPE_NAME_VALUE_BYTES"
  note props = truncate_utf8_props [OF assms, of SCOPE_NAME_VALUE_BYTES]
  obtain r where "v = ?w @ r" using props(3) by blast
  moreover have "scope_name_decode (scope_name_encode_value k h v f l c) =
      Inr \<lparr>sv_scope_kind = k, sv_scope_hash = h, sv_scope_value = ?w,
           sv_first_seen_epoch_ms = f, sv_last_seen_epoch_ms = l, sv_seen_count = c\<rparr>"
    using props(1,2)
    by (simp add: scope_name_decode_def scope_name_encode_value_def Let_def
        unat_scope_name_value_len scope_codec.dec_enc)
  moreover have "length v \<le> 256 \<longrightarrow> ?w = v"
    by (simp add: truncate_utf8_def SCOPE_NAME_VALUE_BYTES_def)
  moreover have "256 < length v \<longrightarrow> 253 \<le> length ?w" and "length ?w \<le> 256"
    using props(2,4) by (auto simp: SCOPE_NAME_VALUE_BYTES_def)
  ultimately show ?thesis using props(1) by blast
qed

lemma scope_name_round_trip_witness:
  "\<exists>w r. scope_name_decode (scope_name_encode_value Tenant 99 ''tenant-a'' 123 456 7) =
      Inr \<lparr>sv_scope_kind = Tenant, sv_scope_hash = 99, sv_scope_value = w,
           sv_first_seen_epoch_ms = 123, sv_last_seen_epoch_ms = 456, sv_seen_count = 7\<rparr>
    \<and> ''tenant-a'' = w @ r \<and> utf8_valid w \<and> length w \<le> 256
    \<and> (length ''tenant-a'' \<le> 256 \<longrightarrow> w = ''tenant-a'')
    \<and> (256 < length ''tenant-a'' \<longrightarrow> 253 \<le> length w)"
proof -
  have "utf8_valid ''tenant-a''"
    by (simp add: utf8_valid.simps utf8_char_len_def utf8_width_def)
  then show ?thesis by (rule scope_name_round_trip)
qed

end
