(* ===== verification/Pwb_Layout.thy ===== *)
theory Pwb_Layout
  imports Pwb_Records
begin

unbundle bit_operations_syntax

text \<open>
  The layout of the shared-memory segment, \<^verbatim>\<open>src/shmem/layout.rs\<close>: the header is followed by
  the four arrays. The sizes and alignments of the \<open>#[repr(C)]\<close> structs are computed from
  the types of their fields in declaration order. The lemmas show that the computation
  fails exactly when the segment would not fit the address space, and that the regions are
  aligned, disjoint and inside the segment.
\<close>

section \<open>Sizes of the structs\<close>

text \<open>A type is read as its size and its alignment; \<^verbatim>\<open>c_struct\<close> lays the fields out in order.\<close>

type_synonym c_type = "nat \<times> nat"

definition c_align :: "nat \<Rightarrow> nat \<Rightarrow> nat" where
  "c_align offset a = (offset + a - 1) div a * a"

definition c_struct :: "c_type list \<Rightarrow> c_type" where
  "c_struct fs =
     (let a = foldr (\<lambda>f. max (snd f)) fs 1;
          size = foldl (\<lambda>offset f. c_align offset (snd f) + fst f) 0 fs
      in (c_align size a, a))"

definition c_array :: "nat \<Rightarrow> c_type \<Rightarrow> c_type" where
  "c_array n t = (n * fst t, snd t)"

definition c_u8 :: c_type where "c_u8 = (1, 1)"
definition c_u16 :: c_type where "c_u16 = (2, 2)"
definition c_u32 :: c_type where "c_u32 = (4, 4)"
definition c_u64 :: c_type where "c_u64 = (8, 8)"

definition counters_type :: c_type where
  "counters_type = c_struct (replicate 11 c_u64)"

definition shared_state_type :: c_type where
  "shared_state_type = c_struct
     [c_u32, c_u32, c_u32, c_u32, c_u32, c_u32, c_u64, c_u32, c_u32, c_u32, c_u8, c_array 7 c_u8,
      c_u64, c_u64, c_u64, counters_type]"

definition recent_decision_type :: c_type where
  "recent_decision_type = c_struct
     [c_u64, c_u8, c_u8, c_u8, c_u8, c_u8, c_u8, c_u8, c_u8, c_u32, c_u64, c_u64, c_u64, c_u64,
      c_u64, c_u64]"

definition query_wal_profile_type :: c_type where
  "query_wal_profile_type = c_struct [c_u64, c_u64, c_u64, c_u64]"

definition profile_entry_type :: c_type where
  "profile_entry_type = c_struct
     [c_u8, c_u8, c_array 6 c_u8, c_u64, c_u64, query_wal_profile_type]"

definition budget_bucket_type :: c_type where
  "budget_bucket_type = c_struct
     [c_u8, c_array 3 c_u8, c_u32, c_u64, c_u64, c_u64, c_u64, c_u64, c_u64]"

definition scope_name_type :: c_type where
  "scope_name_type = c_struct
     [c_u8, c_u8, c_u16, c_array 4 c_u8, c_u64, c_u64, c_u64, c_u64,
      c_array SCOPE_NAME_VALUE_BYTES c_u8]"

lemma c_type_values:
  "shared_state_type = (168, 8)" "recent_decision_type = (72, 8)" "profile_entry_type = (56, 8)"
  "budget_bucket_type = (56, 8)" "scope_name_type = (296, 8)"
  by code_simp+

section \<open>The layout\<close>

record shared_layout =
  sl_total_bytes :: usize
  sl_recent_decisions_offset :: usize
  sl_profiles_offset :: usize
  sl_budget_buckets_offset :: usize
  sl_scope_names_offset :: usize
  sl_recent_decision_capacity :: usize
  sl_profile_cache_capacity :: usize
  sl_budget_bucket_capacity :: usize
  sl_scope_name_capacity :: usize

definition shared_layout_empty :: shared_layout where
  "shared_layout_empty =
     \<lparr>sl_total_bytes = 0, sl_recent_decisions_offset = 0, sl_profiles_offset = 0,
      sl_budget_buckets_offset = 0, sl_scope_names_offset = 0, sl_recent_decision_capacity = 0,
      sl_profile_cache_capacity = 0, sl_budget_bucket_capacity = 0, sl_scope_name_capacity = 0\<rparr>"

record shared_capacities =
  sc_recent_decisions :: usize
  sc_profiles :: usize
  sc_budget_buckets :: usize
  sc_scope_names :: usize

definition size_overflow :: pwb_error where
  "size_overflow = Internal ''shared memory size calculation overflowed''"

definition checked_add :: "usize \<Rightarrow> usize \<Rightarrow> usize pwb_result" where
  "checked_add left right =
     (case word_checked_add left right of Some v \<Rightarrow> Inr v | None \<Rightarrow> Inl size_overflow)"

definition checked_mul :: "usize \<Rightarrow> usize \<Rightarrow> usize pwb_result" where
  "checked_mul left right =
     (case word_checked_mul left right of Some v \<Rightarrow> Inr v | None \<Rightarrow> Inl size_overflow)"

definition align_up :: "usize \<Rightarrow> usize \<Rightarrow> usize pwb_result" where
  "align_up value alignment =
     (let mask = alignment - 1
      in rbind (checked_add value mask) (\<lambda>adjusted. Inr (adjusted AND NOT mask)))"

text \<open>One region: align the offset, then add the size of the array.\<close>

definition compute_layout :: "shared_capacities \<Rightarrow> shared_layout pwb_result" where
  "compute_layout c =
     rbind (align_up (of_nat (fst shared_state_type)) (of_nat (snd recent_decision_type))) (\<lambda>recent_decisions_offset.
     rbind (checked_mul (sc_recent_decisions c) (of_nat (fst recent_decision_type))) (\<lambda>bytes.
     rbind (checked_add recent_decisions_offset bytes) (\<lambda>offset.
     rbind (align_up offset (of_nat (snd profile_entry_type))) (\<lambda>profiles_offset.
     rbind (checked_mul (sc_profiles c) (of_nat (fst profile_entry_type))) (\<lambda>bytes.
     rbind (checked_add profiles_offset bytes) (\<lambda>offset.
     rbind (align_up offset (of_nat (snd budget_bucket_type))) (\<lambda>budget_buckets_offset.
     rbind (checked_mul (sc_budget_buckets c) (of_nat (fst budget_bucket_type))) (\<lambda>bytes.
     rbind (checked_add budget_buckets_offset bytes) (\<lambda>offset.
     rbind (align_up offset (of_nat (snd scope_name_type))) (\<lambda>scope_names_offset.
     rbind (checked_mul (sc_scope_names c) (of_nat (fst scope_name_type))) (\<lambda>bytes.
     rbind (checked_add scope_names_offset bytes) (\<lambda>offset.
       Inr \<lparr>sl_total_bytes = offset, sl_recent_decisions_offset = recent_decisions_offset,
            sl_profiles_offset = profiles_offset, sl_budget_buckets_offset = budget_buckets_offset,
            sl_scope_names_offset = scope_names_offset,
            sl_recent_decision_capacity = sc_recent_decisions c,
            sl_profile_cache_capacity = sc_profiles c,
            sl_budget_bucket_capacity = sc_budget_buckets c,
            sl_scope_name_capacity = sc_scope_names c\<rparr>))))))))))))"

definition capacity_to_u32 :: "usize \<Rightarrow> u32" where
  "capacity_to_u32 capacity = ucast capacity"

section \<open>What the layout is\<close>

lemma checked_add_eq:
  "checked_add a b = (if unat a + unat b < 2 ^ 64 then Inr (a + b) else Inl size_overflow)"
  by (simp add: checked_add_def word_checked_add_def)

lemma checked_mul_eq:
  "checked_mul a b = (if unat a * unat b < 2 ^ 64 then Inr (a * b) else Inl size_overflow)"
  by (simp add: checked_mul_def word_checked_mul_def)

lemma low_bits_zero:
  assumes "8 dvd unat (v :: usize)"
  shows "(v + 7) AND NOT 7 = v"
proof -
  from assms obtain k where k: "unat v = 8 * k" by blast
  have "v = of_nat (unat v)" by simp
  also have "\<dots> = push_bit 3 (of_nat k)" unfolding k by (simp add: push_bit_eq_mult)
  finally have v: "v = push_bit 3 (of_nat k)" .
  have disj: "\<not> bit v n \<or> \<not> bit (7 :: usize) n" for n
  proof (cases "n < 3")
    case True
    then show ?thesis by (simp add: v bit_push_bit_iff)
  next
    case False
    have eq: "(7 :: usize) = mask 3" by (simp add: mask_eq_exp_minus_1)
    show ?thesis unfolding eq using False by (simp add: bit_mask_iff)
  qed
  then have "v + 7 = v OR 7" by (rule disjunctive_add)
  moreover have "(v OR 7) AND NOT 7 = v"
    using disj by (intro bit_eqI) (auto simp: bit_simps)
  ultimately show ?thesis by simp
qed

lemma align_up_multiple:
  "8 dvd unat v \<Longrightarrow> align_up v 8 = (if unat v + 7 < 2 ^ 64 then Inr v else Inl size_overflow)"
  using low_bits_zero [of v] by (simp add: align_up_def checked_add_eq)

text \<open>A multiple of 8 below \<open>2 ^ 64\<close> leaves room for the mask, so alignment never fails on its own.\<close>

lemma multiple_room: "8 dvd n \<Longrightarrow> n < 2 ^ 64 \<Longrightarrow> n + 7 < (2 ^ 64 :: nat)"
  by (auto elim!: dvdE)

definition layout_total :: "shared_capacities \<Rightarrow> nat" where
  "layout_total c = 168 + 72 * unat (sc_recent_decisions c) + 56 * unat (sc_profiles c)
     + 56 * unat (sc_budget_buckets c) + 296 * unat (sc_scope_names c)"

definition region_step :: "usize \<Rightarrow> usize \<Rightarrow> usize \<Rightarrow> (usize \<Rightarrow> usize \<Rightarrow> 'a pwb_result) \<Rightarrow> 'a pwb_result" where
  "region_step offset count sz k =
     rbind (align_up offset 8) (\<lambda>start.
     rbind (checked_mul count sz) (\<lambda>bytes.
     rbind (checked_add start bytes) (\<lambda>offset. k start offset)))"

lemma region_step_eq:
  assumes "8 dvd unat offset" and "8 dvd unat sz"
  shows "region_step offset count sz k =
    (if unat offset + unat count * unat sz < 2 ^ 64
     then k offset (offset + count * sz) else Inl size_overflow)"
proof -
  have "unat offset + 7 < 2 ^ 64" using multiple_room [OF assms(1)] by simp
  moreover have "unat (count * sz) = unat count * unat sz" if "unat count * unat sz < 2 ^ 64"
    using that by (simp add: unat_word_ariths)
  ultimately show ?thesis
    using assms by (simp add: region_step_def align_up_multiple checked_mul_eq checked_add_eq)
qed

lemma unat_region_end:
  assumes "unat offset + unat count * unat sz < 2 ^ 64"
  shows "unat (offset + count * sz :: usize) = unat offset + unat count * unat sz"
  using assms by (simp add: unat_word_ariths)

lemma compute_layout_steps:
  "compute_layout c =
     region_step 168 (sc_recent_decisions c) 72 (\<lambda>o1 e1.
     region_step e1 (sc_profiles c) 56 (\<lambda>o2 e2.
     region_step e2 (sc_budget_buckets c) 56 (\<lambda>o3 e3.
     region_step e3 (sc_scope_names c) 296 (\<lambda>o4 e4.
       Inr \<lparr>sl_total_bytes = e4, sl_recent_decisions_offset = o1, sl_profiles_offset = o2,
            sl_budget_buckets_offset = o3, sl_scope_names_offset = o4,
            sl_recent_decision_capacity = sc_recent_decisions c,
            sl_profile_cache_capacity = sc_profiles c,
            sl_budget_bucket_capacity = sc_budget_buckets c,
            sl_scope_name_capacity = sc_scope_names c\<rparr>))))"
  by (simp add: compute_layout_def region_step_def c_type_values)

lemma compute_layout_eq:
  "compute_layout c =
     (if layout_total c < 2 ^ 64
      then (let o2 = 168 + sc_recent_decisions c * 72;
                o3 = o2 + sc_profiles c * 56;
                o4 = o3 + sc_budget_buckets c * 56
            in Inr \<lparr>sl_total_bytes = o4 + sc_scope_names c * 296, sl_recent_decisions_offset = 168,
                    sl_profiles_offset = o2, sl_budget_buckets_offset = o3,
                    sl_scope_names_offset = o4,
                    sl_recent_decision_capacity = sc_recent_decisions c,
                    sl_profile_cache_capacity = sc_profiles c,
                    sl_budget_bucket_capacity = sc_budget_buckets c,
                    sl_scope_name_capacity = sc_scope_names c\<rparr>)
      else Inl size_overflow)"
proof -
  define e1 where "e1 = 168 + sc_recent_decisions c * 72"
  define e2 where "e2 = e1 + sc_profiles c * 56"
  define e3 where "e3 = e2 + sc_budget_buckets c * 56"
  define n1 where "n1 = 168 + unat (sc_recent_decisions c) * 72"
  define n2 where "n2 = n1 + unat (sc_profiles c) * 56"
  define n3 where "n3 = n2 + unat (sc_budget_buckets c) * 56"
  have total: "layout_total c = n3 + unat (sc_scope_names c) * 296"
    by (simp add: layout_total_def n1_def n2_def n3_def)
  have dvd: "8 dvd n1" "8 dvd n2" "8 dvd n3"
    unfolding n1_def n2_def n3_def by presburger+
  have u1: "unat e1 = n1" if "n1 < 2 ^ 64"
    using that unat_region_end [of 168 "sc_recent_decisions c" 72] by (simp add: e1_def n1_def)
  have u2: "unat e2 = n2" if "n2 < 2 ^ 64"
    using that u1 unat_region_end [of e1 "sc_profiles c" 56] by (simp add: e2_def n2_def)
  have u3: "unat e3 = n3" if "n3 < 2 ^ 64"
    using that u2 unat_region_end [of e2 "sc_budget_buckets c" 56] by (simp add: e3_def n3_def)
  have r1: "region_step 168 (sc_recent_decisions c) 72 k =
      (if n1 < 2 ^ 64 then k 168 e1 else Inl size_overflow)" for k :: "usize \<Rightarrow> usize \<Rightarrow> 'z pwb_result"
    by (simp add: region_step_eq n1_def e1_def)
  have r2: "region_step e1 (sc_profiles c) 56 k =
      (if n2 < 2 ^ 64 then k e1 e2 else Inl size_overflow)"
    if "n1 < 2 ^ 64" for k :: "usize \<Rightarrow> usize \<Rightarrow> 'z pwb_result"
    using dvd u1 [OF that] by (simp add: region_step_eq n2_def e2_def)
  have r3: "region_step e2 (sc_budget_buckets c) 56 k =
      (if n3 < 2 ^ 64 then k e2 e3 else Inl size_overflow)"
    if "n2 < 2 ^ 64" for k :: "usize \<Rightarrow> usize \<Rightarrow> 'z pwb_result"
    using dvd u2 [OF that] by (simp add: region_step_eq n3_def e3_def)
  have r4: "region_step e3 (sc_scope_names c) 296 k =
      (if layout_total c < 2 ^ 64 then k e3 (e3 + sc_scope_names c * 296) else Inl size_overflow)"
    if "n3 < 2 ^ 64" for k :: "usize \<Rightarrow> usize \<Rightarrow> 'z pwb_result"
    using dvd u3 [OF that] by (simp add: region_step_eq total)
  have le: "n1 \<le> n2" "n2 \<le> n3" "n3 \<le> layout_total c"
    by (simp_all add: n2_def n3_def total)
  show ?thesis
    unfolding compute_layout_steps r1
    using le by (simp add: r2 r3 r4 Let_def flip: e1_def e2_def e3_def)
qed

text \<open>
  C25: the shared-memory layout is computed exactly when the segment fits the address space,
  and is an overflow error otherwise. When it is computed, the header and the four arrays
  lie one after the other in the segment, each array begins at a multiple of its alignment,
  has room for its capacity, overlaps nothing, and the last one ends the segment.
\<close>

theorem layout_regions:
  "(case compute_layout c of
      Inl e \<Rightarrow> e = size_overflow \<and> 2 ^ 64 \<le> layout_total c
    | Inr l \<Rightarrow>
        layout_total c < 2 ^ 64
      \<and> unat (sl_recent_decisions_offset l) = fst shared_state_type
      \<and> unat (sl_profiles_offset l)
          = unat (sl_recent_decisions_offset l) + unat (sc_recent_decisions c) * fst recent_decision_type
      \<and> unat (sl_budget_buckets_offset l)
          = unat (sl_profiles_offset l) + unat (sc_profiles c) * fst profile_entry_type
      \<and> unat (sl_scope_names_offset l)
          = unat (sl_budget_buckets_offset l) + unat (sc_budget_buckets c) * fst budget_bucket_type
      \<and> unat (sl_total_bytes l)
          = unat (sl_scope_names_offset l) + unat (sc_scope_names c) * fst scope_name_type
      \<and> unat (sl_recent_decisions_offset l) mod snd recent_decision_type = 0
      \<and> unat (sl_profiles_offset l) mod snd profile_entry_type = 0
      \<and> unat (sl_budget_buckets_offset l) mod snd budget_bucket_type = 0
      \<and> unat (sl_scope_names_offset l) mod snd scope_name_type = 0)"
proof (cases "layout_total c < 2 ^ 64")
  case False
  then show ?thesis by (simp add: compute_layout_eq)
next
  case True
  let ?r = "unat (sc_recent_decisions c)" and ?p = "unat (sc_profiles c)"
    and ?b = "unat (sc_budget_buckets c)"
  have sum: "168 + ?r * 72 + ?p * 56 + ?b * 56 + unat (sc_scope_names c) * 296 < 2 ^ 64"
    using True by (simp add: layout_total_def mult.commute)
  have e: "unat (168 + sc_recent_decisions c * 72) = 168 + ?r * 72"
    "unat (168 + sc_recent_decisions c * 72 + sc_profiles c * 56) = 168 + ?r * 72 + ?p * 56"
    "unat (168 + sc_recent_decisions c * 72 + sc_profiles c * 56 + sc_budget_buckets c * 56)
       = 168 + ?r * 72 + ?p * 56 + ?b * 56"
    using sum by (simp_all add: unat_region_end)
  have "(168 + ?r * 72) mod 8 = 0" "(168 + ?r * 72 + ?p * 56) mod 8 = 0"
    "(168 + ?r * 72 + ?p * 56 + ?b * 56) mod 8 = 0"
    by presburger+
  with True sum show ?thesis
    by (simp add: compute_layout_eq Let_def c_type_values e unat_region_end)
qed

text \<open>The capacities that the settings allow, at most a million each, always have a layout.\<close>

lemma layout_total_bounded:
  assumes "unat (sc_recent_decisions c) \<le> 1000000" and "unat (sc_profiles c) \<le> 1000000"
    and "unat (sc_budget_buckets c) \<le> 1000000" and "unat (sc_scope_names c) \<le> 1000000"
  shows "layout_total c < 2 ^ 64"
  using assms by (simp add: layout_total_def)

end
