(* ===== verification/Pwb_Recent.thy ===== *)
theory Pwb_Recent
  imports Pwb_Records
begin

text \<open>
  The ring of recent decisions, \<^verbatim>\<open>src/shmem/recent_decisions.rs\<close>: the functions that run under
  the lock, on the header and the slice of slots. The ring refines the list of recorded
  decisions, newest first; \<open>ring_repr\<close> is the relation between the two, and it also says
  that every slot index the code computes is inside the slice.
\<close>

type_synonym recent_region = "pwb_shared_state \<times> pwb_recent_decision list"

definition recent_decision_capacity :: "pwb_shared_state \<Rightarrow> nat" where
  "recent_decision_capacity state = unat (ss_recent_decision_capacity state)"

definition recent_decision_count :: "pwb_shared_state \<Rightarrow> nat" where
  "recent_decision_count state = unat (ss_recent_decision_count state)"

definition ring_slot :: "u64 \<Rightarrow> nat \<Rightarrow> nat" where
  "ring_slot sequence capacity = unat (sequence mod of_nat capacity)"

definition record_recent_decision_locked ::
  "recent_decision_record \<Rightarrow> recent_region \<Rightarrow> recent_region" where
  "record_recent_decision_locked r reg =
     (case reg of (state, slots) \<Rightarrow>
      let capacity = recent_decision_capacity state in
      if capacity = 0 then reg
      else let (state, slots) =
             (if ss_recent_decision_head state = - 1
              then (state\<lparr>ss_recent_decision_head := 0, ss_recent_decision_count := 0\<rparr>,
                    map (\<lambda>_. pwb_recent_decision_default) slots)
              else (state, slots));
             slot = ring_slot (ss_recent_decision_head state) capacity
        in (state\<lparr>ss_recent_decision_head := sat_add (ss_recent_decision_head state) 1,
                  ss_recent_decision_count :=
                    min (sat_add (ss_recent_decision_count state) 1)
                        (ss_recent_decision_capacity state)\<rparr>,
            slots[slot := recent_decision_encode r]))"

text \<open>The loop of the snapshot: \<open>n\<close> slots backwards from a sequence number.\<close>

fun snapshot_ring ::
  "nat \<Rightarrow> u64 \<Rightarrow> nat \<Rightarrow> pwb_recent_decision list \<Rightarrow> recent_decision_record list pwb_result" where
  "snapshot_ring 0 sequence capacity slots = Inr []"
| "snapshot_ring (Suc n) sequence capacity slots =
     rbind (recent_decision_decode (slots ! ring_slot sequence capacity)) (\<lambda>r.
     rbind (snapshot_ring n (sat_sub sequence 1) capacity slots) (\<lambda>rs. Inr (r # rs)))"

definition snapshot_recent_decisions_from_slice ::
  "recent_region \<Rightarrow> nat \<Rightarrow> recent_decision_record list pwb_result" where
  "snapshot_recent_decisions_from_slice reg limit =
     (case reg of (state, slots) \<Rightarrow>
      let capacity = recent_decision_capacity state in
      if capacity = 0 \<or> limit = 0 then Inr []
      else let snapshot_count = min (min limit (recent_decision_count state)) capacity in
      if snapshot_count = 0 then Inr []
      else if ss_recent_decision_head state = 0
           then Inl (Internal ''recent decision ring head underflow'')
      else snapshot_ring snapshot_count (ss_recent_decision_head state - 1) capacity slots)"

section \<open>The ring as a list of decisions\<close>

definition ring_repr :: "recent_region \<Rightarrow> recent_decision_record list \<Rightarrow> bool" where
  "ring_repr reg hist \<longleftrightarrow>
     (case reg of (state, slots) \<Rightarrow>
        length slots = recent_decision_capacity state
      \<and> unat (ss_recent_decision_head state) = length hist
      \<and> recent_decision_count state = min (length hist) (length slots)
      \<and> (\<forall>j < min (length hist) (length slots).
           slots ! ((length hist - 1 - j) mod length slots) = recent_decision_encode (hist ! j)))"

definition ring_push :: "nat \<Rightarrow> 'r \<Rightarrow> 'r list \<Rightarrow> 'r list" where
  "ring_push capacity r hist =
     (if capacity = 0 then hist else if length hist = 2 ^ 64 - 1 then [r] else r # hist)"

definition empty_ring :: "pwb_shared_state \<Rightarrow> recent_region" where
  "empty_ring state =
     (state\<lparr>ss_recent_decision_head := 0, ss_recent_decision_count := 0\<rparr>,
      replicate (recent_decision_capacity state) pwb_recent_decision_default)"

lemma ring_slot_mod: "0 < n \<Longrightarrow> n < 2 ^ 32 \<Longrightarrow> ring_slot s n = unat s mod n"
  by (simp add: ring_slot_def unat_mod unsigned_of_nat take_bit_nat_eq_self)

lemma capacity_bound: "recent_decision_capacity state < 2 ^ 32"
  using unat_bound [of "ss_recent_decision_capacity state"] by (simp add: recent_decision_capacity_def)

text \<open>Two distances below the capacity never share a slot.\<close>

lemma ring_distinct:
  assumes "j < c" and "j \<le> n" and "0 < j"
  shows "(n - j) mod c \<noteq> n mod (c :: nat)"
proof
  assume "(n - j) mod c = n mod c"
  then have "c dvd n - (n - j)" using mod_eq_dvd_iff_nat [of "n - j" n c] by simp
  with assms show False by (simp add: nat_dvd_not_less)
qed

lemma ring_repr_empty: "ring_repr (empty_ring state) []"
  by (simp add: ring_repr_def empty_ring_def recent_decision_capacity_def recent_decision_count_def)

lemma ring_repr_step:
  assumes repr: "ring_repr (state, slots) hist" and cap: "0 < length slots"
    and head: "length hist < 2 ^ 64 - 1"
  shows "ring_repr (state\<lparr>ss_recent_decision_head := sat_add (ss_recent_decision_head state) 1,
      ss_recent_decision_count := min (sat_add (ss_recent_decision_count state) 1)
                                      (ss_recent_decision_capacity state)\<rparr>,
      slots[ring_slot (ss_recent_decision_head state) (length slots) := recent_decision_encode r])
    (r # hist)"
proof -
  let ?c = "length slots" and ?n = "length hist"
  have c32: "?c < 2 ^ 32" using repr capacity_bound [of state] by (simp add: ring_repr_def)
  have slot: "ring_slot (ss_recent_decision_head state) ?c = ?n mod ?c"
    using repr cap c32 by (simp add: ring_slot_mod ring_repr_def)
  have cnt: "unat (ss_recent_decision_count state) = min ?n ?c"
    and capu: "unat (ss_recent_decision_capacity state) = ?c"
    and hd: "unat (ss_recent_decision_head state) = ?n"
    using repr by (simp_all add: ring_repr_def recent_decision_count_def recent_decision_capacity_def)
  have old: "slots ! ((?n - 1 - j) mod ?c) = recent_decision_encode (hist ! j)"
    if "j < min ?n ?c" for j using repr that unfolding ring_repr_def by auto
  have new: "slots[?n mod ?c := recent_decision_encode r] ! ((Suc ?n - 1 - j) mod ?c)
      = recent_decision_encode ((r # hist) ! j)" if j: "j < min (Suc ?n) ?c" for j
  proof (cases j)
    case 0
    then show ?thesis using cap by simp
  next
    case (Suc k)
    then have "(?n - j) mod ?c \<noteq> ?n mod ?c" using ring_distinct [of j ?c ?n] j by simp
    then show ?thesis using old [of k] Suc j by simp
  qed
  show ?thesis
    unfolding slot ring_repr_def
    using new head cnt capu hd c32
    by (auto simp: recent_decision_capacity_def recent_decision_count_def unat_simps)
qed

lemma ring_repr_record:
  assumes "ring_repr (state, slots) hist"
  shows "ring_repr (record_recent_decision_locked r (state, slots)) (ring_push (length slots) r hist)"
proof -
  let ?c = "recent_decision_capacity state"
  have len: "length slots = ?c" and hd: "unat (ss_recent_decision_head state) = length hist"
    using assms by (simp_all add: ring_repr_def)
  have max: "ss_recent_decision_head state = - 1 \<longleftrightarrow> length hist = 2 ^ 64 - 1"
    by (simp add: word_unat_eq_iff hd unat_max_word)
  have le: "length hist \<le> 2 ^ 64 - 1"
    using unat_u64_le [of "ss_recent_decision_head state"] by (simp add: hd)
  consider "?c = 0" | "?c \<noteq> 0" "length hist = 2 ^ 64 - 1" | "?c \<noteq> 0" "length hist \<noteq> 2 ^ 64 - 1"
    by blast
  then show ?thesis
  proof cases
    case 1
    then show ?thesis
      using assms len by (simp add: record_recent_decision_locked_def ring_push_def)
  next
    case 2
    have blank: "map (\<lambda>_. pwb_recent_decision_default) slots = replicate ?c pwb_recent_decision_default"
      using len by (simp add: map_replicate_const)
    have empty: "ring_repr (state\<lparr>ss_recent_decision_head := 0, ss_recent_decision_count := 0\<rparr>,
        replicate ?c pwb_recent_decision_default) []"
      using ring_repr_empty [of state] by (simp add: empty_ring_def)
    show ?thesis
      using ring_repr_step [OF empty, of r] 2 max len blank
      by (simp add: record_recent_decision_locked_def ring_push_def recent_decision_capacity_def)
  next
    case 3
    then show ?thesis
      using ring_repr_step [OF assms, of r] max len le
      by (simp add: record_recent_decision_locked_def ring_push_def)
  qed
qed

lemma snapshot_ring_hist:
  assumes "\<And>j. j < n \<Longrightarrow> slots ! ring_slot (sequence - of_nat j) c = recent_decision_encode (hist ! j)"
    and "n \<le> length hist" and "n \<le> unat sequence + 1"
  shows "snapshot_ring n sequence c slots = Inr (take n hist)"
  using assms
proof (induction n arbitrary: sequence hist)
  case (Suc n)
  obtain h t where h: "hist = h # t" using Suc.prems(2) by (cases hist) auto
  have first: "slots ! ring_slot sequence c = recent_decision_encode h"
    using Suc.prems(1) [of 0] by (simp add: h)
  have "snapshot_ring n (sat_sub sequence 1) c slots = Inr (take n t)"
  proof (cases n)
    case (Suc m)
    then have "1 \<le> sequence" using Suc.prems(3) by (simp add: word_le_nat_alt)
    then have pred: "sat_sub sequence 1 = sequence - 1" by (simp add: sat_sub_def)
    show ?thesis unfolding pred
    proof (rule Suc.IH)
      show "slots ! ring_slot (sequence - 1 - of_nat j) c = recent_decision_encode (t ! j)"
        if "j < n" for j using Suc.prems(1) [of "Suc j"] that by (simp add: h algebra_simps)
      show "n \<le> length t" using Suc.prems(2) by (simp add: h)
      show "n \<le> unat (sequence - 1) + 1"
        using Suc.prems(3) \<open>1 \<le> sequence\<close> by (simp add: unat_sub)
    qed
  qed simp
  with first show ?case by (simp add: h decision_codec.dec_enc)
qed simp

lemma snapshot_repr:
  assumes "ring_repr (state, slots) hist"
  shows "snapshot_recent_decisions_from_slice (state, slots) limit
    = Inr (take (min limit (length slots)) hist)"
proof -
  let ?c = "recent_decision_capacity state" and ?h = "ss_recent_decision_head state"
  define n where "n = min (min limit (recent_decision_count state)) ?c"
  have len: "length slots = ?c" and hd: "unat ?h = length hist"
    and cnt: "recent_decision_count state = min (length hist) ?c"
    using assms by (simp_all add: ring_repr_def)
  have take: "take (min limit ?c) hist = take n hist"
    by (simp add: n_def cnt min_def)
  show ?thesis
  proof (cases "n = 0")
    case True
    then show ?thesis
      using take len by (auto simp: snapshot_recent_decisions_from_slice_def Let_def n_def)
  next
    case False
    then have pos: "0 < ?c" "limit \<noteq> 0" "0 < length hist" "n \<le> length hist" by (simp_all add: n_def cnt)
    have hne: "?h \<noteq> 0" using pos hd by auto
    have "snapshot_ring n (?h - 1) ?c slots = Inr (take n hist)"
    proof (rule snapshot_ring_hist [OF _ pos(4)])
      fix j assume j: "j < n"
      have "unat (?h - 1 - of_nat j) = length hist - 1 - j"
      proof -
        have one: "unat (?h - 1) = length hist - 1"
          using hne hd by (simp add: unat_minus_one)
        have "unat (of_nat j :: u64) = j"
          using j pos(4) unat_u64_less [of ?h] by (simp add: hd unsigned_of_nat take_bit_nat_eq_self)
        then show ?thesis using one j pos(4) by (subst unat_sub) (simp_all add: word_le_nat_alt)
      qed
      then show "slots ! ring_slot (?h - 1 - of_nat j) ?c = recent_decision_encode (hist ! j)"
        using assms j len
        by (auto simp: ring_slot_mod [OF pos(1) capacity_bound] ring_repr_def n_def cnt)
    qed (use pos hne hd in \<open>simp add: unat_minus_one\<close>)
    then show ?thesis
      using False take pos hne len
      by (simp add: snapshot_recent_decisions_from_slice_def Let_def flip: n_def)
  qed
qed

lemma ring_repr_fold:
  "ring_repr (state, slots) hist \<Longrightarrow> slots \<noteq> [] \<Longrightarrow> length hist + length rs < 2 ^ 64 \<Longrightarrow>
     ring_repr (fold record_recent_decision_locked rs (state, slots)) (rev rs @ hist)"
proof (induction rs arbitrary: state slots hist)
  case (Cons r rs)
  obtain state' slots' where step: "record_recent_decision_locked r (state, slots) = (state', slots')"
    by (cases "record_recent_decision_locked r (state, slots)")
  have push: "ring_push (length slots) r hist = r # hist"
    using Cons.prems by (simp add: ring_push_def)
  have "ring_repr (state', slots') (r # hist)"
    using ring_repr_record [OF Cons.prems(1), of r] by (simp only: step push)
  moreover have "slots' \<noteq> []"
    using step Cons.prems(2)
    by (auto simp: record_recent_decision_locked_def Let_def split: if_splits)
  ultimately show ?case
    using Cons.IH [of state' slots' "r # hist"] Cons.prems(3) by (simp add: step)
qed simp

lemma record_length:
  "length (snd (record_recent_decision_locked r reg)) = length (snd reg)"
  "ss_recent_decision_capacity (fst (record_recent_decision_locked r reg))
     = ss_recent_decision_capacity (fst reg)"
  by (auto simp: record_recent_decision_locked_def Let_def split: prod.splits)

lemma record_frame:
  "\<exists>h n. fst (record_recent_decision_locked r reg)
    = (fst reg)\<lparr>ss_recent_decision_head := h, ss_recent_decision_count := n\<rparr>"
proof -
  obtain st rs where reg: "reg = (st, rs)" by (cases reg)
  show ?thesis
  proof (cases "recent_decision_capacity st = 0")
    case True
    then show ?thesis
      by (intro exI [of _ "ss_recent_decision_head st"] exI [of _ "ss_recent_decision_count st"])
         (simp add: record_recent_decision_locked_def reg)
  next
    case False
    then show ?thesis
      by (cases "ss_recent_decision_head st = - 1")
         (simp_all add: record_recent_decision_locked_def reg Let_def, blast+)
  qed
qed

section \<open>Properties\<close>

text \<open>
  The ring is the list of recorded decisions: a recording puts the new decision in front
  (or starts afresh when the 64-bit sequence number is used up, and does nothing when the
  ring has no capacity), and a snapshot of \<open>limit\<close> returns, newest first and without an
  error, the last \<open>limit\<close> decisions, bounded by the capacity.
\<close>

lemma recent_ring_refines_list:
  assumes "ring_repr (state, slots) hist"
  shows "ring_repr (record_recent_decision_locked r (state, slots)) (ring_push (length slots) r hist)
    \<and> snapshot_recent_decisions_from_slice (state, slots) limit
        = Inr (take (min limit (length slots)) hist)"
  using ring_repr_record [OF assms] snapshot_repr [OF assms] by blast

lemma recent_ring_refines_list_witness:
  "ring_repr (empty_ring (test_state 2)) []
   \<and> ring_repr (record_recent_decision_locked sample_decision (empty_ring (test_state 2))) [sample_decision]
   \<and> snapshot_recent_decisions_from_slice (empty_ring (test_state 2)) 5 = Inr []"
proof -
  have repr: "ring_repr (empty_ring (test_state 2)) []" by (rule ring_repr_empty)
  have len: "length (snd (empty_ring (test_state 2))) = 2"
    by (simp add: empty_ring_def test_state_def recent_decision_capacity_def)
  show ?thesis
    using recent_ring_refines_list [of "fst (empty_ring (test_state 2))" "snd (empty_ring (test_state 2))" "[]"
        sample_decision 5] repr len by (simp add: ring_push_def)
qed

text \<open>
  C23: from an empty ring of capacity \<open>c\<close>, after any sequence of fewer than \<open>2 ^ 64\<close>
  recordings, a snapshot of \<open>limit\<close> is exactly the last \<open>min limit c\<close> recordings, the
  newest first.
\<close>

theorem recent_ring_run:
  assumes "length rs < 2 ^ 64"
  shows "snapshot_recent_decisions_from_slice (fold record_recent_decision_locked rs (empty_ring state)) limit
    = Inr (take (min limit (recent_decision_capacity state)) (rev rs))"
proof (cases "recent_decision_capacity state = 0")
  case True
  then have "fold record_recent_decision_locked rs (empty_ring state) = empty_ring state"
    by (induction rs)
       (simp_all add: record_recent_decision_locked_def empty_ring_def recent_decision_capacity_def)
  then show ?thesis
    using snapshot_repr [OF ring_repr_empty [of state, unfolded empty_ring_def]] True
    by (simp add: empty_ring_def)
next
  case False
  let ?reg = "fold record_recent_decision_locked rs (empty_ring state)"
  have "ring_repr ?reg (rev rs)"
    using ring_repr_fold [of _ _ "[]" rs, OF ring_repr_empty [of state, unfolded empty_ring_def]]
      assms False by (simp add: empty_ring_def)
  moreover have "length (snd ?reg) = recent_decision_capacity state"
  proof -
    have "length (snd (fold record_recent_decision_locked rs reg)) = length (snd reg)" for reg
      by (induction rs arbitrary: reg) (simp_all add: record_length)
    then show ?thesis by (simp add: empty_ring_def)
  qed
  ultimately show ?thesis using snapshot_repr by (metis prod.collapse)
qed

theorem recent_ring_run_witness:
  "snapshot_recent_decisions_from_slice
     (fold record_recent_decision_locked [sample_decision, sample_decision\<lparr>rr_policy_id := None\<rparr>]
        (empty_ring (test_state 4))) 1
    = Inr [sample_decision\<lparr>rr_policy_id := None\<rparr>]"
  using recent_ring_run [of "[sample_decision, sample_decision\<lparr>rr_policy_id := None\<rparr>]" "test_state 4" 1]
  by (simp add: recent_decision_capacity_def test_state_def)

end
