(* ===== verification/Pwb_Scope_Names.thy ===== *)
theory Pwb_Scope_Names
  imports Pwb_Records
begin

text \<open>
  The reverse lookup of scope hashes, \<^verbatim>\<open>src/shmem/scope_names.rs\<close>: the functions that run
  under the lock, on the slice of slots. The table refines a partial function from scope
  kind and hash to the recorded name; a new name is dropped exactly when no slot is free.
\<close>

datatype scope_name_record_result = Recorded | Dropped

text \<open>
  The loop over the slots: the index of the slot that matches the key, or the end of the
  slice, together with the first empty slot seen on the way.
\<close>

fun scan_scope_names ::
  "scope_kind \<Rightarrow> scope_hash \<Rightarrow> nat \<Rightarrow> nat option \<Rightarrow> pwb_scope_name list \<Rightarrow> nat option \<times> nat option" where
  "scan_scope_names scope_kind scope_hash slot first_empty [] = (None, first_empty)"
| "scan_scope_names scope_kind scope_hash slot first_empty (n # ns) =
     (if scope_name_matches_key n scope_kind scope_hash then (Some slot, first_empty)
      else if sn_occupied n = 0 \<and> first_empty = None
           then scan_scope_names scope_kind scope_hash (Suc slot) (Some slot) ns
      else scan_scope_names scope_kind scope_hash (Suc slot) first_empty ns)"

definition record_scope_name_in_slice ::
  "scope_kind \<Rightarrow> scope_hash \<Rightarrow> string \<Rightarrow> u64 \<Rightarrow> pwb_scope_name list
     \<Rightarrow> scope_name_record_result \<times> pwb_scope_name list" where
  "record_scope_name_in_slice scope_kind scope_hash scope_value now_epoch_ms names =
     (case scan_scope_names scope_kind scope_hash 0 None names of
        (Some slot, _) \<Rightarrow>
          (Recorded, names[slot := (names ! slot)\<lparr>sn_last_seen_epoch_ms := now_epoch_ms,
                              sn_seen_count := sat_add (sn_seen_count (names ! slot)) 1\<rparr>])
      | (None, None) \<Rightarrow> (Dropped, names)
      | (None, Some slot) \<Rightarrow>
          (Recorded, names[slot := scope_name_encode_value scope_kind scope_hash scope_value
                                     now_epoch_ms now_epoch_ms 1]))"

definition snapshot_scope_names_from_slice ::
  "pwb_scope_name list \<Rightarrow> scope_name_snapshot list pwb_result" where
  "snapshot_scope_names_from_slice names =
     rtraverse scope_name_decode (filter (\<lambda>n. sn_occupied n = 1) names)"

section \<open>The table as a partial function\<close>

definition name_occ :: "pwb_scope_name \<Rightarrow> bool" where
  "name_occ n \<longleftrightarrow> sn_occupied n = 1"

definition name_key :: "pwb_scope_name \<Rightarrow> u8 \<times> scope_hash" where
  "name_key n = (sn_scope_kind n, sn_scope_hash n)"

definition name_of :: "pwb_scope_name \<Rightarrow> scope_name_snapshot option" where
  "name_of n = (case scope_name_decode n of Inr s \<Rightarrow> Some s | Inl _ \<Rightarrow> None)"

definition name_at :: "pwb_scope_name list \<Rightarrow> scope_kind \<times> scope_hash \<rightharpoonup> scope_name_snapshot" where
  "name_at names k =
     Option.bind (slot_lookup name_occ name_key names (encode_scope_kind (fst k), snd k)) name_of"

definition names_wf :: "pwb_scope_name list \<Rightarrow> bool" where
  "names_wf names \<longleftrightarrow>
     keys_distinct name_occ name_key names
   \<and> (\<forall>n \<in> set names. sn_occupied n = 0 \<or> sn_occupied n = 1 \<and> is_ok (scope_name_decode n))"

definition names_full :: "pwb_scope_name list \<Rightarrow> bool" where
  "names_full names \<longleftrightarrow> (\<forall>n \<in> set names. sn_occupied n \<noteq> 0)"

definition new_name :: "scope_kind \<Rightarrow> scope_hash \<Rightarrow> string \<Rightarrow> u64 \<Rightarrow> scope_name_snapshot" where
  "new_name k h v now =
     \<lparr>sv_scope_kind = k, sv_scope_hash = h, sv_scope_value = truncate_utf8 v SCOPE_NAME_VALUE_BYTES,
      sv_first_seen_epoch_ms = now, sv_last_seen_epoch_ms = now, sv_seen_count = 1\<rparr>"

definition name_record ::
  "bool \<Rightarrow> scope_kind \<Rightarrow> scope_hash \<Rightarrow> string \<Rightarrow> u64 \<Rightarrow> (scope_kind \<times> scope_hash \<rightharpoonup> scope_name_snapshot)
     \<Rightarrow> scope_name_record_result \<times> (scope_kind \<times> scope_hash \<rightharpoonup> scope_name_snapshot)" where
  "name_record full k h v now m =
     (case m (k, h) of
        Some s \<Rightarrow> (Recorded, m((k, h) \<mapsto> s\<lparr>sv_last_seen_epoch_ms := now,
                                         sv_seen_count := sat_add (sv_seen_count s) 1\<rparr>))
      | None \<Rightarrow> if full then (Dropped, m) else (Recorded, m((k, h) \<mapsto> new_name k h v now)))"

interpretation name_slots: slot_table name_occ name_key pwb_scope_name_default
  by unfold_locales (simp add: name_occ_def pwb_scope_name_default_def)

lemma matches_key_match:
  "scope_name_matches_key n k h = slot_match name_occ name_key (encode_scope_kind k, h) n"
  by (auto simp: scope_name_matches_key_def slot_match_def name_occ_def name_key_def)

lemma plus_Suc_fun: "(+) (Suc i) = (\<lambda>x. Suc (i + x))"
  by (simp add: fun_eq_iff)

lemma scan_scope_names_position:
  "fst (scan_scope_names k h i e ns)
     = map_option (\<lambda>j. i + j) (position (\<lambda>n. scope_name_matches_key n k h) ns)"
  "position (\<lambda>n. scope_name_matches_key n k h) ns = None \<Longrightarrow> snd (scan_scope_names k h i e ns)
     = (if e = None then map_option (\<lambda>j. i + j) (position (\<lambda>n. sn_occupied n = 0) ns) else e)"
proof (induction ns arbitrary: i e)
  case (Cons n ns)
  { case 1 show ?case by (auto simp: Cons.IH option.map_comp comp_def plus_Suc_fun) }
  { case 2 then show ?case by (auto simp: Cons.IH option.map_comp comp_def plus_Suc_fun split: if_splits) }
qed auto

lemma encode_scope_kind_eq_iff [simp]: "encode_scope_kind a = encode_scope_kind b \<longleftrightarrow> a = b"
  by (rule scope_codec.enc_eq_iff)

lemma name_of_encode:
  assumes "utf8_valid v"
  shows "scope_name_decode (scope_name_encode_value k h v now now 1) = Inr (new_name k h v now)"
  using truncate_utf8_props(1,2) [OF assms, of SCOPE_NAME_VALUE_BYTES]
  by (simp add: scope_name_decode_def scope_name_encode_value_def Let_def new_name_def
      unat_scope_name_value_len scope_codec.dec_enc)

lemma decode_update:
  assumes "scope_name_decode n = Inr s"
  shows "scope_name_decode (n\<lparr>sn_last_seen_epoch_ms := now, sn_seen_count := c\<rparr>)
    = Inr (s\<lparr>sv_last_seen_epoch_ms := now, sv_seen_count := c\<rparr>)"
    and "sv_seen_count s = sn_seen_count n"
  using assms by (auto simp: scope_name_decode_def Let_def rbind_Inr_iff split: if_splits)

text \<open>Writing a decodable slot of a key that no other slot has updates the function at the key.\<close>

lemma write_name:
  assumes wf: "names_wf names" and i: "i < length names"
    and free: "\<And>j. j < length names \<Longrightarrow> j \<noteq> i \<Longrightarrow>
      \<not> slot_match name_occ name_key (encode_scope_kind k, h) (names ! j)"
    and here: "name_occ (names ! i) \<Longrightarrow> name_key (names ! i) = (encode_scope_kind k, h)"
    and e: "name_occ e" "name_key e = (encode_scope_kind k, h)" "scope_name_decode e = Inr s"
  shows "names_wf (names[i := e])" and "name_at (names[i := e]) = (name_at names)((k, h) \<mapsto> s)"
proof -
  have d: "keys_distinct name_occ name_key names" using wf by (simp add: names_wf_def)
  have free': "\<not> slot_match name_occ name_key (name_key e) (names ! j)"
    if "j < length names" "j \<noteq> i" for j using free that e(2) by simp
  have "\<forall>n \<in> set (names[i := e]). sn_occupied n = 0 \<or> sn_occupied n = 1 \<and> is_ok (scope_name_decode n)"
    using wf e set_update_subset_insert [of names i e] by (auto simp: names_wf_def name_occ_def)
  with name_slots.distinct_put [OF d i free'] show "names_wf (names[i := e])"
    by (simp add: names_wf_def)
  show "name_at (names[i := e]) = (name_at names)((k, h) \<mapsto> s)"
  proof
    fix k'
    show "name_at (names[i := e]) k' = ((name_at names)((k, h) \<mapsto> s)) k'"
      using name_slots.lookup_put [OF d i e(1) free', of "(encode_scope_kind (fst k'), snd k')"] e here
      by (cases k') (auto simp: name_at_def name_of_def slot_match_def split: if_splits)
  qed
qed

lemma scan_cases:
  "scan_scope_names k h 0 None names =
     (case position (slot_match name_occ name_key (encode_scope_kind k, h)) names of
        Some i \<Rightarrow> (Some i, snd (scan_scope_names k h 0 None names))
      | None \<Rightarrow> (None, position (\<lambda>n. sn_occupied n = 0) names))"
proof -
  have "(\<lambda>n. scope_name_matches_key n k h) = slot_match name_occ name_key (encode_scope_kind k, h)"
    by (simp add: fun_eq_iff matches_key_match)
  moreover have "(+) (0 :: nat) = id" by (simp add: fun_eq_iff)
  ultimately show ?thesis
    using scan_scope_names_position [where k = k and h = h and i = 0 and e = None and ns = names]
    by (cases "scan_scope_names k h 0 None names") (auto simp: option.map_id split: option.split)
qed

lemma record_scope_name_refines:
  assumes wf: "names_wf names" and v: "utf8_valid v"
  shows "map_prod id name_at (record_scope_name_in_slice k h v now names)
      = name_record (names_full names) k h v now (name_at names)"
    and "names_wf (snd (record_scope_name_in_slice k h v now names))"
proof -
  let ?key = "(encode_scope_kind k, h)"
  let ?pos = "position (slot_match name_occ name_key ?key) names"
  have d: "keys_distinct name_occ name_key names" using wf by (simp add: names_wf_def)
  have "map_prod id name_at (record_scope_name_in_slice k h v now names)
      = name_record (names_full names) k h v now (name_at names)
    \<and> names_wf (snd (record_scope_name_in_slice k h v now names))"
  proof (cases ?pos)
    case (Some i)
    note i = position_SomeD(1,2) [OF Some]
    let ?n = "names ! i"
    have "is_ok (scope_name_decode ?n)"
    proof -
      have "names ! i \<in> set names" using i(1) by simp
      moreover have "sn_occupied (names ! i) = 1" using i(2) by (simp add: slot_match_def name_occ_def)
      ultimately show ?thesis using wf unfolding names_wf_def by (metis zero_neq_one)
    qed
    then obtain s where s: "scope_name_decode ?n = Inr s" by (cases "scope_name_decode ?n") auto
    have at: "name_at names (k, h) = Some s"
      using Some by (simp add: name_at_def slot_lookup_def name_of_def s)
    let ?e = "?n\<lparr>sn_last_seen_epoch_ms := now, sn_seen_count := sat_add (sn_seen_count ?n) 1\<rparr>"
    let ?s = "s\<lparr>sv_last_seen_epoch_ms := now, sv_seen_count := sat_add (sv_seen_count s) 1\<rparr>"
    have dec: "scope_name_decode ?e = Inr ?s"
      using decode_update [OF s] by simp
    have occ: "name_occ ?e" "name_key ?e = ?key"
      using i(2) by (simp_all add: slot_match_def name_occ_def name_key_def)
    have rec: "record_scope_name_in_slice k h v now names = (Recorded, names[i := ?e])"
      by (subst record_scope_name_in_slice_def, subst scan_cases) (simp add: Some)
    show ?thesis
      using write_name [OF wf i(1) name_slots.free_if_position_Some [OF d Some] _ occ dec] i(2)
      by (simp add: rec name_record_def at slot_match_def)
  next
    case None
    have at: "name_at names (k, h) = None"
      using None by (simp add: name_at_def slot_lookup_def)
    show ?thesis
    proof (cases "position (\<lambda>n. sn_occupied n = 0) names")
      case None': None
      then have "names_full names" by (simp add: names_full_def position_None)
      moreover have "record_scope_name_in_slice k h v now names = (Dropped, names)"
        by (subst record_scope_name_in_slice_def, subst scan_cases) (simp add: None None')
      ultimately show ?thesis using wf by (simp add: name_record_def at)
    next
      case (Some i)
      note i = position_SomeD(1,2) [OF Some]
      have "\<not> names_full names" using i by (auto simp: names_full_def)
      moreover have "record_scope_name_in_slice k h v now names
          = (Recorded, names[i := scope_name_encode_value k h v now now 1])"
        by (subst record_scope_name_in_slice_def, subst scan_cases) (simp add: None Some)
      moreover have "name_occ (scope_name_encode_value k h v now now 1)"
        "name_key (scope_name_encode_value k h v now now 1) = ?key"
        by (simp_all add: scope_name_encode_value_def name_occ_def name_key_def Let_def)
      ultimately show ?thesis
        using write_name [OF wf i(1) name_slots.free_if_position_None [OF None] _ _ _ name_of_encode [OF v]]
          i(2) by (simp add: name_record_def at name_occ_def)
    qed
  qed
  then show "map_prod id name_at (record_scope_name_in_slice k h v now names)
      = name_record (names_full names) k h v now (name_at names)"
    and "names_wf (snd (record_scope_name_in_slice k h v now names))" by blast+
qed

lemma snapshot_scope_names_ok:
  assumes "names_wf names"
  shows "\<exists>ss. snapshot_scope_names_from_slice names = Inr ss \<and> length ss = length (filter name_occ names)"
proof -
  have ok: "is_ok (scope_name_decode n)" if "n \<in> set names" "sn_occupied n = 1" for n
    using assms that by (auto simp: names_wf_def)
  have "is_ok (rtraverse scope_name_decode ns)" if "\<forall>n \<in> set ns. is_ok (scope_name_decode n)" for ns
    using that by (induction ns) (auto simp: is_ok_def split: sum.splits)
  then have "is_ok (snapshot_scope_names_from_slice names)"
    using ok by (simp add: snapshot_scope_names_from_slice_def)
  then obtain ss where "snapshot_scope_names_from_slice names = Inr ss"
    by (cases "snapshot_scope_names_from_slice names") auto
  then show ?thesis
    using rtraverse_Inr_length [of scope_name_decode _ ss]
    by (simp add: snapshot_scope_names_from_slice_def name_occ_def [abs_def])
qed

text \<open>
  C24: the reverse lookup behaves as a map from scope kind and hash to names: recording a
  known scope refreshes its time and increments its count but keeps the first name and
  time; a new scope is stored, cut to 256 bytes, when a slot is free, and is reported as
  dropped otherwise, with nothing changed; no other scope is affected, and afterwards a
  snapshot of the table decodes without an error.
\<close>

theorem scope_names_refine_map:
  assumes "names_wf names" and "utf8_valid v"
  shows "map_prod id name_at (record_scope_name_in_slice k h v now names)
      = name_record (names_full names) k h v now (name_at names)
    \<and> names_wf (snd (record_scope_name_in_slice k h v now names))
    \<and> is_ok (snapshot_scope_names_from_slice (snd (record_scope_name_in_slice k h v now names)))"
proof -
  note r = record_scope_name_refines [OF assms, of k h now]
  have "is_ok (snapshot_scope_names_from_slice (snd (record_scope_name_in_slice k h v now names)))"
    using snapshot_scope_names_ok [OF r(2)] by (elim exE conjE) simp
  with r show ?thesis by blast
qed

theorem scope_names_refine_map_witness:
  "fst (record_scope_name_in_slice Tenant 99 ''tenant-a'' 123 [pwb_scope_name_default]) = Recorded
   \<and> name_at (snd (record_scope_name_in_slice Tenant 99 ''tenant-a'' 123 [pwb_scope_name_default]))
     = [(Tenant, 99) \<mapsto> new_name Tenant 99 ''tenant-a'' 123]"
proof -
  have v: "utf8_valid ''tenant-a''"
    by (simp add: utf8_valid.simps utf8_char_len_def utf8_width_def)
  have wf: "names_wf [pwb_scope_name_default]"
    by (simp add: names_wf_def keys_distinct_def pwb_scope_name_default_def)
  have "name_at [pwb_scope_name_default] = Map.empty"
    by (simp add: fun_eq_iff name_at_def slot_lookup_def slot_match_def name_slots.blank_free)
  moreover have "\<not> names_full [pwb_scope_name_default]"
    by (simp add: names_full_def pwb_scope_name_default_def)
  moreover obtain r ns where r: "record_scope_name_in_slice Tenant 99 ''tenant-a'' 123 [pwb_scope_name_default] = (r, ns)"
    by (cases "record_scope_name_in_slice Tenant 99 ''tenant-a'' 123 [pwb_scope_name_default]")
  ultimately have "map_prod id name_at (r, ns)
      = (Recorded, [(Tenant, 99) \<mapsto> new_name Tenant 99 ''tenant-a'' 123])"
    using scope_names_refine_map [OF wf v, of Tenant 99 123] by (simp add: name_record_def)
  then show ?thesis by (simp add: r)
qed

end
