(* ===== verification/Pwb_Buckets.thy ===== *)
theory Pwb_Buckets
  imports Pwb_Records
begin

text \<open>
  The table of budget buckets, \<^verbatim>\<open>src/shmem/budget_buckets.rs\<close>: an array of which the first
  \<open>budget_buckets_len\<close> slots are in use, one per policy and scope hash. The functions here
  are those that run under the lock, on the header and the slice of slots; a callback
  returns its result and the bucket as it left it. A Rust slice index that would panic is
  in range in every table that satisfies \<open>buckets_wf\<close>, which every operation keeps.
  The table refines a partial function from keys to buckets of bounded size.
\<close>

type_synonym bucket_region = "pwb_shared_state \<times> pwb_budget_bucket list"
type_synonym bucket_key = "policy_id \<times> scope_hash"
type_synonym 'r bucket_callback = "budget_bucket_state \<Rightarrow> 'r pwb_result \<times> budget_bucket_state"

definition budget_bucket_capacity_exhausted :: pwb_error where
  "budget_bucket_capacity_exhausted = Internal ''pg_wal_budget budget bucket capacity exhausted''"

definition bucket_has_key :: "policy_id \<Rightarrow> scope_hash \<Rightarrow> pwb_budget_bucket \<Rightarrow> bool" where
  "bucket_has_key policy_id scope_hash b \<longleftrightarrow>
     pb_occupied b = 1 \<and> pb_policy_id b = policy_id \<and> pb_scope_hash b = scope_hash"

definition find_budget_bucket_slot ::
  "pwb_budget_bucket list \<Rightarrow> policy_id \<Rightarrow> scope_hash \<Rightarrow> nat option" where
  "find_budget_bucket_slot buckets policy_id scope_hash =
     position (bucket_has_key policy_id scope_hash) buckets"

definition occupied_budget_bucket_len :: "pwb_shared_state \<Rightarrow> nat" where
  "occupied_budget_bucket_len state = unat (ss_budget_buckets_len state)"

definition apply_budget_bucket ::
  "policy_id \<Rightarrow> scope_hash \<Rightarrow> budget_bucket_state \<Rightarrow> 'r bucket_callback \<Rightarrow> bucket_region
     \<Rightarrow> 'r pwb_result \<times> bucket_region" where
  "apply_budget_bucket policy_id scope_hash initializer callback reg =
     (case reg of (state, buckets) \<Rightarrow>
      let occupied_len = occupied_budget_bucket_len state in
      case find_budget_bucket_slot (take occupied_len buckets) policy_id scope_hash of
        Some slot \<Rightarrow>
          (case callback (budget_bucket_state_of (buckets ! slot)) of
             (Inl e, _) \<Rightarrow> (Inl e, reg)
           | (Inr r, bucket) \<Rightarrow> (Inr r, (state, buckets[slot := budget_bucket_encode bucket])))
      | None \<Rightarrow>
          if occupied_len = length buckets then (Inl budget_bucket_capacity_exhausted, reg)
          else
          (case callback initializer of
             (Inl e, _) \<Rightarrow> (Inl e, reg)
           | (Inr r, bucket) \<Rightarrow>
               (Inr r, (state\<lparr>ss_budget_buckets_len := ss_budget_buckets_len state + 1\<rparr>,
                        buckets[occupied_len := budget_bucket_encode bucket]))))"

definition existing_budget_bucket ::
  "policy_id \<Rightarrow> scope_hash \<Rightarrow> 'r bucket_callback \<Rightarrow> bucket_region
     \<Rightarrow> 'r option pwb_result \<times> bucket_region" where
  "existing_budget_bucket policy_id scope_hash callback reg =
     (case reg of (state, buckets) \<Rightarrow>
      let occupied_len = occupied_budget_bucket_len state in
      case find_budget_bucket_slot (take occupied_len buckets) policy_id scope_hash of
        None \<Rightarrow> (Inr None, reg)
      | Some slot \<Rightarrow>
          (case callback (budget_bucket_state_of (buckets ! slot)) of
             (Inl e, _) \<Rightarrow> (Inl e, reg)
           | (Inr r, bucket) \<Rightarrow>
               (Inr (Some r), (state, buckets[slot := budget_bucket_encode bucket]))))"

definition budget_bucket_snapshot_of :: "budget_bucket_state \<Rightarrow> budget_bucket_snapshot" where
  "budget_bucket_snapshot_of b =
     \<lparr>bs_policy_id = bb_policy_id b, bs_scope_hash = bb_scope_hash b,
      bs_available_bytes = bb_available_bytes b, bs_max_burst_bytes = bb_max_burst_bytes b,
      bs_rate_bytes_per_sec = bb_rate_bytes_per_sec b,
      bs_last_refill_epoch_ms = bb_last_refill_epoch_ms b, bs_debt_bytes = bb_debt_bytes b\<rparr>"

definition snapshot_budget_buckets_from_slice ::
  "pwb_budget_bucket list \<Rightarrow> nat \<Rightarrow> budget_bucket_snapshot list pwb_result" where
  "snapshot_budget_buckets_from_slice buckets occupied_len =
     rtraverse (\<lambda>b. rbind (budget_bucket_decode b) (\<lambda>decoded. Inr (budget_bucket_snapshot_of decoded)))
       (filter (\<lambda>b. pb_occupied b = 1) (take (min occupied_len (length buckets)) buckets))"

section \<open>The table as a partial function\<close>

definition bucket_occ :: "pwb_budget_bucket \<Rightarrow> bool" where
  "bucket_occ b \<longleftrightarrow> pb_occupied b = 1"

definition bucket_key :: "pwb_budget_bucket \<Rightarrow> bucket_key" where
  "bucket_key b = (pb_policy_id b, pb_scope_hash b)"

definition state_key :: "budget_bucket_state \<Rightarrow> bucket_key" where
  "state_key b = (bb_policy_id b, bb_scope_hash b)"

definition bucket_at :: "bucket_region \<Rightarrow> bucket_key \<Rightarrow> budget_bucket_state option" where
  "bucket_at reg k =
     map_option budget_bucket_state_of (slot_lookup bucket_occ bucket_key (snd reg) k)"

definition buckets_wf :: "bucket_region \<Rightarrow> bool" where
  "buckets_wf reg \<longleftrightarrow>
     (case reg of (state, buckets) \<Rightarrow>
        length buckets = unat (ss_budget_bucket_capacity state)
      \<and> unat (ss_budget_buckets_len state) \<le> length buckets
      \<and> (\<forall>i < length buckets. bucket_occ (buckets ! i) \<longleftrightarrow> i < unat (ss_budget_buckets_len state))
      \<and> keys_distinct bucket_occ bucket_key buckets)"

definition bucket_room :: "bucket_region \<Rightarrow> bool" where
  "bucket_room reg \<longleftrightarrow> occupied_budget_bucket_len (fst reg) < length (snd reg)"

interpretation bucket_slots: slot_table bucket_occ bucket_key pwb_budget_bucket_default
  by unfold_locales (simp add: bucket_occ_def pwb_budget_bucket_default_def)

lemma bucket_has_key_match: "bucket_has_key p h = slot_match bucket_occ bucket_key (p, h)"
  by (auto simp: bucket_has_key_def slot_match_def bucket_occ_def bucket_key_def fun_eq_iff)

lemma bucket_key_encode [simp]: "bucket_key (budget_bucket_encode b) = state_key b"
  by (simp add: bucket_key_def state_key_def budget_bucket_encode_def)

lemma bucket_occ_encode [simp]: "bucket_occ (budget_bucket_encode b)"
  by (simp add: bucket_occ_def)

lemma state_key_of [simp]: "state_key (budget_bucket_state_of b) = bucket_key b"
  by (simp add: bucket_key_def state_key_def budget_bucket_state_of_def)

lemma find_slot_wf:
  assumes "buckets_wf (state, buckets)"
  shows "find_budget_bucket_slot (take (occupied_budget_bucket_len state) buckets) p h
    = position (slot_match bucket_occ bucket_key (p, h)) buckets"
  using assms unfolding find_budget_bucket_slot_def bucket_has_key_match occupied_budget_bucket_len_def
  by (intro position_take) (auto simp: buckets_wf_def slot_match_def)

lemma bucket_at_key: "bucket_at reg k = Some b \<Longrightarrow> state_key b = k"
  by (auto simp: bucket_at_def dest: bucket_slots.lookup_match)

text \<open>Writing a bucket back into the slot of its key.\<close>

lemma write_slot:
  assumes wf: "buckets_wf (state, buckets)"
    and pos: "position (slot_match bucket_occ bucket_key k) buckets = Some i"
    and key: "state_key b = k"
  shows "buckets_wf (state, buckets[i := budget_bucket_encode b])"
    and "bucket_at (state, buckets[i := budget_bucket_encode b]) = (bucket_at (state, buckets))(k \<mapsto> b)"
proof -
  let ?e = "budget_bucket_encode b"
  from wf have d: "keys_distinct bucket_occ bucket_key buckets" by (simp add: buckets_wf_def)
  note i = position_SomeD(1,2) [OF pos]
  have free: "\<not> slot_match bucket_occ bucket_key (bucket_key ?e) (buckets ! j)"
    if "j < length buckets" "j \<noteq> i" for j
    using bucket_slots.free_if_position_Some [OF d pos that] key by simp
  have occ: "bucket_occ (buckets[i := ?e] ! j) = bucket_occ (buckets ! j)" if "j < length buckets" for j
    using that i by (cases "j = i") (simp_all add: slot_match_def)
  show "buckets_wf (state, buckets[i := ?e])"
    using wf occ bucket_slots.distinct_put [OF d i(1) free] by (simp add: buckets_wf_def)
  show "bucket_at (state, buckets[i := ?e]) = (bucket_at (state, buckets))(k \<mapsto> b)"
  proof
    fix k'
    show "bucket_at (state, buckets[i := ?e]) k' = ((bucket_at (state, buckets))(k \<mapsto> b)) k'"
      using bucket_slots.lookup_put [OF d i(1) bucket_occ_encode free, of k'] key i(2)
      by (auto simp: bucket_at_def slot_match_def)
  qed
qed

text \<open>Writing a bucket of a new key into the first slot that is not in use.\<close>

lemma write_new:
  assumes wf: "buckets_wf (state, buckets)"
    and pos: "position (slot_match bucket_occ bucket_key k) buckets = None"
    and key: "state_key b = k"
    and room: "unat (ss_budget_buckets_len state) < length buckets"
  defines "reg \<equiv> (state\<lparr>ss_budget_buckets_len := ss_budget_buckets_len state + 1\<rparr>,
                  buckets[unat (ss_budget_buckets_len state) := budget_bucket_encode b])"
  shows "buckets_wf reg"
    and "bucket_at reg = (bucket_at (state, buckets))(k \<mapsto> b)"
proof -
  let ?e = "budget_bucket_encode b" and ?n = "unat (ss_budget_buckets_len state)"
  from wf have d: "keys_distinct bucket_occ bucket_key buckets"
    and cap: "length buckets = unat (ss_budget_bucket_capacity state)" by (simp_all add: buckets_wf_def)
  have free: "\<not> slot_match bucket_occ bucket_key (bucket_key ?e) (buckets ! j)"
    if "j < length buckets" "j \<noteq> ?n" for j
    using bucket_slots.free_if_position_None [OF pos that(1)] key by simp
  have "?n + 1 < 2 ^ 32"
    using room unat_bound [of "ss_budget_bucket_capacity state"] cap by simp
  then have suc: "unat (ss_budget_buckets_len state + 1) = ?n + 1"
    by (simp add: unat_word_ariths)
  have n_free: "\<not> bucket_occ (buckets ! ?n)"
    using wf room by (simp add: buckets_wf_def)
  have occ: "bucket_occ (buckets[?n := ?e] ! j) \<longleftrightarrow> j < ?n + 1" if "j < length buckets" for j
    using that wf room by (cases "j = ?n") (auto simp: buckets_wf_def)
  show "buckets_wf reg"
    using wf room occ suc bucket_slots.distinct_put [OF d room free]
    by (auto simp: buckets_wf_def reg_def)
  show "bucket_at reg = (bucket_at (state, buckets))(k \<mapsto> b)"
  proof
    fix k'
    show "bucket_at reg k' = ((bucket_at (state, buckets))(k \<mapsto> b)) k'"
      using bucket_slots.lookup_put [OF d room bucket_occ_encode free, of k'] key n_free
      by (auto simp: bucket_at_def reg_def slot_match_def)
  qed
qed

lemma bucket_at_position:
  "bucket_at (state, buckets) k = None \<longleftrightarrow> position (slot_match bucket_occ bucket_key k) buckets = None"
  "position (slot_match bucket_occ bucket_key k) buckets = Some i \<Longrightarrow>
     bucket_at (state, buckets) k = Some (budget_bucket_state_of (buckets ! i))"
  by (simp_all add: bucket_at_def slot_lookup_def)

definition admit_bucket ::
  "bucket_key \<Rightarrow> budget_bucket_state \<Rightarrow> 'r bucket_callback \<Rightarrow> bucket_region
     \<Rightarrow> 'r pwb_result \<times> bucket_region" where
  "admit_bucket k initializer callback reg = apply_budget_bucket (fst k) (snd k) initializer callback reg"

definition visit_bucket ::
  "bucket_key \<Rightarrow> 'r bucket_callback \<Rightarrow> bucket_region \<Rightarrow> 'r option pwb_result \<times> bucket_region" where
  "visit_bucket k callback reg = existing_budget_bucket (fst k) (snd k) callback reg"

lemma admit_bucket_refines:
  assumes wf: "buckets_wf reg" and i: "state_key i = k"
    and f: "\<And>b. state_key (snd (f b)) = state_key b"
  shows "buckets_wf (snd (admit_bucket k i f reg)) \<and>
    map_prod id bucket_at (admit_bucket k i f reg)
      = map_admit (bucket_room reg) budget_bucket_capacity_exhausted k i f (bucket_at reg)"
proof -
  obtain state buckets where reg: "reg = (state, buckets)" by (cases reg)
  note wf' = wf [unfolded reg]
  have room: "bucket_room reg \<longleftrightarrow> occupied_budget_bucket_len state \<noteq> length buckets"
    using wf' by (auto simp: bucket_room_def reg buckets_wf_def occupied_budget_bucket_len_def)
  have lookup: "find_budget_bucket_slot (take (occupied_budget_bucket_len state) buckets) (fst k) (snd k)
      = position (slot_match bucket_occ bucket_key k) buckets"
    using find_slot_wf [OF wf'] by simp
  show ?thesis
  proof (cases "position (slot_match bucket_occ bucket_key k) buckets")
    case (Some n)
    let ?b = "budget_bucket_state_of (buckets ! n)"
    have at: "bucket_at reg k = Some ?b" using Some by (simp add: reg bucket_at_position)
    have key: "state_key (snd (f ?b)) = k" using f bucket_at_key [OF at] by simp
    obtain r b' where fb: "f ?b = (r, b')" by (cases "f ?b")
    show ?thesis
      using write_slot [OF wf' Some, of b'] key fb wf at lookup Some
      by (cases r) (auto simp: admit_bucket_def apply_budget_bucket_def map_admit_def reg Let_def)
  next
    case None
    have at: "bucket_at reg k = None" using None by (simp add: reg bucket_at_position)
    have key: "state_key (snd (f i)) = k" using f i by simp
    obtain r b' where fb: "f i = (r, b')" by (cases "f i")
    show ?thesis
    proof (cases "bucket_room reg")
      case False
      then show ?thesis
        using None lookup room at wf
        by (simp add: admit_bucket_def apply_budget_bucket_def map_admit_def reg Let_def)
    next
      case True
      then have lt: "unat (ss_budget_buckets_len state) < length buckets"
        by (simp add: bucket_room_def reg occupied_budget_bucket_len_def)
      show ?thesis
        using write_new [OF wf' None _ lt, of b'] key fb wf at lookup None True room
        by (cases r) (auto simp: admit_bucket_def apply_budget_bucket_def map_admit_def reg Let_def
            occupied_budget_bucket_len_def)
    qed
  qed
qed

lemma visit_bucket_refines:
  assumes wf: "buckets_wf reg" and f: "\<And>b. state_key (snd (f b)) = state_key b"
  shows "buckets_wf (snd (visit_bucket k f reg)) \<and>
    map_prod id bucket_at (visit_bucket k f reg) = map_visit k f (bucket_at reg)"
proof -
  obtain state buckets where reg: "reg = (state, buckets)" by (cases reg)
  note wf' = wf [unfolded reg]
  have lookup: "find_budget_bucket_slot (take (occupied_budget_bucket_len state) buckets) (fst k) (snd k)
      = position (slot_match bucket_occ bucket_key k) buckets"
    using find_slot_wf [OF wf'] by simp
  show ?thesis
  proof (cases "position (slot_match bucket_occ bucket_key k) buckets")
    case (Some n)
    let ?b = "budget_bucket_state_of (buckets ! n)"
    have at: "bucket_at reg k = Some ?b" using Some by (simp add: reg bucket_at_position)
    have key: "state_key (snd (f ?b)) = k" using f bucket_at_key [OF at] by simp
    obtain r b' where fb: "f ?b = (r, b')" by (cases "f ?b")
    show ?thesis
      using write_slot [OF wf' Some, of b'] key fb wf at lookup Some
      by (cases r) (auto simp: visit_bucket_def existing_budget_bucket_def map_visit_def reg Let_def)
  next
    case None
    have at: "bucket_at reg k = None" using None by (simp add: reg bucket_at_position)
    show ?thesis
      using wf lookup None at by (simp add: visit_bucket_def existing_budget_bucket_def map_visit_def reg
          Let_def)
  qed
qed

interpretation bucket_table: keyed_store buckets_wf bucket_at bucket_room
  budget_bucket_capacity_exhausted state_key admit_bucket visit_bucket
proof unfold_locales
  show "bucket_at s k = Some v \<Longrightarrow> state_key v = k" for s k v by (rule bucket_at_key)
qed (use admit_bucket_refines visit_bucket_refines in blast)+

text \<open>There is room exactly when fewer keys than the configured capacity are stored.\<close>

lemma card_bucket_dom:
  assumes "buckets_wf (state, buckets)"
  shows "card (dom (bucket_at (state, buckets))) = unat (ss_budget_buckets_len state)"
proof -
  let ?n = "unat (ss_budget_buckets_len state)"
  have le: "?n \<le> length buckets" and d: "keys_distinct bucket_occ bucket_key buckets"
    and occ: "\<And>i. i < length buckets \<Longrightarrow> bucket_occ (buckets ! i) \<longleftrightarrow> i < ?n"
    using assms by (simp_all add: buckets_wf_def)
  have "dom (bucket_at (state, buckets)) = (\<lambda>i. bucket_key (buckets ! i)) ` {..<?n}"
  proof
    show "dom (bucket_at (state, buckets)) \<subseteq> (\<lambda>i. bucket_key (buckets ! i)) ` {..<?n}"
    proof
      fix k assume "k \<in> dom (bucket_at (state, buckets))"
      then have "slot_lookup bucket_occ bucket_key buckets k \<noteq> None"
        by (simp add: bucket_at_def dom_def)
      then obtain i where "i < length buckets" "slot_match bucket_occ bucket_key k (buckets ! i)"
        unfolding bucket_slots.lookup_None by blast
      then have "i < ?n" "k = bucket_key (buckets ! i)" using occ unfolding slot_match_def by blast+
      then show "k \<in> (\<lambda>i. bucket_key (buckets ! i)) ` {..<?n}" by blast
    qed
    show "(\<lambda>i. bucket_key (buckets ! i)) ` {..<?n} \<subseteq> dom (bucket_at (state, buckets))"
    proof (rule image_subsetI)
      fix i assume "i \<in> {..<?n}"
      then have i: "i < length buckets" "slot_match bucket_occ bucket_key (bucket_key (buckets ! i)) (buckets ! i)"
        using le occ unfolding slot_match_def by auto
      then have "slot_lookup bucket_occ bucket_key buckets (bucket_key (buckets ! i)) = Some (buckets ! i)"
        using bucket_slots.lookup_Some [OF d] by blast
      then show "bucket_key (buckets ! i) \<in> dom (bucket_at (state, buckets))"
        by (simp add: bucket_at_def dom_def)
    qed
  qed
  moreover have "inj_on (\<lambda>i. bucket_key (buckets ! i)) {..<?n}"
    using d le by (intro inj_onI) (simp add: keys_distinct_def occ)
  ultimately show ?thesis by (simp add: card_image)
qed

lemma bucket_room_card:
  assumes "buckets_wf (state, buckets)"
  shows "bucket_room (state, buckets) \<longleftrightarrow>
    card (dom (bucket_at (state, buckets))) < unat (ss_budget_bucket_capacity state)"
  using assms by (simp add: card_bucket_dom bucket_room_def occupied_budget_bucket_len_def)
     (simp add: buckets_wf_def)

text \<open>
  C7: the bucket table implements a partial function of bounded size: admitting on a
  policy and scope hash runs the callback on the stored bucket, or on the initial one when
  the key is new and fewer keys than the capacity are stored; the result is the callback's,
  the bucket it left is kept only when it succeeded, a full table is an error, and no other
  bucket changes. Visiting an existing bucket never adds one. Both keep the table well formed.
\<close>

theorem bucket_table_refines_map:
  assumes "buckets_wf (state, buckets)" and "state_key i = (p, h)"
    and "\<And>b. state_key (snd (f b)) = state_key b" and "\<And>b. state_key (snd (g b)) = state_key b"
  shows "map_prod id bucket_at (apply_budget_bucket p h i f (state, buckets))
        = map_admit (card (dom (bucket_at (state, buckets))) < unat (ss_budget_bucket_capacity state))
            budget_bucket_capacity_exhausted (p, h) i f (bucket_at (state, buckets))
    \<and> buckets_wf (snd (apply_budget_bucket p h i f (state, buckets)))
    \<and> map_prod id bucket_at (existing_budget_bucket p h g (state, buckets))
        = map_visit (p, h) g (bucket_at (state, buckets))
    \<and> buckets_wf (snd (existing_budget_bucket p h g (state, buckets)))"
  using bucket_table.admit_refines [OF assms(1-3)] bucket_table.visit_refines [OF assms(1,4), of "(p, h)"]
  by (simp add: admit_bucket_def visit_bucket_def bucket_room_card [OF assms(1)])

lemma buckets_wf_initial:
  "buckets_wf (state\<lparr>ss_budget_buckets_len := 0\<rparr>,
     replicate (unat (ss_budget_bucket_capacity state)) pwb_budget_bucket_default)"
  by (simp add: buckets_wf_def bucket_slots.blank_free bucket_slots.distinct_blank)

definition sample_bucket :: budget_bucket_state where
  "sample_bucket =
     \<lparr>bb_policy_id = 7, bb_scope_hash = 99, bb_available_bytes = 1024, bb_max_burst_bytes = 4096,
      bb_rate_bytes_per_sec = 512, bb_last_refill_epoch_ms = 123, bb_debt_bytes = 0\<rparr>"

theorem bucket_table_refines_map_witness:
  "bucket_at (snd (apply_budget_bucket 7 99 sample_bucket (\<lambda>b. (Inr (), b))
     (test_state 1, [pwb_budget_bucket_default]))) = [(7, 99) \<mapsto> sample_bucket]"
proof -
  let ?reg = "(test_state 1, [pwb_budget_bucket_default])"
  have wf: "buckets_wf ?reg"
    by (simp add: buckets_wf_def bucket_slots.blank_free keys_distinct_def)
  have empty: "bucket_at ?reg = Map.empty"
    by (simp add: fun_eq_iff bucket_at_def slot_lookup_def slot_match_def bucket_slots.blank_free)
  have key: "state_key sample_bucket = (7, 99)" by (simp add: state_key_def sample_bucket_def)
  have "map_prod id bucket_at (apply_budget_bucket 7 99 sample_bucket (\<lambda>b. (Inr (), b)) ?reg)
      = (Inr (), [(7, 99) \<mapsto> sample_bucket])"
    using bucket_table_refines_map [OF wf key, of "\<lambda>b. (Inr (), b)" "\<lambda>b. (Inr (), b)"]
    by (simp add: empty map_admit_def)
  then show ?thesis by (metis snd_conv snd_map_prod)
qed

end
