(* ===== verification/Pwb_Profiles.thy ===== *)
theory Pwb_Profiles
  imports Pwb_Records "HOL-Library.Product_Lexorder"
begin

text \<open>
  The shared cache of query profiles, \<^verbatim>\<open>src/shmem/profiles.rs\<close>: the functions that run under
  the lock, on the header and the slice of entries, with the state machine of the restore
  from the catalog and the schedule of persisting. The cache refines a partial function from
  keys (an optional scope hash and a query id) to profiles.
\<close>

type_synonym profile_region = "pwb_shared_state \<times> pwb_profile_entry list"

definition PROFILE_RESTORE_NOT_ATTEMPTED :: u8 where "PROFILE_RESTORE_NOT_ATTEMPTED = 0"
definition PROFILE_RESTORE_IN_PROGRESS :: u8 where "PROFILE_RESTORE_IN_PROGRESS = 1"
definition PROFILE_RESTORE_LOADED :: u8 where "PROFILE_RESTORE_LOADED = 2"
definition PROFILE_RESTORE_FAILED :: u8 where "PROFILE_RESTORE_FAILED = 3"

lemmas restore_state_defs = PROFILE_RESTORE_NOT_ATTEMPTED_def PROFILE_RESTORE_IN_PROGRESS_def
  PROFILE_RESTORE_LOADED_def PROFILE_RESTORE_FAILED_def

definition initial_profile_restore_state :: u8 where
  "initial_profile_restore_state = PROFILE_RESTORE_NOT_ATTEMPTED"

definition profile_cache_capacity_exhausted :: pwb_error where
  "profile_cache_capacity_exhausted = Internal ''pg_wal_budget profile cache capacity exhausted''"

section \<open>Finding slots\<close>

definition profile_has_key :: "scope_hash option \<Rightarrow> query_id \<Rightarrow> pwb_profile_entry \<Rightarrow> bool" where
  "profile_has_key scope_hash query_id e \<longleftrightarrow>
     pe_occupied e = 1 \<and> pe_query_id e = query_id
   \<and> (case scope_hash of
        None \<Rightarrow> pe_has_scope_hash e = 0
      | Some h \<Rightarrow> pe_has_scope_hash e = 1 \<and> pe_scope_hash e = h)"

definition find_profile_slot ::
  "pwb_profile_entry list \<Rightarrow> scope_hash option \<Rightarrow> query_id \<Rightarrow> nat option" where
  "find_profile_slot profiles scope_hash query_id =
     position (profile_has_key scope_hash query_id) profiles"

definition find_empty_profile_slot :: "pwb_profile_entry list \<Rightarrow> nat option" where
  "find_empty_profile_slot profiles = position (\<lambda>e. pe_occupied e = 0) profiles"

text \<open>\<open>Iterator::min_by_key\<close>: the first of the least elements.\<close>

fun min_by_key :: "('a \<Rightarrow> 'b::linorder) \<Rightarrow> 'a list \<Rightarrow> 'a option" where
  "min_by_key f [] = None"
| "min_by_key f (x # xs) = Some (foldl (\<lambda>least y. if f y < f least then y else least) x xs)"

definition find_profile_eviction_slot :: "pwb_profile_entry list \<Rightarrow> nat option" where
  "find_profile_eviction_slot profiles =
     map_option fst
       (min_by_key (\<lambda>(slot, e). (pq_last_seen_epoch_ms (pe_profile e), slot))
         (filter (\<lambda>(slot, e). pe_occupied e = 1) (enumerate 0 profiles)))"

section \<open>Operations\<close>

definition reset_profiles_locked :: "profile_region \<Rightarrow> profile_region" where
  "reset_profiles_locked reg =
     (case reg of (state, profiles) \<Rightarrow>
       (state\<lparr>ss_profiles_len := 0, ss_profile_restore_state := PROFILE_RESTORE_LOADED,
              ss_profile_restore_started_epoch_ms := 0, ss_last_profile_persist_epoch_ms := 0,
              ss_profile_dirty_count := 0\<rparr>,
        map (\<lambda>_. pwb_profile_entry_default) profiles))"

definition query_profile_snapshot_of :: "decoded_profile_entry \<Rightarrow> query_profile_snapshot" where
  "query_profile_snapshot_of d =
     \<lparr>qs_scope_hash = dp_scope_hash d, qs_query_id = dp_query_id d,
      qs_profile = rust_profile (dp_profile d)\<rparr>"

definition snapshot_profiles_from_slice ::
  "pwb_profile_entry list \<Rightarrow> query_profile_snapshot list pwb_result" where
  "snapshot_profiles_from_slice profiles =
     rtraverse (\<lambda>e. rbind (profile_entry_decode e) (\<lambda>d. Inr (query_profile_snapshot_of d)))
       (filter (\<lambda>e. pe_occupied e = 1) profiles)"

text \<open>The loop of the lookup; the accumulator is the first global profile seen.\<close>

fun lookup_profile ::
  "scope_hash \<Rightarrow> query_id \<Rightarrow> query_wal_profile option \<Rightarrow> pwb_profile_entry list
     \<Rightarrow> query_wal_profile option" where
  "lookup_profile scope_hash query_id global_profile [] = global_profile"
| "lookup_profile scope_hash query_id global_profile (e # es) =
     (if pe_occupied e \<noteq> 1 \<or> pe_query_id e \<noteq> query_id
      then lookup_profile scope_hash query_id global_profile es
      else if pe_has_scope_hash e = 1 \<and> pe_scope_hash e = scope_hash
      then Some (rust_profile (pe_profile e))
      else if pe_has_scope_hash e = 0 \<and> global_profile = None
      then lookup_profile scope_hash query_id (Some (rust_profile (pe_profile e))) es
      else lookup_profile scope_hash query_id global_profile es)"

definition lookup_scoped_or_global_query_profile_locked ::
  "scope_hash \<Rightarrow> query_id \<Rightarrow> pwb_profile_entry list \<Rightarrow> query_wal_profile option" where
  "lookup_scoped_or_global_query_profile_locked scope_hash query_id profiles =
     lookup_profile scope_hash query_id None profiles"

definition count_new_profile :: "pwb_shared_state \<Rightarrow> pwb_shared_state" where
  "count_new_profile state =
     state\<lparr>ss_profiles_len := min (sat_add (ss_profiles_len state) 1) (ss_profile_cache_capacity state)\<rparr>"

definition upsert_query_profile_locked ::
  "scope_hash option \<Rightarrow> query_id \<Rightarrow> wal_bytes \<Rightarrow> epoch_millis \<Rightarrow> profile_ewma_weights
     \<Rightarrow> profile_region \<Rightarrow> unit pwb_result \<times> profile_region" where
  "upsert_query_profile_locked scope_hash query_id actual_wal_bytes now_epoch_ms ewma_weights reg =
     (case reg of (state, profiles) \<Rightarrow>
      case find_profile_slot profiles scope_hash query_id of
        Some slot \<Rightarrow>
          let profile = record_observation (rust_profile (pe_profile (profiles ! slot)))
                actual_wal_bytes now_epoch_ms (ew_numerator ewma_weights) (ew_denominator ewma_weights)
          in (Inr (), (state, profiles[slot := profile_entry_encode scope_hash query_id (raw_profile profile)]))
      | None \<Rightarrow>
          let new = profile_entry_encode scope_hash query_id
                      (raw_profile (query_profile_new actual_wal_bytes now_epoch_ms)) in
          case find_empty_profile_slot profiles of
            Some slot \<Rightarrow> (Inr (), (count_new_profile state, profiles[slot := new]))
          | None \<Rightarrow>
              (case find_profile_eviction_slot profiles of
                 None \<Rightarrow> (Inl profile_cache_capacity_exhausted, reg)
               | Some slot \<Rightarrow> (Inr (), (state, profiles[slot := new]))))"

definition upsert_scoped_and_global_query_profiles_locked ::
  "scope_hash \<Rightarrow> query_id \<Rightarrow> wal_bytes \<Rightarrow> epoch_millis \<Rightarrow> profile_ewma_weights
     \<Rightarrow> profile_region \<Rightarrow> unit pwb_result \<times> profile_region" where
  "upsert_scoped_and_global_query_profiles_locked scope_hash query_id actual_wal_bytes now_epoch_ms w reg =
     sbind (upsert_query_profile_locked (Some scope_hash) query_id actual_wal_bytes now_epoch_ms w reg)
       (\<lambda>_ reg. upsert_query_profile_locked None query_id actual_wal_bytes now_epoch_ms w reg)"

definition upsert_and_mark_dirty ::
  "scope_hash \<Rightarrow> query_id \<Rightarrow> wal_bytes \<Rightarrow> epoch_millis \<Rightarrow> profile_ewma_weights
     \<Rightarrow> profile_region \<Rightarrow> unit pwb_result \<times> profile_region" where
  "upsert_and_mark_dirty scope_hash query_id actual_wal_bytes now_epoch_ms w reg =
     sbind (upsert_scoped_and_global_query_profiles_locked scope_hash query_id actual_wal_bytes
              now_epoch_ms w reg)
       (\<lambda>_ (state, profiles).
          (Inr (), (state\<lparr>ss_profile_dirty_count := sat_add (ss_profile_dirty_count state) 1\<rparr>, profiles)))"

definition upsert_restored_query_profile_locked ::
  "query_profile_snapshot \<Rightarrow> profile_region \<Rightarrow> unit pwb_result \<times> profile_region" where
  "upsert_restored_query_profile_locked snapshot reg =
     (case reg of (state, profiles) \<Rightarrow>
      let last_seen = (\<lambda>slot. pq_last_seen_epoch_ms (pe_profile (profiles ! slot)));
          new = profile_entry_encode (qs_scope_hash snapshot) (qs_query_id snapshot)
                  (raw_profile (qs_profile snapshot)) in
      if profiles = [] then (Inl profile_cache_capacity_exhausted, reg)
      else case find_profile_slot profiles (qs_scope_hash snapshot) (qs_query_id snapshot) of
        Some slot \<Rightarrow>
          if last_seen slot \<le> qp_last_seen_epoch_ms (qs_profile snapshot)
          then (Inr (), (state, profiles[slot := new]))
          else (Inr (), reg)
      | None \<Rightarrow>
          (case find_empty_profile_slot profiles of
             Some slot \<Rightarrow> (Inr (), (count_new_profile state, profiles[slot := new]))
           | None \<Rightarrow>
               (case find_profile_eviction_slot profiles of
                  None \<Rightarrow> (Inl profile_cache_capacity_exhausted, reg)
                | Some slot \<Rightarrow>
                    if last_seen slot > qp_last_seen_epoch_ms (qs_profile snapshot)
                    then (Inr (), reg)
                    else (Inr (), (state, profiles[slot := new])))))"

section \<open>Restoring and persisting\<close>

definition begin_profile_restore_locked ::
  "epoch_millis \<Rightarrow> epoch_millis \<Rightarrow> pwb_shared_state \<Rightarrow> bool \<times> pwb_shared_state" where
  "begin_profile_restore_locked now_epoch_ms stale_after_ms state =
     (let stale_restore =
            ss_profile_restore_state state = PROFILE_RESTORE_IN_PROGRESS
          \<and> stale_after_ms \<le> sat_sub now_epoch_ms (ss_profile_restore_started_epoch_ms state)
      in if ss_profile_restore_state state \<in> {PROFILE_RESTORE_NOT_ATTEMPTED, PROFILE_RESTORE_FAILED}
            \<or> stale_restore
         then (True, state\<lparr>ss_profile_restore_state := PROFILE_RESTORE_IN_PROGRESS,
                           ss_profile_restore_started_epoch_ms := now_epoch_ms\<rparr>)
         else (False, state))"

fun restore_all :: "query_profile_snapshot list \<Rightarrow> profile_region \<Rightarrow> unit pwb_result \<times> profile_region" where
  "restore_all [] reg = (Inr (), reg)"
| "restore_all (s # ss) reg =
     sbind (upsert_restored_query_profile_locked s reg) (\<lambda>_ reg. restore_all ss reg)"

definition finish_profile_restore_locked ::
  "query_profile_snapshot list \<Rightarrow> profile_region \<Rightarrow> unit pwb_result \<times> profile_region" where
  "finish_profile_restore_locked restored reg =
     sbind (restore_all restored reg) (\<lambda>_ (state, profiles).
       (Inr (), (state\<lparr>ss_profile_restore_state := PROFILE_RESTORE_LOADED,
                       ss_profile_restore_started_epoch_ms := 0\<rparr>, profiles)))"

definition mark_profile_restore_failed_locked :: "pwb_shared_state \<Rightarrow> pwb_shared_state" where
  "mark_profile_restore_failed_locked state =
     (if ss_profile_restore_state state = PROFILE_RESTORE_IN_PROGRESS
      then state\<lparr>ss_profile_restore_state := PROFILE_RESTORE_FAILED,
                 ss_profile_restore_started_epoch_ms := 0\<rparr>
      else state)"

definition reserve_profile_persist_locked ::
  "epoch_millis \<Rightarrow> epoch_millis \<Rightarrow> profile_region
     \<Rightarrow> query_profile_snapshot list option pwb_result \<times> profile_region" where
  "reserve_profile_persist_locked now_epoch_ms interval_ms reg =
     (case reg of (state, profiles) \<Rightarrow>
      if ss_profile_dirty_count state = 0
         \<or> sat_sub now_epoch_ms (ss_last_profile_persist_epoch_ms state) < interval_ms
      then (Inr None, reg)
      else case snapshot_profiles_from_slice profiles of
        Inl e \<Rightarrow> (Inl e, reg)
      | Inr snapshots \<Rightarrow>
          (Inr (Some snapshots), (state\<lparr>ss_last_profile_persist_epoch_ms := now_epoch_ms\<rparr>, profiles)))"

definition snapshot_profiles_for_persist_locked ::
  "epoch_millis \<Rightarrow> profile_region \<Rightarrow> query_profile_snapshot list pwb_result \<times> profile_region" where
  "snapshot_profiles_for_persist_locked now_epoch_ms reg =
     (case reg of (state, profiles) \<Rightarrow>
       (snapshot_profiles_from_slice profiles,
        (state\<lparr>ss_last_profile_persist_epoch_ms := now_epoch_ms\<rparr>, profiles)))"

definition complete_profile_persist_locked :: "bool \<Rightarrow> pwb_shared_state \<Rightarrow> pwb_shared_state" where
  "complete_profile_persist_locked success state =
     (if success then state\<lparr>ss_profile_dirty_count := 0\<rparr> else state)"

section \<open>The cache as a partial function\<close>

type_synonym profile_key = "scope_hash option \<times> query_id"

definition profile_occ :: "pwb_profile_entry \<Rightarrow> bool" where
  "profile_occ e \<longleftrightarrow> pe_occupied e = 1"

definition entry_key :: "pwb_profile_entry \<Rightarrow> scope_hash option option \<times> query_id" where
  "entry_key e =
     (if pe_has_scope_hash e = 0 then Some None
      else if pe_has_scope_hash e = 1 then Some (Some (pe_scope_hash e)) else None,
      pe_query_id e)"

definition profile_at :: "pwb_profile_entry list \<Rightarrow> profile_key \<rightharpoonup> query_wal_profile" where
  "profile_at profiles k =
     map_option (\<lambda>e. rust_profile (pe_profile e))
       (slot_lookup profile_occ entry_key profiles (Some (fst k), snd k))"

definition entry_ok :: "pwb_profile_entry \<Rightarrow> bool" where
  "entry_ok e \<longleftrightarrow> pe_occupied e = 0
     \<or> pe_occupied e = 1 \<and> pe_has_scope_hash e \<in> {0, 1} \<and> profile_ok (rust_profile (pe_profile e))"

definition profiles_wf :: "profile_region \<Rightarrow> bool" where
  "profiles_wf reg \<longleftrightarrow>
     (case reg of (state, profiles) \<Rightarrow>
        length profiles = unat (ss_profile_cache_capacity state)
      \<and> unat (ss_profiles_len state) = length (filter profile_occ profiles)
      \<and> keys_distinct profile_occ entry_key profiles
      \<and> (\<forall>e \<in> set profiles. entry_ok e))"

definition profiles_full :: "pwb_profile_entry list \<Rightarrow> bool" where
  "profiles_full profiles \<longleftrightarrow> (\<forall>e \<in> set profiles. pe_occupied e \<noteq> 0)"

text \<open>
  Putting a profile: a known key or a free slot keeps everything else; otherwise a key with
  the oldest time makes room.
\<close>

definition oldest_key :: "(profile_key \<rightharpoonup> query_wal_profile) \<Rightarrow> profile_key \<Rightarrow> bool" where
  "oldest_key m v \<longleftrightarrow> (\<exists>pv. m v = Some pv \<and>
     (\<forall>k p. m k = Some p \<longrightarrow> qp_last_seen_epoch_ms pv \<le> qp_last_seen_epoch_ms p))"

definition profile_put ::
  "bool \<Rightarrow> profile_key \<Rightarrow> query_wal_profile \<Rightarrow> (profile_key \<rightharpoonup> query_wal_profile)
     \<Rightarrow> (profile_key \<rightharpoonup> query_wal_profile) \<Rightarrow> bool" where
  "profile_put full k p m m' \<longleftrightarrow>
     (if m k \<noteq> None \<or> \<not> full then m' = m(k \<mapsto> p)
      else \<exists>v. oldest_key m v \<and> m' = m(v := None, k \<mapsto> p))"

interpretation profile_slots: slot_table profile_occ entry_key pwb_profile_entry_default
  by unfold_locales (simp add: profile_occ_def pwb_profile_entry_default_def)

lemma profile_has_key_match: "profile_has_key h q = slot_match profile_occ entry_key (Some h, q)"
  by (auto simp: fun_eq_iff profile_has_key_def slot_match_def profile_occ_def entry_key_def
      split: option.splits)

lemma find_profile_slot_match:
  "find_profile_slot profiles h q = position (slot_match profile_occ entry_key (Some h, q)) profiles"
  by (simp add: find_profile_slot_def profile_has_key_match)

lemma encode_key [simp]: "entry_key (profile_entry_encode h q p) = (Some h, q)"
  by (simp add: entry_key_def profile_entry_encode_def split: option.splits)

lemma encode_occ [simp]: "profile_occ (profile_entry_encode h q p)"
  by (simp add: profile_occ_def profile_entry_encode_def)

lemma encode_profile [simp]: "pe_profile (profile_entry_encode h q p) = p"
  by (simp add: profile_entry_encode_def)

lemma rust_raw [simp]: "rust_profile (raw_profile p) = p"
  by (simp add: rust_profile_def raw_profile_def)

lemma entry_ok_encode: "profile_ok p \<Longrightarrow> entry_ok (profile_entry_encode h q (raw_profile p))"
  by (simp add: entry_ok_def profile_entry_encode_def)

text \<open>Every profile of a well-formed cache is at a key.\<close>

lemma occupied_at:
  assumes "profiles_wf (state, profiles)" and "i < length profiles" and "profile_occ (profiles ! i)"
  obtains k where "entry_key (profiles ! i) = (Some (fst k), snd k)"
    and "profile_at profiles k = Some (rust_profile (pe_profile (profiles ! i)))"
proof -
  have ok: "entry_ok (profiles ! i)" and d: "keys_distinct profile_occ entry_key profiles"
    using assms by (simp_all add: profiles_wf_def)
  then obtain h where h: "entry_key (profiles ! i) = (Some h, pe_query_id (profiles ! i))"
    using assms(3) by (auto simp: entry_ok_def profile_occ_def entry_key_def)
  have "slot_lookup profile_occ entry_key profiles (Some h, pe_query_id (profiles ! i)) = Some (profiles ! i)"
    unfolding profile_slots.lookup_Some [OF d] using assms(2,3) h by (auto simp: slot_match_def)
  then show thesis using that [of "(h, pe_query_id (profiles ! i))"] h by (simp add: profile_at_def)
qed

lemma at_occupied:
  assumes "profile_at profiles k = Some p"
  obtains i where "i < length profiles" and "profile_occ (profiles ! i)"
    and "entry_key (profiles ! i) = (Some (fst k), snd k)" and "p = rust_profile (pe_profile (profiles ! i))"
  using assms by (auto simp: profile_at_def slot_lookup_def slot_match_def dest!: position_Some_nth)

text \<open>Writing a profile into a slot when no other slot has its key.\<close>

lemma put_slot:
  assumes wf: "profiles_wf (state, profiles)" and i: "i < length profiles" and p: "profile_ok p"
    and free: "\<And>j. j < length profiles \<Longrightarrow> j \<noteq> i \<Longrightarrow>
      \<not> slot_match profile_occ entry_key (Some h, q) (profiles ! j)"
  defines "profiles' \<equiv> profiles[i := profile_entry_encode h q (raw_profile p)]"
  shows "profiles_wf (if profile_occ (profiles ! i) then state else count_new_profile state, profiles')"
    and "profile_at profiles' k =
      (if k = (h, q) then Some p
       else if slot_match profile_occ entry_key (Some (fst k), snd k) (profiles ! i) then None
       else profile_at profiles k)"
proof -
  let ?e = "profile_entry_encode h q (raw_profile p)"
  have d: "keys_distinct profile_occ entry_key profiles"
    and len: "length profiles = unat (ss_profile_cache_capacity state)"
    and cnt: "unat (ss_profiles_len state) = length (filter profile_occ profiles)"
    and ok: "\<forall>e \<in> set profiles. entry_ok e" using wf by (simp_all add: profiles_wf_def)
  have free': "\<not> slot_match profile_occ entry_key (entry_key ?e) (profiles ! j)"
    if "j < length profiles" "j \<noteq> i" for j using free that by simp
  have "\<forall>e \<in> set profiles'. entry_ok e"
    using ok p set_update_subset_insert [of profiles i ?e]
    by (auto simp: profiles'_def entry_ok_encode)
  moreover have "keys_distinct profile_occ entry_key profiles'"
    unfolding profiles'_def by (rule profile_slots.distinct_put [OF d i free'])
  moreover have "unat (ss_profiles_len (count_new_profile state)) = Suc (length (filter profile_occ profiles))"
    if "\<not> profile_occ (profiles ! i)"
  proof -
    have "length (filter profile_occ profiles) < unat (ss_profile_cache_capacity state)"
      using length_filter_less [of i profiles profile_occ] i that len by simp
    then show ?thesis
      using unat_bound [of "ss_profile_cache_capacity state"]
      by (simp add: count_new_profile_def unat_simps cnt)
  qed
  ultimately show "profiles_wf (if profile_occ (profiles ! i) then state else count_new_profile state, profiles')"
    using len cnt i
    by (simp add: profiles_wf_def profiles'_def length_filter_update count_new_profile_def)
  show "profile_at profiles' k =
      (if k = (h, q) then Some p
       else if slot_match profile_occ entry_key (Some (fst k), snd k) (profiles ! i) then None
       else profile_at profiles k)"
    using profile_slots.lookup_put [OF d i encode_occ free', of "(Some (fst k), snd k)"]
    by (cases k) (auto simp: profile_at_def profiles'_def)
qed

section \<open>Eviction\<close>

lemma foldl_min:
  "foldl (\<lambda>least y. if f y < f least then y else least) x xs \<in> insert x (set xs)"
  "y \<in> insert x (set xs) \<Longrightarrow>
     f (foldl (\<lambda>least y. if f y < f least then y else least) x xs) \<le> (f y :: 'b::linorder)"
proof (induction xs arbitrary: x y)
  case (Cons z zs)
  { case 1 show ?case using Cons.IH(1) [of "if f z < f x then z else x"] by auto }
  { case 2
    let ?x = "if f z < f x then z else x"
    have "f (foldl (\<lambda>least y. if f y < f least then y else least) ?x zs) \<le> f u"
      if "u \<in> insert ?x (set zs)" for u using Cons.IH(2) that .
    moreover have "f ?x \<le> f z" "f ?x \<le> f x" by auto
    ultimately show ?case using 2 by (auto intro: order_trans split: if_splits) }
qed simp_all

lemma min_by_key_Some:
  assumes "min_by_key f xs = Some x"
  shows "x \<in> set xs" and "\<And>y. y \<in> set xs \<Longrightarrow> f x \<le> f y"
proof -
  obtain z zs where xs: "xs = z # zs" and x: "x = foldl (\<lambda>least y. if f y < f least then y else least) z zs"
    using assms by (cases xs) auto
  show "x \<in> set xs" using foldl_min(1) [of f z zs] by (simp add: xs x)
  show "f x \<le> f y" if "y \<in> set xs" for y
    unfolding x by (rule foldl_min(2)) (use that xs in simp)
qed

lemma eviction_slot:
  assumes "find_profile_eviction_slot profiles = Some i"
  shows "i < length profiles" and "pe_occupied (profiles ! i) = 1"
    and "\<And>j. j < length profiles \<Longrightarrow> pe_occupied (profiles ! j) = 1 \<Longrightarrow>
      pq_last_seen_epoch_ms (pe_profile (profiles ! i)) \<le> pq_last_seen_epoch_ms (pe_profile (profiles ! j))"
proof -
  let ?f = "\<lambda>(slot, e). (pq_last_seen_epoch_ms (pe_profile e), slot)"
    and ?xs = "filter (\<lambda>(slot, e). pe_occupied e = 1) (enumerate 0 profiles)"
  from assms obtain e where min: "min_by_key ?f ?xs = Some (i, e)"
    by (auto simp: find_profile_eviction_slot_def)
  have e: "i < length profiles" "e = profiles ! i" "pe_occupied e = 1"
    using min_by_key_Some(1) [OF min] by (auto simp: in_set_enumerate_eq)
  then show "i < length profiles" "pe_occupied (profiles ! i) = 1" by simp_all
  fix j assume "j < length profiles" "pe_occupied (profiles ! j) = 1"
  then have "(j, profiles ! j) \<in> set ?xs" by (simp add: in_set_enumerate_eq)
  from min_by_key_Some(2) [OF min this] e
  show "pq_last_seen_epoch_ms (pe_profile (profiles ! i)) \<le> pq_last_seen_epoch_ms (pe_profile (profiles ! j))"
    by (auto simp: less_eq_prod_def)
qed

lemma eviction_slot_None:
  "find_profile_eviction_slot profiles = None \<longleftrightarrow> (\<forall>e \<in> set profiles. pe_occupied e \<noteq> 1)"
proof -
  have "min_by_key f xs = None \<longleftrightarrow> xs = []" for f :: "nat \<times> pwb_profile_entry \<Rightarrow> u64 \<times> nat" and xs
    by (cases xs) simp_all
  then have "find_profile_eviction_slot profiles = None \<longleftrightarrow>
      (\<forall>x \<in> set (enumerate 0 profiles). pe_occupied (snd x) \<noteq> 1)"
    by (simp add: find_profile_eviction_slot_def filter_empty_conv split_beta)
  also have "\<dots> \<longleftrightarrow> (\<forall>e \<in> set (map snd (enumerate 0 profiles)). pe_occupied e \<noteq> 1)"
    by (simp del: map_snd_enumerate)
  finally show ?thesis by (simp only: map_snd_enumerate)
qed

text \<open>An eviction slot of a well-formed cache holds an oldest key.\<close>

lemma eviction_oldest:
  assumes wf: "profiles_wf (state, profiles)" and ev: "find_profile_eviction_slot profiles = Some i"
  obtains v where "oldest_key (profile_at profiles) v"
    and "entry_key (profiles ! i) = (Some (fst v), snd v)" and "profile_occ (profiles ! i)"
    and "profile_at profiles v = Some (rust_profile (pe_profile (profiles ! i)))"
proof -
  note e = eviction_slot [OF ev]
  have occ: "profile_occ (profiles ! i)" using e by (simp add: profile_occ_def)
  from occupied_at [OF wf e(1) occ] obtain v where v: "entry_key (profiles ! i) = (Some (fst v), snd v)"
    "profile_at profiles v = Some (rust_profile (pe_profile (profiles ! i)))" .
  have "oldest_key (profile_at profiles) v"
    unfolding oldest_key_def
  proof (intro exI conjI allI impI)
    show "profile_at profiles v = Some (rust_profile (pe_profile (profiles ! i)))" by (rule v)
    fix k p assume "profile_at profiles k = Some p"
    then obtain j where "j < length profiles" "profile_occ (profiles ! j)"
      "p = rust_profile (pe_profile (profiles ! j))" by (rule at_occupied)
    then show "qp_last_seen_epoch_ms (rust_profile (pe_profile (profiles ! i))) \<le> qp_last_seen_epoch_ms p"
      using e(3) [of j] by (simp add: rust_profile_def profile_occ_def)
  qed
  then show thesis using that v occ by blast
qed

lemma find_none_full:
  assumes wf: "profiles_wf (state, profiles)"
  shows "find_empty_profile_slot profiles = None \<longleftrightarrow> profiles_full profiles"
    and "profiles_full profiles \<Longrightarrow> find_profile_eviction_slot profiles = None \<longleftrightarrow> profiles = []"
proof -
  show "find_empty_profile_slot profiles = None \<longleftrightarrow> profiles_full profiles"
    by (simp add: find_empty_profile_slot_def profiles_full_def position_None)
  assume "profiles_full profiles"
  then have "\<forall>e \<in> set profiles. pe_occupied e = 1"
    using wf by (auto simp: profiles_full_def profiles_wf_def entry_ok_def)
  then show "find_profile_eviction_slot profiles = None \<longleftrightarrow> profiles = []"
    by (auto simp: eviction_slot_None dest: hd_in_set)
qed

section \<open>Placing a profile\<close>

text \<open>The choice of a slot that upserting and restoring share.\<close>

definition place_profile ::
  "scope_hash option \<Rightarrow> query_id \<Rightarrow> query_wal_profile \<Rightarrow> profile_region
     \<Rightarrow> unit pwb_result \<times> profile_region" where
  "place_profile h q p reg =
     (case reg of (state, profiles) \<Rightarrow>
      let new = profile_entry_encode h q (raw_profile p) in
      case find_profile_slot profiles h q of
        Some slot \<Rightarrow> (Inr (), (state, profiles[slot := new]))
      | None \<Rightarrow>
          (case find_empty_profile_slot profiles of
            Some slot \<Rightarrow> (Inr (), (count_new_profile state, profiles[slot := new]))
          | None \<Rightarrow>
              (case find_profile_eviction_slot profiles of
                 None \<Rightarrow> (Inl profile_cache_capacity_exhausted, reg)
               | Some slot \<Rightarrow> (Inr (), (state, profiles[slot := new])))))"

lemma profile_at_slot:
  "find_profile_slot profiles h q = None \<longleftrightarrow> profile_at profiles (h, q) = None"
  "find_profile_slot profiles h q = Some i \<Longrightarrow>
     profile_at profiles (h, q) = Some (rust_profile (pe_profile (profiles ! i)))"
  by (simp_all add: find_profile_slot_match profile_at_def slot_lookup_def)

lemma place_profile_spec:
  assumes wf: "profiles_wf (state, profiles)" and p: "profile_ok p" and ne: "profiles \<noteq> []"
  shows "\<exists>state' profiles'. place_profile h q p (state, profiles) = (Inr (), (state', profiles'))
    \<and> profiles_wf (state', profiles')
    \<and> profile_put (profiles_full profiles) (h, q) p (profile_at profiles) (profile_at profiles')"
proof (cases "find_profile_slot profiles h q")
  case (Some i)
  have pos: "position (slot_match profile_occ entry_key (Some h, q)) profiles = Some i"
    using Some by (simp add: find_profile_slot_match)
  note i = position_SomeD(1,2) [OF pos]
  have d: "keys_distinct profile_occ entry_key profiles" using wf by (simp add: profiles_wf_def)
  note put = put_slot [OF wf i(1) p profile_slots.free_if_position_Some [OF d pos]]
  have "profile_at (profiles[i := profile_entry_encode h q (raw_profile p)]) = (profile_at profiles)((h, q) \<mapsto> p)"
    using i(2) by (auto simp: fun_eq_iff put(2) slot_match_def)
  then show ?thesis
    using put(1) i(2) Some profile_at_slot(2) [OF Some]
    by (simp add: place_profile_def slot_match_def profile_put_def)
next
  case None
  then have pos: "position (slot_match profile_occ entry_key (Some h, q)) profiles = None"
    by (simp add: find_profile_slot_match)
  note free = profile_slots.free_if_position_None [OF pos]
  have at: "profile_at profiles (h, q) = None" using None by (simp add: profile_at_slot)
  show ?thesis
  proof (cases "find_empty_profile_slot profiles")
    case (Some i)
    then have i: "i < length profiles" "pe_occupied (profiles ! i) = 0"
      unfolding find_empty_profile_slot_def using position_Some_nth by blast+
    have empty: "\<not> profile_occ (profiles ! i)" using i by (simp add: profile_occ_def)
    note put = put_slot [OF wf i(1) p free]
    have "profile_at (profiles[i := profile_entry_encode h q (raw_profile p)]) = (profile_at profiles)((h, q) \<mapsto> p)"
      using empty by (auto simp: fun_eq_iff put(2) slot_match_def)
    moreover have "\<not> profiles_full profiles" using i by (auto simp: profiles_full_def)
    ultimately show ?thesis
      using put(1) empty None Some by (simp add: place_profile_def profile_put_def)
  next
    case none: None
    then have full: "profiles_full profiles" using find_none_full(1) [OF wf] by simp
    then obtain i where ev: "find_profile_eviction_slot profiles = Some i"
      using find_none_full(2) [OF wf] ne by (cases "find_profile_eviction_slot profiles") auto
    obtain v where v: "oldest_key (profile_at profiles) v"
      "entry_key (profiles ! i) = (Some (fst v), snd v)" "profile_occ (profiles ! i)"
      using eviction_oldest [OF wf ev] by blast
    note put = put_slot [OF wf eviction_slot(1) [OF ev] p free]
    have "profile_at (profiles[i := profile_entry_encode h q (raw_profile p)])
        = (profile_at profiles)(v := None, (h, q) \<mapsto> p)"
      using v(2,3) by (auto simp: fun_eq_iff put(2) slot_match_def)
    then show ?thesis
      using put(1) v(1,3) None none ev full at
      by (cases v) (auto simp: place_profile_def profile_put_def)
  qed
qed

lemma upsert_place:
  "upsert_query_profile_locked h q a t w (state, profiles) =
     place_profile h q (case profile_at profiles (h, q) of
         None \<Rightarrow> query_profile_new a t
       | Some p \<Rightarrow> record_observation p a t (ew_numerator w) (ew_denominator w)) (state, profiles)"
proof (cases "find_profile_slot profiles h q")
  case None
  then have "profile_at profiles (h, q) = None" by (simp add: profile_at_slot)
  with None show ?thesis by (simp add: upsert_query_profile_locked_def place_profile_def Let_def)
next
  case (Some i)
  then show ?thesis
    by (simp add: upsert_query_profile_locked_def place_profile_def Let_def profile_at_slot(2))
qed

definition observed ::
  "(profile_key \<rightharpoonup> query_wal_profile) \<Rightarrow> profile_key \<Rightarrow> wal_bytes \<Rightarrow> epoch_millis
     \<Rightarrow> profile_ewma_weights \<Rightarrow> query_wal_profile" where
  "observed m k a t w =
     (case m k of
        None \<Rightarrow> query_profile_new a t
      | Some p \<Rightarrow> record_observation p a t (ew_numerator w) (ew_denominator w))"

lemma profile_at_ok: "profiles_wf (state, profiles) \<Longrightarrow> profile_at profiles k = Some p \<Longrightarrow> profile_ok p"
  by (erule at_occupied) (auto simp: profiles_wf_def entry_ok_def profile_occ_def all_set_conv_all_nth)

lemma observation_ok: "weights_ok w \<Longrightarrow> profile_ok p \<Longrightarrow>
    profile_ok (record_observation p a t (ew_numerator w) (ew_denominator w))"
  by (rule record_observation_ok)

lemma observed_ok:
  assumes "profiles_wf (state, profiles)" and "weights_ok w"
  shows "profile_ok (observed (profile_at profiles) k a t w)"
  using profile_at_ok [OF assms(1)] observation_ok [OF assms(2)]
  by (auto simp: observed_def query_profile_new_ok split: option.splits)

lemma upsert_spec:
  assumes "profiles_wf (state, profiles)" and "weights_ok w" and "profiles \<noteq> []"
  shows "\<exists>state' profiles'. upsert_query_profile_locked h q a t w (state, profiles) = (Inr (), (state', profiles'))
    \<and> profiles_wf (state', profiles')
    \<and> profile_put (profiles_full profiles) (h, q) (observed (profile_at profiles) (h, q) a t w)
        (profile_at profiles) (profile_at profiles')"
  using place_profile_spec [OF assms(1) observed_ok [OF assms(1,2)] assms(3)]
  by (simp add: upsert_place observed_def)

lemma place_keeps_array:
  "length (snd (snd (place_profile h q p reg))) = length (snd reg)"
  by (auto simp: place_profile_def Let_def split: prod.splits option.splits)

lemma empty_cache_error:
  "upsert_query_profile_locked h q a t w (state, []) = (Inl profile_cache_capacity_exhausted, (state, []))"
  by (simp add: upsert_query_profile_locked_def find_profile_slot_def find_empty_profile_slot_def
      find_profile_eviction_slot_def)

lemma wf_dirty [simp]:
  "profiles_wf (state\<lparr>ss_profile_dirty_count := n\<rparr>, profiles) = profiles_wf (state, profiles)"
  "profiles_wf (state\<lparr>ss_profile_restore_state := r, ss_profile_restore_started_epoch_ms := t\<rparr>, profiles)
     = profiles_wf (state, profiles)"
  "profiles_wf (state\<lparr>ss_last_profile_persist_epoch_ms := t\<rparr>, profiles) = profiles_wf (state, profiles)"
  by (simp_all add: profiles_wf_def)

text \<open>
  C21: an observation of a statement updates the cache as a map: the entry of the query in
  its scope, then the global entry of the query, each becomes the profile moved by the
  observation, or a fresh profile when there was none; when a fresh profile finds the cache
  full, exactly one entry is evicted, and no entry is older than it. The cache stays well
  formed, and the dirty count grows by one.
\<close>

theorem profile_observation_refines_map:
  assumes "profiles_wf (state, profiles)" and "weights_ok w" and "profiles \<noteq> []"
  shows "\<exists>state' profiles' m.
      upsert_and_mark_dirty s q a t w (state, profiles) = (Inr (), (state', profiles'))
    \<and> profiles_wf (state', profiles')
    \<and> profile_put (profiles_full profiles) (Some s, q) (observed (profile_at profiles) (Some s, q) a t w)
        (profile_at profiles) (profile_at m)
    \<and> profile_put (profiles_full m) (None, q) (observed (profile_at m) (None, q) a t w)
        (profile_at m) (profile_at profiles')
    \<and> ss_profile_dirty_count state' = sat_add (ss_profile_dirty_count state) 1"
proof -
  obtain state1 m where 1: "upsert_query_profile_locked (Some s) q a t w (state, profiles) = (Inr (), (state1, m))"
    "profiles_wf (state1, m)"
    "profile_put (profiles_full profiles) (Some s, q) (observed (profile_at profiles) (Some s, q) a t w)
        (profile_at profiles) (profile_at m)"
    using upsert_spec [OF assms] by blast
  have "m \<noteq> []"
    using place_keeps_array [of "Some s" q _ "(state, profiles)"] 1(1) assms(3)
    by (metis upsert_place snd_conv length_0_conv)
  then obtain state2 profiles' where 2: "upsert_query_profile_locked None q a t w (state1, m) = (Inr (), (state2, profiles'))"
    "profiles_wf (state2, profiles')"
    "profile_put (profiles_full m) (None, q) (observed (profile_at m) (None, q) a t w)
        (profile_at m) (profile_at profiles')"
    using upsert_spec [OF 1(2) assms(2)] by blast
  have dirty: "ss_profile_dirty_count (fst (snd (place_profile h q' p (st, ps)))) = ss_profile_dirty_count st"
    for h q' p st ps
    by (auto simp: place_profile_def Let_def count_new_profile_def split: option.splits)
  have "ss_profile_dirty_count state2 = ss_profile_dirty_count state"
    using dirty 1(1) 2(1) by (metis upsert_place fst_conv snd_conv)
  then show ?thesis
    using 1 2 by (auto simp: upsert_and_mark_dirty_def upsert_scoped_and_global_query_profiles_locked_def)
qed

section \<open>Lookup\<close>

lemma profile_at_Cons:
  "profile_at (e # es) k =
     (if slot_match profile_occ entry_key (Some (fst k), snd k) e then Some (rust_profile (pe_profile e))
      else profile_at es k)"
  by (simp add: profile_at_def slot_lookup_def option.map_comp comp_def)

lemma profile_at_Nil [simp]: "profile_at [] k = None"
  by (simp add: profile_at_def slot_lookup_def)

lemma lookup_profile_at:
  "lookup_profile h q g es =
     (case profile_at es (Some h, q) of
        Some p \<Rightarrow> Some p
      | None \<Rightarrow> (case g of Some p \<Rightarrow> Some p | None \<Rightarrow> profile_at es (None, q)))"
proof (induction es arbitrary: g)
  case (Cons e es)
  show ?case
    by (cases g)
       (auto simp: Cons.IH profile_at_Cons slot_match_def profile_occ_def entry_key_def
          split: option.splits)
qed (simp split: option.split)

text \<open>
  The lookup of a prediction prefers the profile of the query in its own scope and falls
  back to the global profile of the query, wherever the two stand in the array.
\<close>

lemma lookup_prefers_scope:
  "lookup_scoped_or_global_query_profile_locked h q profiles =
     (case profile_at profiles (Some h, q) of
        Some p \<Rightarrow> Some p
      | None \<Rightarrow> profile_at profiles (None, q))"
  by (simp add: lookup_scoped_or_global_query_profile_locked_def lookup_profile_at split: option.split)

section \<open>Restoring from the catalog\<close>

definition restore_skips ::
  "query_profile_snapshot \<Rightarrow> bool \<Rightarrow> (profile_key \<rightharpoonup> query_wal_profile) \<Rightarrow> bool" where
  "restore_skips s full m \<longleftrightarrow>
     (case m (qs_scope_hash s, qs_query_id s) of
        Some p \<Rightarrow> qp_last_seen_epoch_ms (qs_profile s) < qp_last_seen_epoch_ms p
      | None \<Rightarrow> full \<and> (\<forall>k p. m k = Some p \<longrightarrow>
                  qp_last_seen_epoch_ms (qs_profile s) < qp_last_seen_epoch_ms p))"

lemma restored_place:
  assumes wf: "profiles_wf (state, profiles)" and ne: "profiles \<noteq> []"
  shows "upsert_restored_query_profile_locked s (state, profiles) =
     (if restore_skips s (profiles_full profiles) (profile_at profiles)
      then (Inr (), (state, profiles))
      else place_profile (qs_scope_hash s) (qs_query_id s) (qs_profile s) (state, profiles))"
proof (cases "find_profile_slot profiles (qs_scope_hash s) (qs_query_id s)")
  case (Some i)
  then show ?thesis
    using ne profile_at_slot(2) [OF Some]
    by (simp add: upsert_restored_query_profile_locked_def place_profile_def Let_def restore_skips_def
        rust_profile_def not_less [symmetric])
next
  case None
  then have at: "profile_at profiles (qs_scope_hash s, qs_query_id s) = None"
    by (simp add: profile_at_slot)
  show ?thesis
  proof (cases "find_empty_profile_slot profiles")
    case (Some i)
    then have "\<not> profiles_full profiles" using find_none_full(1) [OF wf] by auto
    then show ?thesis
      using None Some ne at
      by (simp add: upsert_restored_query_profile_locked_def place_profile_def Let_def restore_skips_def)
  next
    case none: None
    then have full: "profiles_full profiles" using find_none_full(1) [OF wf] by simp
    then obtain i where ev: "find_profile_eviction_slot profiles = Some i"
      using find_none_full(2) [OF wf] ne by (cases "find_profile_eviction_slot profiles") auto
    obtain v where v: "oldest_key (profile_at profiles) v"
      "profile_at profiles v = Some (rust_profile (pe_profile (profiles ! i)))"
      using eviction_oldest [OF wf ev] by blast
    have "restore_skips s (profiles_full profiles) (profile_at profiles) \<longleftrightarrow>
        qp_last_seen_epoch_ms (qs_profile s) < pq_last_seen_epoch_ms (pe_profile (profiles ! i))"
      (is "_ \<longleftrightarrow> ?s < ?o")
    proof
      assume "restore_skips s (profiles_full profiles) (profile_at profiles)"
      then have "\<forall>k p. profile_at profiles k = Some p \<longrightarrow> ?s < qp_last_seen_epoch_ms p"
        using at by (simp add: restore_skips_def)
      with v(2) have "?s < qp_last_seen_epoch_ms (rust_profile (pe_profile (profiles ! i)))" by blast
      then show "?s < ?o" by (simp add: rust_profile_def)
    next
      assume less: "?s < ?o"
      have "?o \<le> qp_last_seen_epoch_ms p" if "profile_at profiles k = Some p" for k p
        using v that by (auto simp: oldest_key_def rust_profile_def simp del: split_paired_All)
      with less show "restore_skips s (profiles_full profiles) (profile_at profiles)"
        using full at by (auto simp: restore_skips_def intro: less_le_trans)
    qed
    then show ?thesis
      using None none ev ne
      by (simp add: upsert_restored_query_profile_locked_def place_profile_def Let_def)
  qed
qed

text \<open>No entry of the cache is older than \<open>t\<close>.\<close>

definition none_older :: "epoch_millis \<Rightarrow> (profile_key \<rightharpoonup> query_wal_profile) \<Rightarrow> bool" where
  "none_older t m \<longleftrightarrow> (\<forall>k p. m k = Some p \<longrightarrow> t \<le> qp_last_seen_epoch_ms p)"

text \<open>
  What a restore keeps: every entry is still there and at least as recent, or it was evicted
  from a full cache in which no entry is older.
\<close>

definition keeps_recent ::
  "(profile_key \<rightharpoonup> query_wal_profile) \<Rightarrow> pwb_profile_entry list \<Rightarrow> bool" where
  "keeps_recent m profiles \<longleftrightarrow>
     (\<forall>k p. m k = Some p \<longrightarrow>
        (\<exists>p'. profile_at profiles k = Some p' \<and> qp_last_seen_epoch_ms p \<le> qp_last_seen_epoch_ms p')
      \<or> profiles_full profiles \<and> none_older (qp_last_seen_epoch_ms p) (profile_at profiles))"

lemma place_full: "profiles_full (snd reg) \<Longrightarrow> profiles_full (snd (snd (place_profile h q p reg)))"
  using set_update_subset_insert
  by (fastforce simp: place_profile_def Let_def profiles_full_def profile_entry_encode_def
      split: prod.splits option.splits)

lemma restored_step:
  assumes wf: "profiles_wf (state, profiles)" and ne: "profiles \<noteq> []" and p: "profile_ok (qs_profile s)"
  shows "\<exists>state' profiles'. upsert_restored_query_profile_locked s (state, profiles) = (Inr (), (state', profiles'))
    \<and> profiles_wf (state', profiles') \<and> profiles' \<noteq> []
    \<and> keeps_recent (profile_at profiles) profiles'
    \<and> (\<forall>t. profiles_full profiles \<and> none_older t (profile_at profiles)
          \<longrightarrow> profiles_full profiles' \<and> none_older t (profile_at profiles'))"
proof (cases "restore_skips s (profiles_full profiles) (profile_at profiles)")
  case True
  then show ?thesis
    using restored_place [OF wf ne] wf ne by (auto simp: keeps_recent_def)
next
  case False
  let ?k = "(qs_scope_hash s, qs_query_id s)" and ?m = "profile_at profiles"
    and ?t = "qp_last_seen_epoch_ms (qs_profile s)"
  from place_profile_spec [OF wf p ne] obtain state' profiles' where
    pl: "place_profile (qs_scope_hash s) (qs_query_id s) (qs_profile s) (state, profiles) = (Inr (), (state', profiles'))"
      "profiles_wf (state', profiles')"
      "profile_put (profiles_full profiles) ?k (qs_profile s) ?m (profile_at profiles')" by blast
  have ne': "profiles' \<noteq> []"
    using place_keeps_array [of "qs_scope_hash s" "qs_query_id s" "qs_profile s" "(state, profiles)"] pl(1) ne
    by auto
  have full: "profiles_full profiles \<Longrightarrow> profiles_full profiles'"
    using place_full [of "(state, profiles)"] pl(1) by (metis snd_conv)
  have "keeps_recent ?m profiles'
    \<and> (\<forall>t. profiles_full profiles \<and> none_older t ?m \<longrightarrow> none_older t (profile_at profiles'))"
  proof (cases "?m ?k \<noteq> None \<or> \<not> profiles_full profiles")
    case True
    then have m': "profile_at profiles' = ?m(?k \<mapsto> qs_profile s)" using pl(3) by (simp add: profile_put_def)
    have old: "qp_last_seen_epoch_ms p \<le> ?t" if "?m ?k = Some p" for p
      using False that by (simp add: restore_skips_def not_less)
    show ?thesis
    proof (intro conjI allI impI)
      show "keeps_recent ?m profiles'" using old by (auto simp: keeps_recent_def m')
      fix t assume t: "profiles_full profiles \<and> none_older t ?m"
      with True obtain p where "?m ?k = Some p" by auto
      with t old have "t \<le> ?t" unfolding none_older_def by (meson order_trans)
      with t show "none_older t (profile_at profiles')"
        by (auto simp: none_older_def m')
    qed
  next
    case evict: False
    then obtain v pv where v: "?m v = Some pv" "profile_at profiles' = ?m(v := None, ?k \<mapsto> qs_profile s)"
      and oldest: "\<And>k p. ?m k = Some p \<Longrightarrow> qp_last_seen_epoch_ms pv \<le> qp_last_seen_epoch_ms p"
      using pl(3) by (auto simp: profile_put_def oldest_key_def)
    have new: "qp_last_seen_epoch_ms pv \<le> ?t"
    proof -
      obtain k p where "?m k = Some p" "\<not> ?t < qp_last_seen_epoch_ms p"
        using False evict by (auto simp: restore_skips_def)
      then show ?thesis using oldest by (meson order_trans not_less)
    qed
    have pv: "none_older (qp_last_seen_epoch_ms pv) (profile_at profiles')"
      using new oldest by (auto simp: none_older_def v(2))
    show ?thesis
    proof (intro conjI allI impI)
      show "keeps_recent ?m profiles'"
        unfolding keeps_recent_def
      proof (intro allI impI)
        fix k p assume k: "?m k = Some p"
        show "(\<exists>p'. profile_at profiles' k = Some p' \<and> qp_last_seen_epoch_ms p \<le> qp_last_seen_epoch_ms p')
          \<or> profiles_full profiles' \<and> none_older (qp_last_seen_epoch_ms p) (profile_at profiles')"
          using k v evict pv full by (cases "k = v") auto
      qed
      fix t assume "profiles_full profiles \<and> none_older t ?m"
      then have "t \<le> qp_last_seen_epoch_ms pv" using v(1) by (simp add: none_older_def del: split_paired_All)
      then show "none_older t (profile_at profiles')"
        using pv by (auto simp: none_older_def intro: order_trans)
    qed
  qed
  then show ?thesis
    using restored_place [OF wf ne, of s] False pl(1,2) ne' full by simp
qed

lemma keeps_recent_trans:
  assumes "keeps_recent m profiles" and "keeps_recent (profile_at profiles) profiles'"
    and "\<And>t. profiles_full profiles \<Longrightarrow> none_older t (profile_at profiles) \<Longrightarrow>
      profiles_full profiles' \<and> none_older t (profile_at profiles')"
  shows "keeps_recent m profiles'"
  unfolding keeps_recent_def
proof (intro allI impI)
  fix k p assume "m k = Some p"
  with assms(1) consider p' where "profile_at profiles k = Some p'" "qp_last_seen_epoch_ms p \<le> qp_last_seen_epoch_ms p'"
    | "profiles_full profiles" "none_older (qp_last_seen_epoch_ms p) (profile_at profiles)"
    unfolding keeps_recent_def by blast
  then show "(\<exists>p'. profile_at profiles' k = Some p' \<and> qp_last_seen_epoch_ms p \<le> qp_last_seen_epoch_ms p')
      \<or> profiles_full profiles' \<and> none_older (qp_last_seen_epoch_ms p) (profile_at profiles')"
  proof cases
    case 1
    with assms(2) show ?thesis unfolding keeps_recent_def none_older_def by (meson order_trans)
  next
    case 2
    with assms(3) show ?thesis by blast
  qed
qed

lemma restore_all_spec:
  assumes "profiles_wf (state, profiles)" and "profiles \<noteq> []" and "list_all (\<lambda>s. profile_ok (qs_profile s)) ss"
  shows "\<exists>state' profiles'. restore_all ss (state, profiles) = (Inr (), (state', profiles'))
    \<and> profiles_wf (state', profiles')
    \<and> keeps_recent (profile_at profiles) profiles'
    \<and> (\<forall>t. profiles_full profiles \<and> none_older t (profile_at profiles)
          \<longrightarrow> profiles_full profiles' \<and> none_older t (profile_at profiles'))"
  using assms
proof (induction ss arbitrary: state profiles)
  case Nil
  then show ?case by (auto simp: keeps_recent_def)
next
  case (Cons s ss)
  then have ok: "profile_ok (qs_profile s)" by simp
  from restored_step [OF Cons.prems(1,2) ok] obtain state1 m where
    1: "upsert_restored_query_profile_locked s (state, profiles) = (Inr (), (state1, m))"
      "profiles_wf (state1, m)" "m \<noteq> []" "keeps_recent (profile_at profiles) m"
      "\<And>t. profiles_full profiles \<Longrightarrow> none_older t (profile_at profiles) \<Longrightarrow>
        profiles_full m \<and> none_older t (profile_at m)" by blast
  from Cons.IH [OF 1(2,3)] Cons.prems(3) obtain state2 profiles' where
    2: "restore_all ss (state1, m) = (Inr (), (state2, profiles'))" "profiles_wf (state2, profiles')"
      "keeps_recent (profile_at m) profiles'"
      "\<And>t. profiles_full m \<Longrightarrow> none_older t (profile_at m) \<Longrightarrow>
        profiles_full profiles' \<and> none_older t (profile_at profiles')" by auto
  have "keeps_recent (profile_at profiles) profiles'"
    using 1(4) 2(3,4) by (rule keeps_recent_trans)
  with 1 2 show ?case by auto
qed

text \<open>
  C22: restoring a catalog never loses what the backends have learnt: it succeeds on a cache
  with at least one slot, leaves it well formed and marked as loaded, and every entry
  survives with a time at least as recent as before, unless the cache is full and no
  remaining entry is older than the evicted one.
\<close>

theorem restore_keeps_recent:
  assumes "profiles_wf (state, profiles)" and "profiles \<noteq> []" and "list_all (\<lambda>s. profile_ok (qs_profile s)) ss"
  shows "\<exists>state' profiles'. finish_profile_restore_locked ss (state, profiles) = (Inr (), (state', profiles'))
    \<and> profiles_wf (state', profiles')
    \<and> ss_profile_restore_state state' = PROFILE_RESTORE_LOADED
    \<and> keeps_recent (profile_at profiles) profiles'"
proof -
  from restore_all_spec [OF assms] obtain state' profiles' where
    "restore_all ss (state, profiles) = (Inr (), (state', profiles'))" "profiles_wf (state', profiles')"
    "keeps_recent (profile_at profiles) profiles'" by blast
  then show ?thesis by (simp add: finish_profile_restore_locked_def)
qed

lemma empty_cache_wf:
  "profiles_wf (test_state 1, [pwb_profile_entry_default])"
  by (simp add: profiles_wf_def keys_distinct_def profile_occ_def entry_ok_def pwb_profile_entry_default_def)

theorem restore_keeps_recent_witness:
  "\<exists>state' profiles'. finish_profile_restore_locked
       [\<lparr>qs_scope_hash = Some 9, qs_query_id = 42, qs_profile = query_profile_new 100 5\<rparr>]
       (test_state 1, [pwb_profile_entry_default]) = (Inr (), (state', profiles'))
    \<and> ss_profile_restore_state state' = PROFILE_RESTORE_LOADED"
  using restore_keeps_recent [OF empty_cache_wf, of
      "[\<lparr>qs_scope_hash = Some 9, qs_query_id = 42, qs_profile = query_profile_new 100 5\<rparr>]"]
  by (auto simp: query_profile_new_ok)

theorem profile_observation_refines_map_witness:
  "\<exists>state' profiles'. upsert_and_mark_dirty 9 42 100 5 \<lparr>ew_numerator = 1, ew_denominator = 2\<rparr>
       (test_state 1, [pwb_profile_entry_default]) = (Inr (), (state', profiles'))
    \<and> profiles_wf (state', profiles') \<and> ss_profile_dirty_count state' = 1"
proof -
  have w: "weights_ok \<lparr>ew_numerator = 1, ew_denominator = 2\<rparr>" by (simp add: weights_ok_def)
  have "[pwb_profile_entry_default] \<noteq> []" by simp
  from profile_observation_refines_map [OF empty_cache_wf w this, of 9 42 100 5]
  show ?thesis by auto
qed

end
