(* ===== verification/Pwb_Shmem.thy ===== *)
theory Pwb_Shmem
  imports Pwb_Layout Pwb_Recent Pwb_Scope_Names Pwb_Buckets Pwb_Profiles
begin

text \<open>
  The shared segment as a whole: \<^verbatim>\<open>src/shmem/mod.rs\<close>, \<^verbatim>\<open>src/shmem/counters.rs\<close>,
  \<^verbatim>\<open>src/shmem/transactions.rs\<close> and the locking wrappers of the four arrays. A backend sees the
  segment through two process-local pointers and the requested layout; every operation runs
  under the exclusive lock, so it is one atomic step. Code that runs between two critical
  sections (loading or persisting the catalog) is an argument that may change the segment,
  which stands for the work of the other backends in the meantime.
\<close>

section \<open>The segment\<close>

record shared_mem =
  sm_state :: pwb_shared_state
  sm_recent_decisions :: "pwb_recent_decision list"
  sm_profiles :: "pwb_profile_entry list"
  sm_budget_buckets :: "pwb_budget_bucket list"
  sm_scope_names :: "pwb_scope_name list"

text \<open>
  \<open>SHARED_LOCK\<close> and \<open>SHARED_STATE\<close> are pointers that are null or not; \<open>REQUESTED_LAYOUT\<close> is a
  copy of the layout.
\<close>

record shmem =
  sh_lock :: bool
  sh_attached :: bool
  sh_layout :: shared_layout
  sh_mem :: shared_mem

definition shared_memory_unavailable :: pwb_error where
  "shared_memory_unavailable = Internal ''pg_wal_budget shared memory is not initialized; add pg_wal_budget to shared_preload_libraries and restart''"

definition incompatible_layout :: pwb_error where
  "incompatible_layout = Internal ''pg_wal_budget shared memory has an incompatible layout''"

definition magic_ok :: "pwb_shared_state \<Rightarrow> bool" where
  "magic_ok state \<longleftrightarrow> ss_magic state = MAGIC \<and> ss_layout_version state = LAYOUT_VERSION"

definition is_available :: "shmem \<Rightarrow> bool" where
  "is_available s \<longleftrightarrow> sh_attached s \<and> magic_ok (sm_state (sh_mem s)) \<and> sh_lock s"

definition shared_state_mut :: "shmem \<Rightarrow> unit pwb_result" where
  "shared_state_mut s =
     (if \<not> sh_attached s then Inl shared_memory_unavailable
      else if \<not> magic_ok (sm_state (sh_mem s)) then Inl incompatible_layout
      else Inr ())"

definition current_layout :: "shmem \<Rightarrow> shared_layout pwb_result" where
  "current_layout s =
     (if sl_total_bytes (sh_layout s) = 0 then Inl shared_memory_unavailable else Inr (sh_layout s))"

text \<open>Acquiring the lock, the state and the layout, in this order.\<close>

definition shared_lock_guard :: "shmem \<Rightarrow> unit pwb_result" where
  "shared_lock_guard s =
     (if \<not> sh_lock s then Inl shared_memory_unavailable
      else rbind (shared_state_mut s) (\<lambda>_. rbind (current_layout s) (\<lambda>_. Inr ())))"

definition with_locked_mem ::
  "(shared_mem \<Rightarrow> 'r pwb_result \<times> shared_mem) \<Rightarrow> shmem \<Rightarrow> 'r pwb_result \<times> shmem" where
  "with_locked_mem callback s =
     (case shared_lock_guard s of
        Inl e \<Rightarrow> (Inl e, s)
      | Inr _ \<Rightarrow> (case callback (sh_mem s) of (r, m) \<Rightarrow> (r, s\<lparr>sh_mem := m\<rparr>)))"

definition with_locked_bucket_state ::
  "(bucket_region \<Rightarrow> 'r pwb_result \<times> bucket_region) \<Rightarrow> shmem \<Rightarrow> 'r pwb_result \<times> shmem" where
  "with_locked_bucket_state callback =
     with_locked_mem (\<lambda>m. case callback (sm_state m, sm_budget_buckets m) of
       (r, (state, buckets)) \<Rightarrow> (r, m\<lparr>sm_state := state, sm_budget_buckets := buckets\<rparr>))"

definition with_locked_profiles ::
  "(profile_region \<Rightarrow> 'r pwb_result \<times> profile_region) \<Rightarrow> shmem \<Rightarrow> 'r pwb_result \<times> shmem" where
  "with_locked_profiles callback =
     with_locked_mem (\<lambda>m. case callback (sm_state m, sm_profiles m) of
       (r, (state, profiles)) \<Rightarrow> (r, m\<lparr>sm_state := state, sm_profiles := profiles\<rparr>))"

definition with_locked_recent ::
  "(recent_region \<Rightarrow> 'r pwb_result \<times> recent_region) \<Rightarrow> shmem \<Rightarrow> 'r pwb_result \<times> shmem" where
  "with_locked_recent callback =
     with_locked_mem (\<lambda>m. case callback (sm_state m, sm_recent_decisions m) of
       (r, (state, recent)) \<Rightarrow> (r, m\<lparr>sm_state := state, sm_recent_decisions := recent\<rparr>))"

definition with_locked_scope_name_state ::
  "(pwb_scope_name list \<Rightarrow> 'r pwb_result) \<Rightarrow> shmem \<Rightarrow> 'r pwb_result" where
  "with_locked_scope_name_state callback s =
     fst (with_locked_mem (\<lambda>m. (callback (sm_scope_names m), m)) s)"

section \<open>Requesting and initialising the segment\<close>

definition shmem_request :: "shared_capacities \<Rightarrow> shmem \<Rightarrow> unit pwb_result \<times> shmem" where
  "shmem_request capacities s =
     (case compute_layout capacities of
        Inl e \<Rightarrow> (Inl e, s)
      | Inr layout \<Rightarrow> (Inr (), s\<lparr>sh_layout := layout\<rparr>))"

definition initialize_state :: "shared_layout \<Rightarrow> pwb_shared_state" where
  "initialize_state layout =
     \<lparr>ss_magic = MAGIC, ss_layout_version = LAYOUT_VERSION,
      ss_recent_decision_capacity = capacity_to_u32 (sl_recent_decision_capacity layout),
      ss_profile_cache_capacity = capacity_to_u32 (sl_profile_cache_capacity layout),
      ss_budget_bucket_capacity = capacity_to_u32 (sl_budget_bucket_capacity layout),
      ss_scope_name_capacity = capacity_to_u32 (sl_scope_name_capacity layout),
      ss_recent_decision_head = 0, ss_recent_decision_count = 0, ss_profiles_len = 0,
      ss_budget_buckets_len = 0, ss_profile_restore_state = initial_profile_restore_state,
      ss_profile_restore_padding = replicate 7 0, ss_profile_restore_started_epoch_ms = 0,
      ss_last_profile_persist_epoch_ms = 0, ss_profile_dirty_count = 0,
      ss_counters = pwb_counters_default\<rparr>"

text \<open>The zeroed segment: every slot of all-zero bytes is the default of its type.\<close>

definition zeroed_segment :: "shared_layout \<Rightarrow> shared_mem" where
  "zeroed_segment layout =
     \<lparr>sm_state = initialize_state layout,
      sm_recent_decisions = replicate (unat (sl_recent_decision_capacity layout)) pwb_recent_decision_default,
      sm_profiles = replicate (unat (sl_profile_cache_capacity layout)) pwb_profile_entry_default,
      sm_budget_buckets = replicate (unat (sl_budget_bucket_capacity layout)) pwb_budget_bucket_default,
      sm_scope_names = replicate (unat (sl_scope_name_capacity layout)) pwb_scope_name_default\<rparr>"

text \<open>
  \<open>shmem_startup\<close>. The server answers whether the lock tranche exists, whether the segment
  could be allocated, and, when another process has initialised it, with its contents.
\<close>

definition shmem_startup ::
  "bool \<Rightarrow> bool \<Rightarrow> shared_mem option \<Rightarrow> shmem \<Rightarrow> unit pwb_result \<times> shmem" where
  "shmem_startup tranche_found allocated found s =
     (if \<not> tranche_found then (Inl (Internal ''failed to resolve pg_wal_budget LWLock tranche''), s)
      else let s = s\<lparr>sh_lock := True\<rparr> in
      if \<not> allocated then (Inl (Internal ''failed to initialize pg_wal_budget shared memory''), s)
      else let s = s\<lparr>sh_attached := True\<rparr> in
      case found of
        None \<Rightarrow> (Inr (), s\<lparr>sh_mem := zeroed_segment (sh_layout s)\<rparr>)
      | Some m \<Rightarrow>
          let s = s\<lparr>sh_mem := m\<rparr> in
          if \<not> magic_ok (sm_state m)
          then (Inl (Internal (''pg_wal_budget shared memory layout mismatch: magic='' @
                  show_nat (unat (ss_magic (sm_state m))) @ '', version='' @
                  show_nat (unat (ss_layout_version (sm_state m))))), s)
          else (Inr (), s))"

section \<open>Statistics\<close>

definition add_counters :: "counter_delta \<Rightarrow> shmem \<Rightarrow> unit pwb_result \<times> shmem" where
  "add_counters delta =
     with_locked_mem (\<lambda>m. (Inr (), m\<lparr>sm_state := (sm_state m)\<lparr>ss_counters :=
        saturating_add_delta (ss_counters (sm_state m)) delta\<rparr>\<rparr>))"

definition snapshot_counters :: "shmem \<Rightarrow> pwb_counters pwb_result" where
  "snapshot_counters s = fst (with_locked_mem (\<lambda>m. (Inr (ss_counters (sm_state m)), m)) s)"

definition record_recent_decision :: "recent_decision_record \<Rightarrow> shmem \<Rightarrow> unit pwb_result \<times> shmem" where
  "record_recent_decision r =
     with_locked_recent (\<lambda>reg. (Inr (), record_recent_decision_locked r reg))"

definition snapshot_recent_decisions :: "nat \<Rightarrow> shmem \<Rightarrow> recent_decision_record list pwb_result" where
  "snapshot_recent_decisions limit s =
     fst (with_locked_recent (\<lambda>reg. (snapshot_recent_decisions_from_slice reg limit, reg)) s)"

definition snapshot_scope_names :: "shmem \<Rightarrow> scope_name_snapshot list pwb_result" where
  "snapshot_scope_names = with_locked_scope_name_state snapshot_scope_names_from_slice"

definition reset_stats :: "shmem \<Rightarrow> unit pwb_result \<times> shmem" where
  "reset_stats =
     with_locked_mem (\<lambda>m. (Inr (),
       m\<lparr>sm_state := (sm_state m)\<lparr>ss_counters := pwb_counters_default,
                       ss_recent_decision_head := 0, ss_recent_decision_count := 0\<rparr>,
         sm_recent_decisions := map (\<lambda>_. pwb_recent_decision_default) (sm_recent_decisions m),
         sm_scope_names := map (\<lambda>_. pwb_scope_name_default) (sm_scope_names m)\<rparr>))"

definition record_scope_locked :: "scope_key \<Rightarrow> epoch_millis \<Rightarrow> shared_mem \<Rightarrow> shared_mem" where
  "record_scope_locked scope now_epoch_ms m =
     (case sk_debug_value scope of
        None \<Rightarrow> m
      | Some scope_value \<Rightarrow>
          let (res, names) = record_scope_name_in_slice (sk_kind scope) (sk_value_hash scope)
                 scope_value now_epoch_ms (sm_scope_names m);
              m = m\<lparr>sm_scope_names := names\<rparr>;
              c = ss_counters (sm_state m)
          in if res = Dropped
             then m\<lparr>sm_state := (sm_state m)\<lparr>ss_counters :=
                    c\<lparr>pc_scope_name_drop_count := sat_add (pc_scope_name_drop_count c) 1\<rparr>\<rparr>\<rparr>
             else m)"

definition record_admission_telemetry ::
  "counter_delta \<Rightarrow> recent_decision_record \<Rightarrow> scope_key \<Rightarrow> epoch_millis \<Rightarrow> shmem
     \<Rightarrow> unit pwb_result \<times> shmem" where
  "record_admission_telemetry delta recent_decision scope now_epoch_ms =
     with_locked_mem (\<lambda>m.
       let state = (sm_state m)\<lparr>ss_counters := saturating_add_delta (ss_counters (sm_state m)) delta\<rparr>;
           (state, recent) = record_recent_decision_locked recent_decision (state, sm_recent_decisions m)
       in (Inr (), record_scope_locked scope now_epoch_ms
                     (m\<lparr>sm_state := state, sm_recent_decisions := recent\<rparr>)))"

definition record_decision_telemetry ::
  "counter_delta \<Rightarrow> recent_decision_record \<Rightarrow> shmem \<Rightarrow> unit pwb_result \<times> shmem" where
  "record_decision_telemetry delta recent_decision s =
     sbind (add_counters delta s) (\<lambda>_ s. record_recent_decision recent_decision s)"

section \<open>Budgets\<close>

definition admit_with_budget_bucket ::
  "policy_id \<Rightarrow> scope_hash \<Rightarrow> budget_bucket_state \<Rightarrow> 'r bucket_callback \<Rightarrow> shmem
     \<Rightarrow> 'r pwb_result \<times> shmem" where
  "admit_with_budget_bucket policy_id scope_hash initialize admit =
     with_locked_bucket_state (apply_budget_bucket policy_id scope_hash initialize admit)"

definition with_existing_budget_bucket ::
  "policy_id \<Rightarrow> scope_hash \<Rightarrow> 'r bucket_callback \<Rightarrow> shmem \<Rightarrow> 'r option pwb_result \<times> shmem" where
  "with_existing_budget_bucket policy_id scope_hash callback =
     with_locked_bucket_state (existing_budget_bucket policy_id scope_hash callback)"

definition refund_bucket :: "wal_bytes \<Rightarrow> unit bucket_callback" where
  "refund_bucket bytes b =
     (Inr (), b\<lparr>bb_available_bytes := min (sat_add (bb_available_bytes b) bytes) (bb_max_burst_bytes b)\<rparr>)"

definition debt_bucket :: "wal_bytes \<Rightarrow> unit bucket_callback" where
  "debt_bucket bytes b = (Inr (), b\<lparr>bb_debt_bytes := sat_add (bb_debt_bytes b) bytes\<rparr>)"

definition refund_budget_charge ::
  "policy_id \<Rightarrow> scope_hash \<Rightarrow> wal_bytes \<Rightarrow> shmem \<Rightarrow> unit pwb_result \<times> shmem" where
  "refund_budget_charge policy_id scope_hash bytes s =
     sbind (with_existing_budget_bucket policy_id scope_hash (refund_bucket bytes) s) (\<lambda>_ s. (Inr (), s))"

definition record_budget_debt ::
  "policy_id \<Rightarrow> scope_hash \<Rightarrow> wal_bytes \<Rightarrow> shmem \<Rightarrow> unit pwb_result \<times> shmem" where
  "record_budget_debt policy_id scope_hash bytes s =
     sbind (with_existing_budget_bucket policy_id scope_hash (debt_bucket bytes) s) (\<lambda>_ s. (Inr (), s))"

definition snapshot_budget_buckets :: "shmem \<Rightarrow> budget_bucket_snapshot list pwb_result" where
  "snapshot_budget_buckets s =
     fst (with_locked_bucket_state (\<lambda>(state, buckets).
       (snapshot_budget_buckets_from_slice buckets (unat (ss_budget_buckets_len state)), (state, buckets))) s)"

section \<open>Profiles\<close>

definition reset_profiles :: "shmem \<Rightarrow> unit pwb_result \<times> shmem" where
  "reset_profiles = with_locked_profiles (\<lambda>reg. (Inr (), reset_profiles_locked reg))"

definition snapshot_query_profiles :: "shmem \<Rightarrow> query_profile_snapshot list pwb_result" where
  "snapshot_query_profiles s =
     fst (with_locked_profiles (\<lambda>(state, profiles).
       (snapshot_profiles_from_slice profiles, (state, profiles))) s)"

definition lookup_scoped_or_global_query_profile ::
  "scope_hash \<Rightarrow> query_id \<Rightarrow> shmem \<Rightarrow> query_wal_profile option pwb_result" where
  "lookup_scoped_or_global_query_profile scope_hash query_id s =
     fst (with_locked_profiles (\<lambda>(state, profiles).
       (Inr (lookup_scoped_or_global_query_profile_locked scope_hash query_id profiles), (state, profiles))) s)"

definition upsert_scoped_and_global_query_profiles ::
  "scope_hash \<Rightarrow> query_id \<Rightarrow> wal_bytes \<Rightarrow> epoch_millis \<Rightarrow> profile_ewma_weights \<Rightarrow> shmem
     \<Rightarrow> unit pwb_result \<times> shmem" where
  "upsert_scoped_and_global_query_profiles scope_hash query_id actual_wal_bytes now_epoch_ms w =
     with_locked_profiles (upsert_and_mark_dirty scope_hash query_id actual_wal_bytes now_epoch_ms w)"

definition begin_profile_restore :: "epoch_millis \<Rightarrow> epoch_millis \<Rightarrow> shmem \<Rightarrow> bool pwb_result \<times> shmem" where
  "begin_profile_restore now_epoch_ms stale_after_ms =
     with_locked_profiles (\<lambda>(state, profiles).
       case begin_profile_restore_locked now_epoch_ms stale_after_ms state of
         (b, state) \<Rightarrow> (Inr b, (state, profiles)))"

definition finish_profile_restore ::
  "query_profile_snapshot list \<Rightarrow> shmem \<Rightarrow> unit pwb_result \<times> shmem" where
  "finish_profile_restore restored = with_locked_profiles (finish_profile_restore_locked restored)"

definition mark_profile_restore_failed :: "shmem \<Rightarrow> unit pwb_result \<times> shmem" where
  "mark_profile_restore_failed =
     with_locked_profiles (\<lambda>(state, profiles). (Inr (), (mark_profile_restore_failed_locked state, profiles)))"

definition ensure_profiles_loaded ::
  "epoch_millis \<Rightarrow> epoch_millis
     \<Rightarrow> (shmem \<Rightarrow> query_profile_snapshot list pwb_result \<times> shmem)
     \<Rightarrow> shmem \<Rightarrow> unit pwb_result \<times> shmem" where
  "ensure_profiles_loaded now_epoch_ms stale_after_ms load_profiles s =
     sbind (begin_profile_restore now_epoch_ms stale_after_ms s) (\<lambda>started s.
       if \<not> started then (Inr (), s)
       else case sbind (load_profiles s) (\<lambda>profiles s. finish_profile_restore profiles s) of
              (Inl e, s) \<Rightarrow> (Inl e, snd (mark_profile_restore_failed s))
            | (Inr u, s) \<Rightarrow> (Inr u, s))"

definition reserve_profile_persist ::
  "epoch_millis \<Rightarrow> epoch_millis \<Rightarrow> shmem
     \<Rightarrow> query_profile_snapshot list option pwb_result \<times> shmem" where
  "reserve_profile_persist now_epoch_ms interval_ms =
     with_locked_profiles (reserve_profile_persist_locked now_epoch_ms interval_ms)"

definition snapshot_profiles_for_persist ::
  "epoch_millis \<Rightarrow> shmem \<Rightarrow> query_profile_snapshot list pwb_result \<times> shmem" where
  "snapshot_profiles_for_persist now_epoch_ms =
     with_locked_profiles (snapshot_profiles_for_persist_locked now_epoch_ms)"

definition complete_profile_persist :: "bool \<Rightarrow> shmem \<Rightarrow> unit pwb_result \<times> shmem" where
  "complete_profile_persist success =
     with_locked_profiles (\<lambda>(state, profiles). (Inr (), (complete_profile_persist_locked success state, profiles)))"

definition persist_profiles_if_due ::
  "epoch_millis \<Rightarrow> epoch_millis
     \<Rightarrow> (query_profile_snapshot list \<Rightarrow> shmem \<Rightarrow> unit pwb_result \<times> shmem)
     \<Rightarrow> shmem \<Rightarrow> unit pwb_result \<times> shmem" where
  "persist_profiles_if_due now_epoch_ms interval_ms persist_profiles s =
     sbind (reserve_profile_persist now_epoch_ms interval_ms s) (\<lambda>reserved s.
       case reserved of
         None \<Rightarrow> (Inr (), s)
       | Some profiles \<Rightarrow>
           (case persist_profiles profiles s of
              (persist_result, s) \<Rightarrow>
                (persist_result, snd (complete_profile_persist (is_ok persist_result) s))))"

definition persist_profiles_now ::
  "epoch_millis
     \<Rightarrow> (query_profile_snapshot list \<Rightarrow> shmem \<Rightarrow> unit pwb_result \<times> shmem)
     \<Rightarrow> shmem \<Rightarrow> unit pwb_result \<times> shmem" where
  "persist_profiles_now now_epoch_ms persist_profiles s =
     sbind (snapshot_profiles_for_persist now_epoch_ms s) (\<lambda>profiles s.
       case persist_profiles profiles s of
         (persist_result, s) \<Rightarrow>
           (persist_result, snd (complete_profile_persist (is_ok persist_result) s)))"

end
