(* ===== verification/Pwb_Segment.thy ===== *)
theory Pwb_Segment
  imports Pwb_Shmem
begin

text \<open>
  The invariant of the shared segment and its preservation: the four arrays have the
  configured capacities, each is well formed, and the constants of the header never change.
  Initialising a segment establishes it, and every operation of \<^verbatim>\<open>src/shmem\<close> keeps it, so
  every slice index that the code computes is in range.
\<close>

definition header_consts :: "pwb_shared_state \<Rightarrow> u32 \<times> u32 \<times> u32 \<times> u32 \<times> u32 \<times> u32" where
  "header_consts st =
     (ss_magic st, ss_layout_version st, ss_recent_decision_capacity st, ss_profile_cache_capacity st,
      ss_budget_bucket_capacity st, ss_scope_name_capacity st)"

definition mem_wf :: "shared_mem \<Rightarrow> bool" where
  "mem_wf m \<longleftrightarrow>
     magic_ok (sm_state m)
   \<and> buckets_wf (sm_state m, sm_budget_buckets m)
   \<and> profiles_wf (sm_state m, sm_profiles m)
   \<and> (\<exists>hist. ring_repr (sm_state m, sm_recent_decisions m) hist)
   \<and> names_wf (sm_scope_names m)
   \<and> length (sm_scope_names m) = unat (ss_scope_name_capacity (sm_state m))"

definition layout_matches :: "shmem \<Rightarrow> bool" where
  "layout_matches s \<longleftrightarrow>
     (let l = sh_layout s; st = sm_state (sh_mem s) in
        unat (sl_recent_decision_capacity l) = unat (ss_recent_decision_capacity st)
      \<and> unat (sl_profile_cache_capacity l) = unat (ss_profile_cache_capacity st)
      \<and> unat (sl_budget_bucket_capacity l) = unat (ss_budget_bucket_capacity st)
      \<and> unat (sl_scope_name_capacity l) = unat (ss_scope_name_capacity st))"

definition segment_ok :: "shmem \<Rightarrow> bool" where
  "segment_ok s \<longleftrightarrow>
     sh_lock s \<and> sh_attached s \<and> sl_total_bytes (sh_layout s) \<noteq> 0 \<and> layout_matches s \<and> mem_wf (sh_mem s)"

lemma segment_guard: "segment_ok s \<Longrightarrow> shared_lock_guard s = Inr ()"
  by (simp add: segment_ok_def mem_wf_def shared_lock_guard_def shared_state_mut_def current_layout_def)

lemma segment_available: "segment_ok s \<Longrightarrow> is_available s"
  by (simp add: segment_ok_def mem_wf_def is_available_def)

lemma guard_available: "shared_lock_guard s = Inr () \<Longrightarrow> is_available s"
  by (auto simp: shared_lock_guard_def shared_state_mut_def is_available_def split: if_splits)

text \<open>One critical section that keeps the invariant of the memory keeps that of the segment.\<close>

definition mem_step_ok :: "shared_mem \<Rightarrow> shared_mem \<Rightarrow> bool" where
  "mem_step_ok m m' \<longleftrightarrow> mem_wf m' \<and> header_consts (sm_state m') = header_consts (sm_state m)"

lemma with_locked_mem_ok:
  assumes "segment_ok s" and "mem_step_ok (sh_mem s) (snd (callback (sh_mem s)))"
  shows "segment_ok (snd (with_locked_mem callback s))"
    and "fst (with_locked_mem callback s) = fst (callback (sh_mem s))"
    and "sh_mem (snd (with_locked_mem callback s)) = snd (callback (sh_mem s))"
proof -
  obtain r m where cb: "callback (sh_mem s) = (r, m)" by (cases "callback (sh_mem s)")
  have eq: "with_locked_mem callback s = (r, s\<lparr>sh_mem := m\<rparr>)"
    using segment_guard [OF assms(1)] by (simp add: with_locked_mem_def cb)
  show "segment_ok (snd (with_locked_mem callback s))"
    using assms by (simp add: eq cb segment_ok_def mem_step_ok_def header_consts_def layout_matches_def Let_def)
  show "fst (with_locked_mem callback s) = fst (callback (sh_mem s))"
    and "sh_mem (snd (with_locked_mem callback s)) = snd (callback (sh_mem s))"
    by (simp_all add: eq cb)
qed

section \<open>Which header fields each array reads\<close>

lemma buckets_wf_cong:
  "ss_budget_bucket_capacity st' = ss_budget_bucket_capacity st \<Longrightarrow>
   ss_budget_buckets_len st' = ss_budget_buckets_len st \<Longrightarrow> buckets_wf (st', bs) = buckets_wf (st, bs)"
  by (simp add: buckets_wf_def)

lemma profiles_wf_cong:
  "ss_profile_cache_capacity st' = ss_profile_cache_capacity st \<Longrightarrow>
   ss_profiles_len st' = ss_profiles_len st \<Longrightarrow> profiles_wf (st', ps) = profiles_wf (st, ps)"
  by (simp add: profiles_wf_def)

lemma ring_repr_cong:
  "ss_recent_decision_capacity st' = ss_recent_decision_capacity st \<Longrightarrow>
   ss_recent_decision_head st' = ss_recent_decision_head st \<Longrightarrow>
   ss_recent_decision_count st' = ss_recent_decision_count st \<Longrightarrow>
   ring_repr (st', rs) h = ring_repr (st, rs) h"
  by (simp add: ring_repr_def recent_decision_capacity_def recent_decision_count_def)

text \<open>The parts of the header that an operation on one array leaves alone.\<close>

definition bucket_frame :: "pwb_shared_state \<Rightarrow> pwb_shared_state \<Rightarrow> bool" where
  "bucket_frame st st' \<longleftrightarrow> st' = st\<lparr>ss_budget_buckets_len := ss_budget_buckets_len st'\<rparr>"

definition profile_frame :: "pwb_shared_state \<Rightarrow> pwb_shared_state \<Rightarrow> bool" where
  "profile_frame st st' \<longleftrightarrow>
     st' = st\<lparr>ss_profiles_len := ss_profiles_len st',
              ss_profile_restore_state := ss_profile_restore_state st',
              ss_profile_restore_started_epoch_ms := ss_profile_restore_started_epoch_ms st',
              ss_last_profile_persist_epoch_ms := ss_last_profile_persist_epoch_ms st',
              ss_profile_dirty_count := ss_profile_dirty_count st'\<rparr>"

lemma bucket_frame_fields:
  assumes "bucket_frame st st'"
  shows "header_consts st' = header_consts st" and "magic_ok st' = magic_ok st"
    and "ss_profiles_len st' = ss_profiles_len st"
    and "ss_recent_decision_head st' = ss_recent_decision_head st"
    and "ss_recent_decision_count st' = ss_recent_decision_count st"
    and "ss_counters st' = ss_counters st"
proof -
  obtain n where "st' = st\<lparr>ss_budget_buckets_len := n\<rparr>" using assms unfolding bucket_frame_def by blast
  then show "header_consts st' = header_consts st" "magic_ok st' = magic_ok st"
    "ss_profiles_len st' = ss_profiles_len st" "ss_recent_decision_head st' = ss_recent_decision_head st"
    "ss_recent_decision_count st' = ss_recent_decision_count st" "ss_counters st' = ss_counters st"
    by (simp_all add: header_consts_def magic_ok_def)
qed

lemma profile_frame_fields:
  assumes "profile_frame st st'"
  shows "header_consts st' = header_consts st" and "magic_ok st' = magic_ok st"
    and "ss_budget_buckets_len st' = ss_budget_buckets_len st"
    and "ss_recent_decision_head st' = ss_recent_decision_head st"
    and "ss_recent_decision_count st' = ss_recent_decision_count st"
    and "ss_counters st' = ss_counters st"
proof -
  obtain a b c d e where "st' = st\<lparr>ss_profiles_len := a, ss_profile_restore_state := b,
      ss_profile_restore_started_epoch_ms := c, ss_last_profile_persist_epoch_ms := d,
      ss_profile_dirty_count := e\<rparr>" using assms unfolding profile_frame_def by blast
  then show "header_consts st' = header_consts st" "magic_ok st' = magic_ok st"
    "ss_budget_buckets_len st' = ss_budget_buckets_len st"
    "ss_recent_decision_head st' = ss_recent_decision_head st"
    "ss_recent_decision_count st' = ss_recent_decision_count st" "ss_counters st' = ss_counters st"
    by (simp_all add: header_consts_def magic_ok_def)
qed

lemma header_consts_fields:
  assumes "header_consts st' = header_consts st"
  shows "ss_recent_decision_capacity st' = ss_recent_decision_capacity st"
    and "ss_profile_cache_capacity st' = ss_profile_cache_capacity st"
    and "ss_budget_bucket_capacity st' = ss_budget_bucket_capacity st"
    and "ss_scope_name_capacity st' = ss_scope_name_capacity st"
  using assms by (simp_all add: header_consts_def)

lemma mem_buckets_step:
  assumes m: "mem_wf m" and b: "buckets_wf (st, bs)" and f: "bucket_frame (sm_state m) st"
  shows "mem_step_ok m (m\<lparr>sm_state := st, sm_budget_buckets := bs\<rparr>)"
proof -
  note fields = bucket_frame_fields [OF f] header_consts_fields [OF bucket_frame_fields(1) [OF f]]
  have "profiles_wf (st, ps) = profiles_wf (sm_state m, ps)" for ps
    using fields by (intro profiles_wf_cong)
  moreover have "ring_repr (st, rs) h = ring_repr (sm_state m, rs) h" for rs h
    using fields by (intro ring_repr_cong)
  ultimately show ?thesis using m b fields by (simp add: mem_step_ok_def mem_wf_def)
qed

lemma mem_profiles_step:
  assumes m: "mem_wf m" and p: "profiles_wf (st, ps)" and f: "profile_frame (sm_state m) st"
  shows "mem_step_ok m (m\<lparr>sm_state := st, sm_profiles := ps\<rparr>)"
proof -
  note fields = profile_frame_fields [OF f] header_consts_fields [OF profile_frame_fields(1) [OF f]]
  have "buckets_wf (st, bs) = buckets_wf (sm_state m, bs)" for bs
    using fields by (intro buckets_wf_cong)
  moreover have "ring_repr (st, rs) h = ring_repr (sm_state m, rs) h" for rs h
    using fields by (intro ring_repr_cong)
  ultimately show ?thesis using m p fields by (simp add: mem_step_ok_def mem_wf_def)
qed

text \<open>The counters belong to no array.\<close>

lemma mem_wf_counters:
  "mem_wf (m\<lparr>sm_state := (sm_state m)\<lparr>ss_counters := c\<rparr>\<rparr>) = mem_wf m"
proof -
  let ?st = "(sm_state m)\<lparr>ss_counters := c\<rparr>"
  have "buckets_wf (?st, bs) = buckets_wf (sm_state m, bs)" "profiles_wf (?st, ps) = profiles_wf (sm_state m, ps)"
    "ring_repr (?st, rs) h = ring_repr (sm_state m, rs) h" for bs ps rs h
    by (intro buckets_wf_cong profiles_wf_cong ring_repr_cong; simp)+
  then show ?thesis by (simp add: mem_wf_def magic_ok_def)
qed

lemma mem_wf_ring_frame:
  assumes "mem_wf m" and "st' = (sm_state m)\<lparr>ss_recent_decision_head := h, ss_recent_decision_count := n\<rparr>"
    and "ring_repr (st', rs') hist"
  shows "mem_step_ok m (m\<lparr>sm_state := st', sm_recent_decisions := rs'\<rparr>)"
proof -
  have "buckets_wf (st', bs) = buckets_wf (sm_state m, bs)" "profiles_wf (st', ps) = profiles_wf (sm_state m, ps)"
    for bs ps by (intro buckets_wf_cong profiles_wf_cong; simp add: assms(2))+
  moreover have "magic_ok st' = magic_ok (sm_state m)" "header_consts st' = header_consts (sm_state m)"
    "ss_scope_name_capacity st' = ss_scope_name_capacity (sm_state m)"
    by (simp_all add: assms(2) magic_ok_def header_consts_def)
  moreover have "\<exists>hist. ring_repr (st', rs') hist" using assms(3) by blast
  ultimately show ?thesis using assms(1) by (simp add: mem_step_ok_def mem_wf_def)
qed

lemma mem_recent_step:
  assumes m: "mem_wf m"
    and reg: "record_recent_decision_locked r (sm_state m, sm_recent_decisions m) = (st', rs')"
  shows "mem_step_ok m (m\<lparr>sm_state := st', sm_recent_decisions := rs'\<rparr>)"
proof -
  obtain hist where "ring_repr (sm_state m, sm_recent_decisions m) hist" using m unfolding mem_wf_def by blast
  then have "\<exists>hist. ring_repr (st', rs') hist" using ring_repr_record reg by metis
  then obtain hist' where "ring_repr (st', rs') hist'" by blast
  moreover have "\<exists>h n. st' = (sm_state m)\<lparr>ss_recent_decision_head := h, ss_recent_decision_count := n\<rparr>"
    using record_frame [of r "(sm_state m, sm_recent_decisions m)"] unfolding reg fst_conv .
  ultimately show ?thesis using mem_wf_ring_frame [OF m] by blast
qed

lemma mem_names_step:
  assumes "mem_wf m" and "names_wf ns" and "length ns = length (sm_scope_names m)"
  shows "mem_step_ok m (m\<lparr>sm_scope_names := ns\<rparr>)"
  using assms by (simp add: mem_step_ok_def mem_wf_def)

lemma mem_step_trans: "mem_step_ok a b \<Longrightarrow> mem_step_ok b c \<Longrightarrow> mem_step_ok a c"
  by (simp add: mem_step_ok_def)

lemma mem_counters_step:
  "mem_wf m \<Longrightarrow> mem_step_ok m (m\<lparr>sm_state := (sm_state m)\<lparr>ss_counters := c\<rparr>\<rparr>)"
  by (simp add: mem_step_ok_def mem_wf_counters header_consts_def)

lemma mem_step_refl: "mem_wf m \<Longrightarrow> mem_step_ok m m"
  by (simp add: mem_step_ok_def)

section \<open>The operations keep the invariant\<close>

lemma admit_bucket_frame:
  "bucket_frame (fst reg) (fst (snd (apply_budget_bucket p h i f reg)))"
  "bucket_frame (fst reg) (fst (snd (existing_budget_bucket p h g reg)))"
  by (auto simp: bucket_frame_def apply_budget_bucket_def existing_budget_bucket_def Let_def
      split: prod.splits option.splits sum.splits)

lemma segment_bucket_step:
  assumes s: "segment_ok s"
    and wf: "buckets_wf (snd (callback (sm_state (sh_mem s), sm_budget_buckets (sh_mem s))))"
    and f: "bucket_frame (sm_state (sh_mem s))
      (fst (snd (callback (sm_state (sh_mem s), sm_budget_buckets (sh_mem s)))))"
  shows "segment_ok (snd (with_locked_bucket_state callback s))"
    and "fst (with_locked_bucket_state callback s)
      = fst (callback (sm_state (sh_mem s), sm_budget_buckets (sh_mem s)))"
    and "sh_mem (snd (with_locked_bucket_state callback s)) =
      (sh_mem s)\<lparr>sm_state := fst (snd (callback (sm_state (sh_mem s), sm_budget_buckets (sh_mem s)))),
        sm_budget_buckets := snd (snd (callback (sm_state (sh_mem s), sm_budget_buckets (sh_mem s))))\<rparr>"
proof -
  let ?m = "sh_mem s"
  obtain r st bs where cb: "callback (sm_state ?m, sm_budget_buckets ?m) = (r, (st, bs))"
    by (metis prod.exhaust)
  have m: "mem_wf ?m" using s by (simp add: segment_ok_def)
  have "mem_step_ok ?m (?m\<lparr>sm_state := st, sm_budget_buckets := bs\<rparr>)"
    using mem_buckets_step [OF m, of st bs] wf f by (simp add: cb)
  then show "segment_ok (snd (with_locked_bucket_state callback s))"
    and "fst (with_locked_bucket_state callback s) = fst (callback (sm_state ?m, sm_budget_buckets ?m))"
    and "sh_mem (snd (with_locked_bucket_state callback s)) =
      ?m\<lparr>sm_state := fst (snd (callback (sm_state ?m, sm_budget_buckets ?m))),
        sm_budget_buckets := snd (snd (callback (sm_state ?m, sm_budget_buckets ?m)))\<rparr>"
    using with_locked_mem_ok [OF s, of "\<lambda>m. case callback (sm_state m, sm_budget_buckets m) of
       (r, (state, buckets)) \<Rightarrow> (r, m\<lparr>sm_state := state, sm_budget_buckets := buckets\<rparr>)"]
    by (simp_all add: with_locked_bucket_state_def cb)
qed

lemma segment_profile_step:
  assumes s: "segment_ok s"
    and wf: "profiles_wf (snd (callback (sm_state (sh_mem s), sm_profiles (sh_mem s))))"
    and f: "profile_frame (sm_state (sh_mem s))
      (fst (snd (callback (sm_state (sh_mem s), sm_profiles (sh_mem s)))))"
  shows "segment_ok (snd (with_locked_profiles callback s))"
    and "fst (with_locked_profiles callback s)
      = fst (callback (sm_state (sh_mem s), sm_profiles (sh_mem s)))"
    and "sh_mem (snd (with_locked_profiles callback s)) =
      (sh_mem s)\<lparr>sm_state := fst (snd (callback (sm_state (sh_mem s), sm_profiles (sh_mem s)))),
        sm_profiles := snd (snd (callback (sm_state (sh_mem s), sm_profiles (sh_mem s))))\<rparr>"
proof -
  let ?m = "sh_mem s"
  obtain r st ps where cb: "callback (sm_state ?m, sm_profiles ?m) = (r, (st, ps))"
    by (metis prod.exhaust)
  have m: "mem_wf ?m" using s by (simp add: segment_ok_def)
  have "mem_step_ok ?m (?m\<lparr>sm_state := st, sm_profiles := ps\<rparr>)"
    using mem_profiles_step [OF m, of st ps] wf f by (simp add: cb)
  then show "segment_ok (snd (with_locked_profiles callback s))"
    and "fst (with_locked_profiles callback s) = fst (callback (sm_state ?m, sm_profiles ?m))"
    and "sh_mem (snd (with_locked_profiles callback s)) =
      ?m\<lparr>sm_state := fst (snd (callback (sm_state ?m, sm_profiles ?m))),
        sm_profiles := snd (snd (callback (sm_state ?m, sm_profiles ?m)))\<rparr>"
    using with_locked_mem_ok [OF s, of "\<lambda>m. case callback (sm_state m, sm_profiles m) of
       (r, (state, profiles)) \<Rightarrow> (r, m\<lparr>sm_state := state, sm_profiles := profiles\<rparr>)"]
    by (simp_all add: with_locked_profiles_def cb)
qed

text \<open>The buckets of a segment, and what the two bucket operations do to them.\<close>

definition segment_bucket :: "shmem \<Rightarrow> bucket_key \<rightharpoonup> budget_bucket_state" where
  "segment_bucket s = bucket_at (sm_state (sh_mem s), sm_budget_buckets (sh_mem s))"

definition segment_room :: "shmem \<Rightarrow> bool" where
  "segment_room s \<longleftrightarrow> bucket_room (sm_state (sh_mem s), sm_budget_buckets (sh_mem s))"

definition segment_admit ::
  "bucket_key \<Rightarrow> budget_bucket_state \<Rightarrow> 'r bucket_callback \<Rightarrow> shmem \<Rightarrow> 'r pwb_result \<times> shmem" where
  "segment_admit k i f s = admit_with_budget_bucket (fst k) (snd k) i f s"

definition segment_visit ::
  "bucket_key \<Rightarrow> 'r bucket_callback \<Rightarrow> shmem \<Rightarrow> 'r option pwb_result \<times> shmem" where
  "segment_visit k f s = with_existing_budget_bucket (fst k) (snd k) f s"

lemma bucket_at_snd: "bucket_at reg = bucket_at (x, snd reg)"
  by (simp add: bucket_at_def fun_eq_iff)

lemma segment_admit_refines:
  assumes s: "segment_ok s" and i: "state_key i = k" and f: "\<And>b. state_key (snd (f b)) = state_key b"
  shows "segment_ok (snd (segment_admit k i f s)) \<and>
    map_prod id segment_bucket (segment_admit k i f s)
      = map_admit (segment_room s) budget_bucket_capacity_exhausted k i f (segment_bucket s)"
proof -
  let ?reg = "(sm_state (sh_mem s), sm_budget_buckets (sh_mem s))"
  have wf: "buckets_wf ?reg" using s by (simp add: segment_ok_def mem_wf_def)
  note ref = bucket_table.admit_refines [OF wf i f, unfolded admit_bucket_def]
  note step = segment_bucket_step [OF s, of "apply_budget_bucket (fst k) (snd k) i f"]
  have 1: "segment_ok (snd (segment_admit k i f s))"
    unfolding segment_admit_def admit_with_budget_bucket_def
    using ref admit_bucket_frame(1) [of ?reg "fst k" "snd k" i f] by (intro step(1)) simp_all
  have 2: "map_prod id segment_bucket (segment_admit k i f s)
      = map_prod id bucket_at (apply_budget_bucket (fst k) (snd k) i f ?reg)"
    using ref admit_bucket_frame(1) [of ?reg "fst k" "snd k" i f] step(2,3)
    by (simp add: segment_admit_def admit_with_budget_bucket_def segment_bucket_def prod_eq_iff
        bucket_at_snd [of "snd (apply_budget_bucket (fst k) (snd k) i f ?reg)"])
  show ?thesis using 1 2 ref by (simp add: segment_room_def segment_bucket_def)
qed

lemma segment_visit_refines:
  assumes s: "segment_ok s" and f: "\<And>b. state_key (snd (f b)) = state_key b"
  shows "segment_ok (snd (segment_visit k f s)) \<and>
    map_prod id segment_bucket (segment_visit k f s) = map_visit k f (segment_bucket s)"
proof -
  let ?reg = "(sm_state (sh_mem s), sm_budget_buckets (sh_mem s))"
  have wf: "buckets_wf ?reg" using s by (simp add: segment_ok_def mem_wf_def)
  note ref = bucket_table.visit_refines [OF wf f, of k, unfolded visit_bucket_def]
  note step = segment_bucket_step [OF s, of "existing_budget_bucket (fst k) (snd k) f"]
  have 1: "segment_ok (snd (segment_visit k f s))"
    unfolding segment_visit_def with_existing_budget_bucket_def
    using ref admit_bucket_frame(2) [of ?reg "fst k" "snd k" f] by (intro step(1)) simp_all
  have 2: "map_prod id segment_bucket (segment_visit k f s)
      = map_prod id bucket_at (existing_budget_bucket (fst k) (snd k) f ?reg)"
    using ref admit_bucket_frame(2) [of ?reg "fst k" "snd k" f] step(2,3)
    by (simp add: segment_visit_def with_existing_budget_bucket_def segment_bucket_def prod_eq_iff
        bucket_at_snd [of "snd (existing_budget_bucket (fst k) (snd k) f ?reg)"])
  show ?thesis using 1 2 ref by (simp add: segment_bucket_def)
qed

interpretation segment_store: keyed_store segment_ok segment_bucket segment_room
  budget_bucket_capacity_exhausted state_key segment_admit segment_visit
proof unfold_locales
  show "segment_bucket s k = Some v \<Longrightarrow> state_key v = k" for s k v
    unfolding segment_bucket_def by (rule bucket_at_key)
qed (use segment_admit_refines segment_visit_refines in blast)+

section \<open>Profile operations\<close>

lemma profile_frame_refl [simp]: "profile_frame st st"
  by (simp add: profile_frame_def)

lemma profile_frameI:
  "st' = st\<lparr>ss_profiles_len := a, ss_profile_restore_state := b,
      ss_profile_restore_started_epoch_ms := c, ss_last_profile_persist_epoch_ms := d,
      ss_profile_dirty_count := e\<rparr> \<Longrightarrow> profile_frame st st'"
  by (simp add: profile_frame_def)

lemma profile_frame_trans:
  assumes "profile_frame a b" and "profile_frame b c"
  shows "profile_frame a c"
proof -
  obtain x1 x2 x3 x4 x5 where "b = a\<lparr>ss_profiles_len := x1, ss_profile_restore_state := x2,
      ss_profile_restore_started_epoch_ms := x3, ss_last_profile_persist_epoch_ms := x4,
      ss_profile_dirty_count := x5\<rparr>" using assms(1) unfolding profile_frame_def by blast
  moreover obtain y1 y2 y3 y4 y5 where "c = b\<lparr>ss_profiles_len := y1, ss_profile_restore_state := y2,
      ss_profile_restore_started_epoch_ms := y3, ss_last_profile_persist_epoch_ms := y4,
      ss_profile_dirty_count := y5\<rparr>" using assms(2) unfolding profile_frame_def by blast
  ultimately show ?thesis by (intro profile_frameI) simp
qed

lemma profile_frame_updates [simp]:
  "profile_frame st (st\<lparr>ss_profile_dirty_count := e\<rparr>)"
  "profile_frame st (st\<lparr>ss_profiles_len := a\<rparr>)"
  "profile_frame st (st\<lparr>ss_last_profile_persist_epoch_ms := d\<rparr>)"
  "profile_frame st (st\<lparr>ss_profile_restore_state := b, ss_profile_restore_started_epoch_ms := c\<rparr>)"
  "profile_frame st (st\<lparr>ss_profiles_len := a, ss_profile_restore_state := b,
      ss_profile_restore_started_epoch_ms := c, ss_last_profile_persist_epoch_ms := d,
      ss_profile_dirty_count := e\<rparr>)"
  by (simp_all add: profile_frame_def)

lemma place_frame: "profile_frame st (fst (snd (place_profile h q p (st, ps))))"
  by (auto simp: place_profile_def Let_def count_new_profile_def split: option.splits)

lemma upsert_frame:
  "profile_frame (fst reg) (fst (snd (upsert_and_mark_dirty h q a t w reg)))"
proof -
  have one: "profile_frame (fst reg) (fst (snd (upsert_query_profile_locked h q a t w reg)))" for h reg
    by (cases reg) (simp add: upsert_place place_frame)
  obtain r1 reg1 where 1: "upsert_query_profile_locked (Some h) q a t w reg = (r1, reg1)" by (meson surj_pair)
  obtain r2 reg2 where 2: "upsert_query_profile_locked None q a t w reg1 = (r2, reg2)" by (meson surj_pair)
  have "profile_frame (fst reg) (fst reg1)" "profile_frame (fst reg1) (fst reg2)"
    using one [of reg "Some h"] one [of reg1 None] 1 2 by simp_all
  then have "profile_frame (fst reg) (fst reg2)" by (rule profile_frame_trans)
  with \<open>profile_frame (fst reg) (fst reg1)\<close> show ?thesis
    by (cases r1; cases r2; cases reg2)
       (auto simp: upsert_and_mark_dirty_def upsert_scoped_and_global_query_profiles_locked_def 1 2
          intro: profile_frame_trans [OF _ profile_frame_updates(1)])
qed

lemma upsert_wf:
  assumes "profiles_wf (st, ps)" and "weights_ok w"
  shows "profiles_wf (snd (upsert_and_mark_dirty h q a t w (st, ps)))"
proof (cases "ps = []")
  case True
  then show ?thesis
    using assms by (simp add: upsert_and_mark_dirty_def upsert_scoped_and_global_query_profiles_locked_def
        empty_cache_error)
next
  case False
  obtain st1 ps1 where 1: "upsert_query_profile_locked (Some h) q a t w (st, ps) = (Inr (), (st1, ps1))"
    "profiles_wf (st1, ps1)" using upsert_spec [OF assms False] by blast
  show ?thesis
  proof (cases "ps1 = []")
    case True
    then show ?thesis
      using 1 by (simp add: upsert_and_mark_dirty_def upsert_scoped_and_global_query_profiles_locked_def
          empty_cache_error)
  next
    case False
    obtain st2 ps2 where "upsert_query_profile_locked None q a t w (st1, ps1) = (Inr (), (st2, ps2))"
      "profiles_wf (st2, ps2)" using upsert_spec [OF 1(2) assms(2) False] by blast
    with 1 show ?thesis
      by (simp add: upsert_and_mark_dirty_def upsert_scoped_and_global_query_profiles_locked_def)
  qed
qed

lemma segment_profiles_wf: "segment_ok s \<Longrightarrow> profiles_wf (sm_state (sh_mem s), sm_profiles (sh_mem s))"
  by (simp add: segment_ok_def mem_wf_def)

lemma segment_upsert:
  assumes "segment_ok s" and "weights_ok w"
  shows "segment_ok (snd (upsert_scoped_and_global_query_profiles h q a t w s))"
  unfolding upsert_scoped_and_global_query_profiles_def
  using upsert_wf [OF segment_profiles_wf [OF assms(1)] assms(2)]
    upsert_frame [of "(sm_state (sh_mem s), sm_profiles (sh_mem s))"]
  by (intro segment_profile_step(1) [OF assms(1)]) simp_all

lemma default_entry_ok: "entry_ok pwb_profile_entry_default"
  by (simp add: entry_ok_def pwb_profile_entry_default_def)

lemma filter_blank: "filter profile_occ (map (\<lambda>_. pwb_profile_entry_default) ps) = []"
  by (simp add: filter_empty_conv profile_slots.blank_free)

lemma reset_profiles_wf:
  "profiles_wf (st, ps) \<Longrightarrow> profiles_wf (reset_profiles_locked (st, ps))"
  by (simp add: reset_profiles_locked_def profiles_wf_def profile_slots.distinct_fill
      filter_blank default_entry_ok)

lemma segment_reset_profiles:
  assumes "segment_ok s"
  shows "segment_ok (snd (reset_profiles s))"
  unfolding reset_profiles_def
  using reset_profiles_wf [OF segment_profiles_wf [OF assms]]
  by (intro segment_profile_step(1) [OF assms]) (simp_all add: reset_profiles_locked_def)

section \<open>Telemetry\<close>

lemma mem_wf_update_counters:
  "mem_wf m \<Longrightarrow> sm_state m = st \<Longrightarrow> mem_step_ok m (m\<lparr>sm_state := st\<lparr>ss_counters := c\<rparr>\<rparr>)"
  using mem_counters_step by blast

lemma record_scope_name_wf:
  assumes "names_wf ns" and "utf8_valid v"
  shows "names_wf (snd (record_scope_name_in_slice k h v now ns))"
    and "length (snd (record_scope_name_in_slice k h v now ns)) = length ns"
  using record_scope_name_refines(2) [OF assms]
  by (auto simp: record_scope_name_in_slice_def split: prod.splits option.splits)

lemma segment_mem_wf: "segment_ok s \<Longrightarrow> mem_wf (sh_mem s)"
  by (simp add: segment_ok_def)

lemma segment_add_counters:
  assumes "segment_ok s"
  shows "segment_ok (snd (add_counters d s))" and "fst (add_counters d s) = Inr ()"
  unfolding add_counters_def
  using with_locked_mem_ok(1,2) [OF assms, of "\<lambda>m. (Inr (), m\<lparr>sm_state := (sm_state m)\<lparr>ss_counters :=
      saturating_add_delta (ss_counters (sm_state m)) d\<rparr>\<rparr>)"] mem_counters_step [OF segment_mem_wf [OF assms]]
  by simp_all

lemma segment_record_recent:
  assumes "segment_ok s"
  shows "segment_ok (snd (record_recent_decision r s))" and "fst (record_recent_decision r s) = Inr ()"
proof -
  obtain st rs where reg: "record_recent_decision_locked r (sm_state (sh_mem s), sm_recent_decisions (sh_mem s)) = (st, rs)"
    by (meson surj_pair)
  note step = mem_recent_step [OF segment_mem_wf [OF assms] reg]
  show "segment_ok (snd (record_recent_decision r s))" "fst (record_recent_decision r s) = Inr ()"
    unfolding record_recent_decision_def with_locked_recent_def
    using with_locked_mem_ok(1,2) [OF assms, of "\<lambda>m. case (Inr (), record_recent_decision_locked r (sm_state m, sm_recent_decisions m)) of
       (r, (state, recent)) \<Rightarrow> (r, m\<lparr>sm_state := state, sm_recent_decisions := recent\<rparr>)"] step
    by (simp_all add: reg)
qed

lemma segment_decision_telemetry:
  assumes "segment_ok s"
  shows "segment_ok (snd (record_decision_telemetry d r s))"
    and "fst (record_decision_telemetry d r s) = Inr ()"
proof -
  obtain s1 where 1: "add_counters d s = (Inr (), s1)"
    using segment_add_counters(2) [OF assms, of d] by (cases "add_counters d s") simp
  have "segment_ok s1" using segment_add_counters(1) [OF assms, of d] by (simp add: 1)
  then show "segment_ok (snd (record_decision_telemetry d r s))"
    "fst (record_decision_telemetry d r s) = Inr ()"
    using segment_record_recent by (simp_all add: record_decision_telemetry_def 1)
qed

lemma mem_scope_step:
  assumes m: "mem_wf m" and v: "\<And>v. sk_debug_value scope = Some v \<Longrightarrow> utf8_valid v"
  shows "mem_step_ok m (record_scope_locked scope now m)"
proof (cases "sk_debug_value scope")
  case None
  then show ?thesis using m by (simp add: record_scope_locked_def mem_step_refl)
next
  case (Some sv)
  obtain res ns where ns: "record_scope_name_in_slice (sk_kind scope) (sk_value_hash scope) sv now
      (sm_scope_names m) = (res, ns)" by (meson surj_pair)
  have "names_wf (sm_scope_names m)" using m by (simp add: mem_wf_def)
  then have step: "mem_step_ok m (m\<lparr>sm_scope_names := ns\<rparr>)"
    using record_scope_name_wf [OF _ v [OF Some], of "sm_scope_names m" "sk_kind scope" "sk_value_hash scope" now] ns
    by (intro mem_names_step [OF m]) simp_all
  show ?thesis
  proof (cases res)
    case Recorded
    then show ?thesis using step Some ns by (simp add: record_scope_locked_def)
  next
    case Dropped
    have "mem_wf (m\<lparr>sm_scope_names := ns\<rparr>)" using step by (simp add: mem_step_ok_def)
    from mem_step_trans [OF step mem_counters_step [OF this]]
    show ?thesis using Some ns Dropped by (simp add: record_scope_locked_def Let_def)
  qed
qed

lemma segment_admission_telemetry:
  assumes s: "segment_ok s" and v: "\<And>v. sk_debug_value scope = Some v \<Longrightarrow> utf8_valid v"
  shows "segment_ok (snd (record_admission_telemetry d r scope now s))"
    and "fst (record_admission_telemetry d r scope now s) = Inr ()"
proof -
  let ?m = "sh_mem s"
  let ?st = "(sm_state ?m)\<lparr>ss_counters := saturating_add_delta (ss_counters (sm_state ?m)) d\<rparr>"
  obtain st rs where reg: "record_recent_decision_locked r (?st, sm_recent_decisions ?m) = (st, rs)"
    by (meson surj_pair)
  let ?m1 = "?m\<lparr>sm_state := ?st\<rparr>" and ?m2 = "?m\<lparr>sm_state := st, sm_recent_decisions := rs\<rparr>"
  have 1: "mem_step_ok ?m ?m1" using mem_counters_step [OF segment_mem_wf [OF s]] .
  moreover have "mem_step_ok ?m1 (?m1\<lparr>sm_state := st, sm_recent_decisions := rs\<rparr>)"
    using 1 reg by (intro mem_recent_step) (simp_all add: mem_step_ok_def)
  ultimately have 2: "mem_step_ok ?m ?m2" using mem_step_trans by fastforce
  have "mem_step_ok ?m (record_scope_locked scope now ?m2)"
    using mem_step_trans [OF 2 mem_scope_step] 2 v by (simp add: mem_step_ok_def)
  then show "segment_ok (snd (record_admission_telemetry d r scope now s))"
    and "fst (record_admission_telemetry d r scope now s) = Inr ()"
    unfolding record_admission_telemetry_def
    using with_locked_mem_ok(1,2) [OF s, of "\<lambda>m.
       let state = (sm_state m)\<lparr>ss_counters := saturating_add_delta (ss_counters (sm_state m)) d\<rparr>;
           (state, recent) = record_recent_decision_locked r (state, sm_recent_decisions m)
       in (Inr (), record_scope_locked scope now (m\<lparr>sm_state := state, sm_recent_decisions := recent\<rparr>))"]
    by (simp_all add: reg)
qed

lemma segment_reset_stats:
  assumes s: "segment_ok s"
  shows "segment_ok (snd (reset_stats s))" and "fst (reset_stats s) = Inr ()"
proof -
  let ?m = "sh_mem s" and ?st = "sm_state (sh_mem s)"
  let ?st1 = "?st\<lparr>ss_counters := pwb_counters_default\<rparr>"
  let ?st2 = "?st1\<lparr>ss_recent_decision_head := 0, ss_recent_decision_count := 0\<rparr>"
  let ?rs = "map (\<lambda>_. pwb_recent_decision_default) (sm_recent_decisions ?m)"
  let ?ns = "map (\<lambda>_. pwb_scope_name_default) (sm_scope_names ?m)"
  have m: "mem_wf ?m" by (rule segment_mem_wf [OF s])
  have len: "length (sm_recent_decisions ?m) = recent_decision_capacity ?st"
    using m by (auto simp: mem_wf_def ring_repr_def)
  have 1: "mem_step_ok ?m (?m\<lparr>sm_state := ?st1\<rparr>)" using mem_counters_step [OF m] .
  have "ring_repr (?st2, ?rs) []"
    using ring_repr_empty [of ?st1] len
    by (simp add: empty_ring_def map_replicate_const recent_decision_capacity_def)
  then have "mem_step_ok (?m\<lparr>sm_state := ?st1\<rparr>) (?m\<lparr>sm_state := ?st1\<rparr>\<lparr>sm_state := ?st2, sm_recent_decisions := ?rs\<rparr>)"
    using 1 by (intro mem_wf_ring_frame) (simp_all add: mem_step_ok_def)
  with 1 have 2: "mem_step_ok ?m (?m\<lparr>sm_state := ?st2, sm_recent_decisions := ?rs\<rparr>)"
    using mem_step_trans by fastforce
  have "sn_occupied pwb_scope_name_default = 0" by (simp add: pwb_scope_name_default_def)
  then have "names_wf ?ns" by (auto simp: names_wf_def name_slots.distinct_fill)
  then have "mem_step_ok (?m\<lparr>sm_state := ?st2, sm_recent_decisions := ?rs\<rparr>)
      (?m\<lparr>sm_state := ?st2, sm_recent_decisions := ?rs\<rparr>\<lparr>sm_scope_names := ?ns\<rparr>)"
    using 2 by (intro mem_names_step) (simp_all add: mem_step_ok_def)
  with 2 have "mem_step_ok ?m (?m\<lparr>sm_state := ?st2, sm_recent_decisions := ?rs, sm_scope_names := ?ns\<rparr>)"
    using mem_step_trans by fastforce
  then show "segment_ok (snd (reset_stats s))" and "fst (reset_stats s) = Inr ()"
    unfolding reset_stats_def
    using with_locked_mem_ok(1,2) [OF s, of "\<lambda>m. (Inr (),
       m\<lparr>sm_state := (sm_state m)\<lparr>ss_counters := pwb_counters_default,
                       ss_recent_decision_head := 0, ss_recent_decision_count := 0\<rparr>,
         sm_recent_decisions := map (\<lambda>_. pwb_recent_decision_default) (sm_recent_decisions m),
         sm_scope_names := map (\<lambda>_. pwb_scope_name_default) (sm_scope_names m)\<rparr>)"] by simp_all
qed

section \<open>Starting up\<close>

lemma capacity_to_u32_small: "unat c \<le> 1000000 \<Longrightarrow> unat (capacity_to_u32 c) = unat c"
  by (simp add: capacity_to_u32_def unsigned_ucast_eq take_bit_nat_eq_self)

definition bounded_capacities :: "shared_capacities \<Rightarrow> bool" where
  "bounded_capacities c \<longleftrightarrow>
     unat (sc_recent_decisions c) \<le> 1000000 \<and> unat (sc_profiles c) \<le> 1000000
   \<and> unat (sc_budget_buckets c) \<le> 1000000 \<and> unat (sc_scope_names c) \<le> 1000000"

lemma compute_layout_bounded:
  assumes "bounded_capacities c"
  obtains l where "compute_layout c = Inr l" and "sl_total_bytes l \<noteq> 0"
    and "sl_recent_decision_capacity l = sc_recent_decisions c"
    and "sl_profile_cache_capacity l = sc_profiles c"
    and "sl_budget_bucket_capacity l = sc_budget_buckets c"
    and "sl_scope_name_capacity l = sc_scope_names c"
proof -
  let ?o = "168 + sc_recent_decisions c * 72 + sc_profiles c * 56 + sc_budget_buckets c * 56
      + sc_scope_names c * 296"
  have lt: "layout_total c < 2 ^ 64"
    using assms by (intro layout_total_bounded) (simp_all add: bounded_capacities_def)
  have "168 + unat (sc_recent_decisions c) * 72 + unat (sc_profiles c) * 56
      + unat (sc_budget_buckets c) * 56 + unat (sc_scope_names c) * 296 < 2 ^ 64"
    using lt by (simp add: layout_total_def mult.commute)
  then have "unat ?o = 168 + unat (sc_recent_decisions c) * 72 + unat (sc_profiles c) * 56
      + unat (sc_budget_buckets c) * 56 + unat (sc_scope_names c) * 296"
    by (simp add: unat_region_end)
  then have "?o \<noteq> 0" by (metis add_is_0 unat_0 zero_neq_numeral)
  with lt show thesis
    by (intro that [of "projr (compute_layout c)"]) (simp_all add: compute_layout_eq Let_def)
qed

lemma zeroed_segment_wf:
  assumes "bounded_capacities c" and "sl_recent_decision_capacity l = sc_recent_decisions c"
    and "sl_profile_cache_capacity l = sc_profiles c"
    and "sl_budget_bucket_capacity l = sc_budget_buckets c"
    and "sl_scope_name_capacity l = sc_scope_names c"
  shows "mem_wf (zeroed_segment l)"
proof -
  note cap = assms [unfolded bounded_capacities_def]
  let ?st = "initialize_state l"
  have caps: "unat (ss_recent_decision_capacity ?st) = unat (sc_recent_decisions c)"
    "unat (ss_profile_cache_capacity ?st) = unat (sc_profiles c)"
    "unat (ss_budget_bucket_capacity ?st) = unat (sc_budget_buckets c)"
    "unat (ss_scope_name_capacity ?st) = unat (sc_scope_names c)"
    using cap by (simp_all add: initialize_state_def capacity_to_u32_small)
  have lens: "ss_budget_buckets_len ?st = 0" "ss_profiles_len ?st = 0"
    "ss_recent_decision_head ?st = 0" "ss_recent_decision_count ?st = 0"
    by (simp_all add: initialize_state_def)
  have "buckets_wf (?st, replicate (unat (sc_budget_buckets c)) pwb_budget_bucket_default)"
    by (simp add: buckets_wf_def caps lens bucket_slots.blank_free bucket_slots.distinct_blank)
  moreover have "profiles_wf (?st, replicate (unat (sc_profiles c)) pwb_profile_entry_default)"
    by (simp add: profiles_wf_def caps lens profile_slots.blank_free profile_slots.distinct_blank
        default_entry_ok)
  moreover have "ring_repr (?st, replicate (unat (sc_recent_decisions c)) pwb_recent_decision_default) []"
    by (simp add: ring_repr_def caps lens recent_decision_capacity_def recent_decision_count_def)
  moreover have "sn_occupied pwb_scope_name_default = 0" by (simp add: pwb_scope_name_default_def)
  then have "names_wf (replicate (unat (sc_scope_names c)) pwb_scope_name_default)"
    by (simp add: names_wf_def name_slots.distinct_blank)
  ultimately show ?thesis
    using caps assms by (auto simp: mem_wf_def zeroed_segment_def)
       (simp add: magic_ok_def initialize_state_def)
qed

lemma startup_segment:
  assumes "bounded_capacities c"
  shows "\<exists>s1 s2. shmem_request c s = (Inr (), s1) \<and> shmem_startup True True None s1 = (Inr (), s2)
    \<and> segment_ok s2 \<and> is_available s2
    \<and> length (sm_recent_decisions (sh_mem s2)) = unat (sc_recent_decisions c)
    \<and> length (sm_profiles (sh_mem s2)) = unat (sc_profiles c)
    \<and> length (sm_budget_buckets (sh_mem s2)) = unat (sc_budget_buckets c)
    \<and> length (sm_scope_names (sh_mem s2)) = unat (sc_scope_names c)
    \<and> segment_bucket s2 = Map.empty"
proof -
  obtain l where l: "compute_layout c = Inr l" "sl_total_bytes l \<noteq> 0"
    and caps: "sl_recent_decision_capacity l = sc_recent_decisions c"
      "sl_profile_cache_capacity l = sc_profiles c" "sl_budget_bucket_capacity l = sc_budget_buckets c"
      "sl_scope_name_capacity l = sc_scope_names c"
    using compute_layout_bounded [OF assms] by blast
  let ?s2 = "s\<lparr>sh_layout := l, sh_lock := True, sh_attached := True, sh_mem := zeroed_segment l\<rparr>"
  have small: "unat (sc_recent_decisions c) \<le> 1000000" "unat (sc_profiles c) \<le> 1000000"
    "unat (sc_budget_buckets c) \<le> 1000000" "unat (sc_scope_names c) \<le> 1000000"
    using assms by (simp_all add: bounded_capacities_def)
  have "layout_matches ?s2"
    using small by (simp add: layout_matches_def zeroed_segment_def initialize_state_def caps
        capacity_to_u32_small)
  then have ok: "segment_ok ?s2"
    using zeroed_segment_wf [OF assms caps] l(2) by (simp add: segment_ok_def)
  have empty: "segment_bucket ?s2 = Map.empty"
    by (simp add: segment_bucket_def fun_eq_iff bucket_at_def zeroed_segment_def bucket_slots.lookup_blank)
  have "shmem_request c s = (Inr (), s\<lparr>sh_layout := l\<rparr>)" by (simp add: shmem_request_def l)
  moreover have "shmem_startup True True None (s\<lparr>sh_layout := l\<rparr>) = (Inr (), ?s2)"
    by (simp add: shmem_startup_def Let_def)
  moreover have "length (sm_recent_decisions (sh_mem ?s2)) = unat (sc_recent_decisions c)"
    "length (sm_profiles (sh_mem ?s2)) = unat (sc_profiles c)"
    "length (sm_budget_buckets (sh_mem ?s2)) = unat (sc_budget_buckets c)"
    "length (sm_scope_names (sh_mem ?s2)) = unat (sc_scope_names c)"
    by (simp_all add: zeroed_segment_def caps)
  ultimately show ?thesis using ok empty segment_available [OF ok] by blast
qed

text \<open>
  C26: starting the server with capacities in the configured range succeeds and leaves a
  segment in which every invariant holds: it is available, its arrays have the configured
  lengths, there is no bucket, no profile, no decision and no name in it.
\<close>

theorem startup_establishes_segment:
  assumes "bounded_capacities c"
  shows "\<exists>s1 s2. shmem_request c s = (Inr (), s1) \<and> shmem_startup True True None s1 = (Inr (), s2)
    \<and> segment_ok s2 \<and> is_available s2
    \<and> length (sm_recent_decisions (sh_mem s2)) = unat (sc_recent_decisions c)
    \<and> length (sm_profiles (sh_mem s2)) = unat (sc_profiles c)
    \<and> length (sm_budget_buckets (sh_mem s2)) = unat (sc_budget_buckets c)
    \<and> length (sm_scope_names (sh_mem s2)) = unat (sc_scope_names c)
    \<and> segment_bucket s2 = Map.empty"
  using assms by (rule startup_segment)

definition sample_capacities :: shared_capacities where
  "sample_capacities =
     \<lparr>sc_recent_decisions = 2, sc_profiles = 2, sc_budget_buckets = 2, sc_scope_names = 2\<rparr>"

definition sample_shmem :: shmem where
  "sample_shmem =
     \<lparr>sh_lock = False, sh_attached = False, sh_layout = shared_layout_empty,
      sh_mem = zeroed_segment shared_layout_empty\<rparr>"

theorem startup_establishes_segment_witness:
  "\<exists>s1 s2. shmem_request sample_capacities sample_shmem = (Inr (), s1)
    \<and> shmem_startup True True None s1 = (Inr (), s2) \<and> segment_ok s2
    \<and> length (sm_budget_buckets (sh_mem s2)) = 2 \<and> segment_bucket s2 = Map.empty"
proof -
  have "bounded_capacities sample_capacities"
    by (simp add: bounded_capacities_def sample_capacities_def)
  from startup_establishes_segment [OF this, of sample_shmem] show ?thesis
    by (auto simp: sample_capacities_def)
qed

text \<open>A segment as the server starts with it.\<close>

definition started_shmem :: shmem where
  "started_shmem = snd (shmem_startup True True None (snd (shmem_request sample_capacities sample_shmem)))"

lemma started_shmem_ok: "segment_ok started_shmem" "segment_bucket started_shmem = Map.empty"
proof -
  have "bounded_capacities sample_capacities"
    by (simp add: bounded_capacities_def sample_capacities_def)
  from startup_segment [OF this, of sample_shmem]
  show "segment_ok started_shmem" "segment_bucket started_shmem = Map.empty"
    by (auto simp: started_shmem_def)
qed

lemma started_shmem_room: "segment_room started_shmem"
proof -
  let ?reg = "(sm_state (sh_mem started_shmem), sm_budget_buckets (sh_mem started_shmem))"
  have "bounded_capacities sample_capacities"
    by (simp add: bounded_capacities_def sample_capacities_def)
  from startup_segment [OF this, of sample_shmem]
  have "length (sm_budget_buckets (sh_mem started_shmem)) = 2"
    by (auto simp: started_shmem_def sample_capacities_def)
  moreover have wf: "buckets_wf ?reg"
    using started_shmem_ok(1) by (simp add: segment_ok_def mem_wf_def)
  moreover have "dom (bucket_at ?reg) = {}"
    using started_shmem_ok(2) by (simp add: segment_bucket_def)
  ultimately show ?thesis
    using card_bucket_dom [OF wf]
    by (simp add: segment_room_def bucket_room_def occupied_budget_bucket_len_def)
qed

end
