(* ===== verification/Pwb_Catalog.thy ===== *)
theory Pwb_Catalog
  imports Pwb_Segment
begin

text \<open>
  The durable catalog: \<^verbatim>\<open>src/catalog.rs\<close> and \<^verbatim>\<open>src/profile_store.rs\<close>. The trait
  \<open>DurableCatalogStore\<close> is a record of its four operations on a store state. The SPI store is
  built from the answers of the server (the record \<^verbatim>\<open>spi\<close>, a parameter: each query may fail
  with the text of the SPI error); the in-memory store of the source is written out. The
  lemmas show that a persisted profile row reads back exactly, that a row is rejected exactly
  when a field is missing or not a 64-bit number, and that the in-memory store is a map of
  which a load returns the most recent entries.
\<close>

section \<open>The interface\<close>

record durable_policy_row =
  dr_policy_id :: policy_id
  dr_scope_kind :: string
  dr_scope_value :: "string option"
  dr_enabled :: bool
  dr_mode :: string
  dr_wal_rate_bytes_per_sec :: i64
  dr_wal_burst_bytes :: i64

record 'st durable_catalog_store =
  load_enabled_policy_rows :: "'st \<Rightarrow> durable_policy_row list pwb_result \<times> 'st"
  load_profiles :: "usize \<Rightarrow> 'st \<Rightarrow> query_profile_snapshot list pwb_result \<times> 'st"
  persist_profiles :: "query_profile_snapshot list \<Rightarrow> 'st \<Rightarrow> unit pwb_result \<times> 'st"
  delete_profiles :: "'st \<Rightarrow> unit pwb_result \<times> 'st"

text \<open>\<open>profile_store\<close>: the profile operations of a store.\<close>

definition load_profiles_from ::
  "'st durable_catalog_store \<Rightarrow> usize \<Rightarrow> 'st \<Rightarrow> query_profile_snapshot list pwb_result \<times> 'st" where
  "load_profiles_from store limit = load_profiles store limit"

definition persist_profiles_with ::
  "'st durable_catalog_store \<Rightarrow> query_profile_snapshot list \<Rightarrow> 'st \<Rightarrow> unit pwb_result \<times> 'st" where
  "persist_profiles_with store profiles = persist_profiles store profiles"

definition delete_profiles_with :: "'st durable_catalog_store \<Rightarrow> 'st \<Rightarrow> unit pwb_result \<times> 'st" where
  "delete_profiles_with store = delete_profiles store"

section \<open>Rows as the server returns them\<close>

text \<open>An SPI result: an error with its text, or a value.\<close>

type_synonym 'a spi_result = "string + 'a"

definition catalog_spi_error :: "string \<Rightarrow> string \<Rightarrow> pwb_error" where
  "catalog_spi_error operation error =
     Internal (''SPI '' @ operation @ '' operation failed: '' @ error)"

definition policy_spi_error :: "string \<Rightarrow> pwb_error" where
  "policy_spi_error error = catalog_spi_error ''policy'' error"

definition profile_spi_error :: "string \<Rightarrow> pwb_error" where
  "profile_spi_error error = catalog_spi_error ''query profile'' error"

definition map_err :: "('e \<Rightarrow> 'f) \<Rightarrow> 'e + 'a \<Rightarrow> 'f + 'a" where
  "map_err f r = (case r of Inl e \<Rightarrow> Inl (f e) | Inr x \<Rightarrow> Inr x)"

lemma map_err_simps [simp]: "map_err f (Inl e) = Inl (f e)" "map_err f (Inr x) = Inr x"
  by (simp_all add: map_err_def)

definition required_policy_field :: "string \<Rightarrow> 'a option spi_result \<Rightarrow> 'a pwb_result" where
  "required_policy_field field value =
     rbind (map_err policy_spi_error value) (\<lambda>value. case value of
       None \<Rightarrow> Inl (Internal (''effective policy row is missing '' @ field))
     | Some v \<Rightarrow> Inr v)"

record raw_policy_row =
  rr_policy_id :: "policy_id option spi_result"
  rr_scope_kind :: "string option spi_result"
  rr_scope_value :: "string option spi_result"
  rr_enabled :: "bool option spi_result"
  rr_mode :: "string option spi_result"
  rr_wal_rate_bytes_per_sec :: "i64 option spi_result"
  rr_wal_burst_bytes :: "i64 option spi_result"

definition policy_row_of :: "raw_policy_row \<Rightarrow> durable_policy_row pwb_result" where
  "policy_row_of row =
     rbind (required_policy_field ''policy_id'' (rr_policy_id row)) (\<lambda>policy_id.
     rbind (required_policy_field ''scope_kind'' (rr_scope_kind row)) (\<lambda>scope_kind.
     rbind (map_err policy_spi_error (rr_scope_value row)) (\<lambda>scope_value.
     rbind (required_policy_field ''enabled'' (rr_enabled row)) (\<lambda>enabled.
     rbind (required_policy_field ''mode'' (rr_mode row)) (\<lambda>mode.
     rbind (required_policy_field ''wal_rate_bytes_per_sec'' (rr_wal_rate_bytes_per_sec row)) (\<lambda>rate.
     rbind (required_policy_field ''wal_burst_bytes'' (rr_wal_burst_bytes row)) (\<lambda>burst.
       Inr \<lparr>dr_policy_id = policy_id, dr_scope_kind = scope_kind, dr_scope_value = scope_value,
            dr_enabled = enabled, dr_mode = mode, dr_wal_rate_bytes_per_sec = rate,
            dr_wal_burst_bytes = burst\<rparr>)))))))"

record raw_query_profile =
  rq_scope_hash :: "string option"
  rq_query_id :: "string option"
  rq_calls :: "string option"
  rq_ewma_wal_bytes :: "string option"
  rq_max_wal_bytes :: "string option"
  rq_last_seen_epoch_ms :: "string option"

record sql_query_profile =
  sq_scope_hash :: "string option"
  sq_query_id :: string
  sq_calls :: string
  sq_ewma_wal_bytes :: string
  sq_max_wal_bytes :: string
  sq_last_seen_epoch_ms :: string

definition show_u64 :: "u64 \<Rightarrow> string" where
  "show_u64 w = show_nat (unat w)"

definition from_snapshot :: "query_profile_snapshot \<Rightarrow> sql_query_profile" where
  "from_snapshot snapshot =
     \<lparr>sq_scope_hash = map_option show_u64 (qs_scope_hash snapshot),
      sq_query_id = show_u64 (qs_query_id snapshot),
      sq_calls = show_u64 (qp_calls (qs_profile snapshot)),
      sq_ewma_wal_bytes = show_u64 (qp_ewma_wal_bytes (qs_profile snapshot)),
      sq_max_wal_bytes = show_u64 (qp_max_wal_bytes (qs_profile snapshot)),
      sq_last_seen_epoch_ms = show_u64 (qp_last_seen_epoch_ms (qs_profile snapshot))\<rparr>"

definition parse_u64 :: "string \<Rightarrow> string \<Rightarrow> u64 pwb_result" where
  "parse_u64 field value =
     (case str_parse_u64 value of
        None \<Rightarrow> Inl (Internal (''durable query profile field '' @ field @
                  '' is not a valid u64: '' @ value))
      | Some v \<Rightarrow> Inr v)"

definition required_parse_u64 :: "string \<Rightarrow> string option \<Rightarrow> u64 pwb_result" where
  "required_parse_u64 field value =
     (case value of
        None \<Rightarrow> Inl (Internal (''durable query profile row is missing '' @ field))
      | Some value \<Rightarrow> parse_u64 field value)"

definition decode_profile :: "raw_query_profile \<Rightarrow> query_profile_snapshot pwb_result" where
  "decode_profile raw =
     rbind (case rq_scope_hash raw of
              None \<Rightarrow> Inr None
            | Some scope_hash \<Rightarrow> rbind (parse_u64 ''scope_hash'' scope_hash) (\<lambda>h. Inr (Some h))) (\<lambda>scope_hash.
     rbind (required_parse_u64 ''query_id'' (rq_query_id raw)) (\<lambda>query_id.
     rbind (required_parse_u64 ''calls'' (rq_calls raw)) (\<lambda>calls.
     rbind (required_parse_u64 ''ewma_wal_bytes'' (rq_ewma_wal_bytes raw)) (\<lambda>ewma.
     rbind (required_parse_u64 ''max_wal_bytes'' (rq_max_wal_bytes raw)) (\<lambda>max_bytes.
     rbind (required_parse_u64 ''last_seen_epoch_ms'' (rq_last_seen_epoch_ms raw)) (\<lambda>last_seen.
       Inr \<lparr>qs_scope_hash = scope_hash, qs_query_id = query_id,
            qs_profile = \<lparr>qp_calls = calls, qp_ewma_wal_bytes = ewma, qp_max_wal_bytes = max_bytes,
                          qp_last_seen_epoch_ms = last_seen\<rparr>\<rparr>))))))"

section \<open>The SPI store\<close>

text \<open>
  What the server answers to the queries of this file and of \<^verbatim>\<open>src/policy.rs\<close>, on a state
  that stands for the database (and for whatever else changes while a query runs). The
  select of the profiles converts the columns to text and fails as a whole.
\<close>

record 'db spi =
  spi_to_regclass_is_not_null :: "string \<Rightarrow> 'db \<Rightarrow> bool option spi_result \<times> 'db"
  spi_select_enabled_policies :: "'db \<Rightarrow> raw_policy_row list spi_result \<times> 'db"
  spi_select_profiles :: "i64 \<Rightarrow> 'db \<Rightarrow> raw_query_profile list spi_result \<times> 'db"
  spi_upsert_profile :: "sql_query_profile \<Rightarrow> 'db \<Rightarrow> bool option spi_result \<times> 'db"
  spi_delete_profiles :: "'db \<Rightarrow> bool option spi_result \<times> 'db"

definition smap_err :: "('e \<Rightarrow> 'f) \<Rightarrow> ('e + 'a) \<times> 's \<Rightarrow> ('f + 'a) \<times> 's" where
  "smap_err f = map_prod (map_err f) id"

definition table_exists :: "'db spi \<Rightarrow> string \<Rightarrow> string \<Rightarrow> 'db \<Rightarrow> bool pwb_result \<times> 'db" where
  "table_exists q regclass operation db =
     sbind (smap_err (catalog_spi_error operation) (spi_to_regclass_is_not_null q regclass db))
       (\<lambda>exists_opt db. (Inr (case exists_opt of None \<Rightarrow> False | Some b \<Rightarrow> b), db))"

definition spi_load_enabled_policy_rows ::
  "'db spi \<Rightarrow> 'db \<Rightarrow> durable_policy_row list pwb_result \<times> 'db" where
  "spi_load_enabled_policy_rows q db =
     sbind (table_exists q ''pwb.policy'' ''policy'' db) (\<lambda>found db.
       if \<not> found then (Inr [], db)
       else sbind (smap_err policy_spi_error (spi_select_enabled_policies q db)) (\<lambda>table db.
         (rtraverse policy_row_of table, db)))"

definition limit_to_i64 :: "usize \<Rightarrow> i64 pwb_result" where
  "limit_to_i64 limit =
     (if unat limit < 2 ^ 63 then Inr limit
      else Inl (Internal (''profile cache capacity does not fit PostgreSQL bigint: '' @ show_u64 limit)))"

definition spi_load_profiles ::
  "'db spi \<Rightarrow> usize \<Rightarrow> 'db \<Rightarrow> query_profile_snapshot list pwb_result \<times> 'db" where
  "spi_load_profiles q limit db =
     sbind (table_exists q ''pwb.query_profile'' ''query profile'' db) (\<lambda>found db.
       if \<not> found then (Inr [], db)
       else sbind (limit_to_i64 limit, db) (\<lambda>limit db.
         sbind (smap_err profile_spi_error (spi_select_profiles q limit db)) (\<lambda>raw_profiles db.
           (rtraverse decode_profile raw_profiles, db))))"

fun spi_upsert_all :: "'db spi \<Rightarrow> query_profile_snapshot list \<Rightarrow> 'db \<Rightarrow> unit pwb_result \<times> 'db" where
  "spi_upsert_all q [] db = (Inr (), db)"
| "spi_upsert_all q (p # ps) db =
     sbind (smap_err profile_spi_error (spi_upsert_profile q (from_snapshot p) db))
       (\<lambda>_ db. spi_upsert_all q ps db)"

definition spi_persist_profiles ::
  "'db spi \<Rightarrow> query_profile_snapshot list \<Rightarrow> 'db \<Rightarrow> unit pwb_result \<times> 'db" where
  "spi_persist_profiles q profiles db =
     sbind (table_exists q ''pwb.query_profile'' ''query profile'' db) (\<lambda>found db.
       if \<not> found then (Inr (), db) else spi_upsert_all q profiles db)"

definition spi_delete_profile_rows :: "'db spi \<Rightarrow> 'db \<Rightarrow> unit pwb_result \<times> 'db" where
  "spi_delete_profile_rows q db =
     sbind (table_exists q ''pwb.query_profile'' ''query profile'' db) (\<lambda>found db.
       if \<not> found then (Inr (), db)
       else sbind (smap_err profile_spi_error (spi_delete_profiles q db)) (\<lambda>_ db. (Inr (), db)))"

definition spi_catalog_store :: "'db spi \<Rightarrow> 'db durable_catalog_store" where
  "spi_catalog_store q =
     \<lparr>load_enabled_policy_rows = spi_load_enabled_policy_rows q,
      load_profiles = spi_load_profiles q,
      persist_profiles = spi_persist_profiles q,
      delete_profiles = spi_delete_profile_rows q\<rparr>"

section \<open>The in-memory store\<close>

record memory_catalog =
  mc_policy_rows :: "durable_policy_row list"
  mc_profiles :: "query_profile_snapshot list"
  mc_tables_exist :: bool

definition memory_with_rows ::
  "durable_policy_row list \<Rightarrow> query_profile_snapshot list \<Rightarrow> memory_catalog" where
  "memory_with_rows policy_rows profiles =
     \<lparr>mc_policy_rows = policy_rows, mc_profiles = profiles, mc_tables_exist = True\<rparr>"

definition memory_missing_tables :: memory_catalog where
  "memory_missing_tables = \<lparr>mc_policy_rows = [], mc_profiles = [], mc_tables_exist = False\<rparr>"

definition memory_load_enabled_policy_rows ::
  "memory_catalog \<Rightarrow> durable_policy_row list pwb_result \<times> memory_catalog" where
  "memory_load_enabled_policy_rows mc =
     (if mc_tables_exist mc then (Inr (filter dr_enabled (mc_policy_rows mc)), mc) else (Inr [], mc))"

text \<open>
  The comparator of the sort: latest first, then by query id, then by scope hash with \<open>None\<close>
  before \<open>Some\<close>.
\<close>

definition profile_sort_key :: "query_profile_snapshot \<Rightarrow> nat \<times> nat \<times> nat" where
  "profile_sort_key p =
     (2 ^ 64 - 1 - unat (qp_last_seen_epoch_ms (qs_profile p)), unat (qs_query_id p),
      case qs_scope_hash p of None \<Rightarrow> 0 | Some h \<Rightarrow> Suc (unat h))"

definition memory_load_profiles ::
  "usize \<Rightarrow> memory_catalog \<Rightarrow> query_profile_snapshot list pwb_result \<times> memory_catalog" where
  "memory_load_profiles limit mc =
     (if \<not> mc_tables_exist mc then (Inr [], mc)
      else (Inr (take (unat limit) (sort_key profile_sort_key (mc_profiles mc))), mc))"

definition same_profile_key :: "query_profile_snapshot \<Rightarrow> query_profile_snapshot \<Rightarrow> bool" where
  "same_profile_key profile existing \<longleftrightarrow>
     qs_scope_hash existing = qs_scope_hash profile \<and> qs_query_id existing = qs_query_id profile"

definition memory_persist_one ::
  "query_profile_snapshot list \<Rightarrow> query_profile_snapshot \<Rightarrow> query_profile_snapshot list" where
  "memory_persist_one stored profile =
     (case position (same_profile_key profile) stored of
        Some i \<Rightarrow> stored[i := profile]
      | None \<Rightarrow> stored @ [profile])"

definition memory_persist_profiles ::
  "query_profile_snapshot list \<Rightarrow> memory_catalog \<Rightarrow> unit pwb_result \<times> memory_catalog" where
  "memory_persist_profiles profiles mc =
     (if \<not> mc_tables_exist mc then (Inr (), mc)
      else (Inr (), mc\<lparr>mc_profiles := foldl memory_persist_one (mc_profiles mc) profiles\<rparr>))"

definition memory_delete_profiles :: "memory_catalog \<Rightarrow> unit pwb_result \<times> memory_catalog" where
  "memory_delete_profiles mc =
     (if mc_tables_exist mc then (Inr (), mc\<lparr>mc_profiles := []\<rparr>) else (Inr (), mc))"

definition memory_catalog_store :: "memory_catalog durable_catalog_store" where
  "memory_catalog_store =
     \<lparr>load_enabled_policy_rows = memory_load_enabled_policy_rows,
      load_profiles = memory_load_profiles,
      persist_profiles = memory_persist_profiles,
      delete_profiles = memory_delete_profiles\<rparr>"

section \<open>Rows\<close>

text \<open>The row that a select returns for a stored profile: the decimal text of each number.\<close>

definition selected_row :: "sql_query_profile \<Rightarrow> raw_query_profile" where
  "selected_row sq =
     \<lparr>rq_scope_hash = sq_scope_hash sq, rq_query_id = Some (sq_query_id sq), rq_calls = Some (sq_calls sq),
      rq_ewma_wal_bytes = Some (sq_ewma_wal_bytes sq), rq_max_wal_bytes = Some (sq_max_wal_bytes sq),
      rq_last_seen_epoch_ms = Some (sq_last_seen_epoch_ms sq)\<rparr>"

lemma parse_u64_show [simp]: "parse_u64 field (show_u64 w) = Inr w"
  by (simp add: parse_u64_def show_u64_def parse_show_u64)

interpretation profile_row_codec: codec "\<lambda>s. selected_row (from_snapshot s)" decode_profile
proof
  fix s :: query_profile_snapshot
  show "decode_profile (selected_row (from_snapshot s)) = Inr s"
    by (cases "qs_scope_hash s")
       (simp_all add: decode_profile_def selected_row_def from_snapshot_def required_parse_u64_def)
qed

definition parsed :: "string option \<Rightarrow> u64 option" where
  "parsed v = Option.bind v str_parse_u64"

lemma required_parse_u64_Inr: "required_parse_u64 f v = Inr w \<longleftrightarrow> parsed v = Some w"
  by (auto simp: required_parse_u64_def parse_u64_def parsed_def split: option.splits)

lemma scope_hash_parse_Inr:
  "(case v of None \<Rightarrow> Inr None | Some t \<Rightarrow> rbind (parse_u64 ''scope_hash'' t) (\<lambda>h. Inr (Some h))) = Inr w
     \<longleftrightarrow> (case v of None \<Rightarrow> w = None | Some t \<Rightarrow> w \<noteq> None \<and> str_parse_u64 t = w)"
  by (auto simp: parse_u64_def split: option.splits)

text \<open>
  A query profile survives the catalog: the text written for it reads back as the same
  profile. A row read from the catalog is accepted exactly when every number but the scope
  hash is present and each is the decimal text of a 64-bit number, and the profile has those
  numbers.
\<close>

lemma profile_row_round_trip:
  "decode_profile (selected_row (from_snapshot s)) = Inr s
   \<and> (decode_profile raw = Inr s \<longleftrightarrow>
     (case rq_scope_hash raw of
        None \<Rightarrow> qs_scope_hash s = None
      | Some t \<Rightarrow> qs_scope_hash s \<noteq> None \<and> str_parse_u64 t = qs_scope_hash s)
   \<and> parsed (rq_query_id raw) = Some (qs_query_id s)
   \<and> parsed (rq_calls raw) = Some (qp_calls (qs_profile s))
   \<and> parsed (rq_ewma_wal_bytes raw) = Some (qp_ewma_wal_bytes (qs_profile s))
   \<and> parsed (rq_max_wal_bytes raw) = Some (qp_max_wal_bytes (qs_profile s))
   \<and> parsed (rq_last_seen_epoch_ms raw) = Some (qp_last_seen_epoch_ms (qs_profile s)))"
proof (rule conjI)
  show "decode_profile (selected_row (from_snapshot s)) = Inr s" by (rule profile_row_codec.dec_enc)
next
  have eq: "\<lparr>qs_scope_hash = h, qs_query_id = q, qs_profile = \<lparr>qp_calls = c, qp_ewma_wal_bytes = e,
      qp_max_wal_bytes = m, qp_last_seen_epoch_ms = l\<rparr>\<rparr> = s \<longleftrightarrow>
    h = qs_scope_hash s \<and> q = qs_query_id s \<and> c = qp_calls (qs_profile s) \<and>
    e = qp_ewma_wal_bytes (qs_profile s) \<and> m = qp_max_wal_bytes (qs_profile s) \<and>
    l = qp_last_seen_epoch_ms (qs_profile s)" for h q c e m l
    by (cases s) auto
  show "decode_profile raw = Inr s \<longleftrightarrow>
     (case rq_scope_hash raw of
        None \<Rightarrow> qs_scope_hash s = None
      | Some t \<Rightarrow> qs_scope_hash s \<noteq> None \<and> str_parse_u64 t = qs_scope_hash s)
   \<and> parsed (rq_query_id raw) = Some (qs_query_id s)
   \<and> parsed (rq_calls raw) = Some (qp_calls (qs_profile s))
   \<and> parsed (rq_ewma_wal_bytes raw) = Some (qp_ewma_wal_bytes (qs_profile s))
   \<and> parsed (rq_max_wal_bytes raw) = Some (qp_max_wal_bytes (qs_profile s))
   \<and> parsed (rq_last_seen_epoch_ms raw) = Some (qp_last_seen_epoch_ms (qs_profile s))"
    unfolding decode_profile_def
    by (simp add: rbind_Inr_iff required_parse_u64_Inr scope_hash_parse_Inr eq
        split: option.splits)
qed

section \<open>The in-memory store is a map\<close>

definition snapshot_key :: "query_profile_snapshot \<Rightarrow> profile_key" where
  "snapshot_key s = (qs_scope_hash s, qs_query_id s)"

definition profiles_map :: "query_profile_snapshot list \<Rightarrow> profile_key \<rightharpoonup> query_wal_profile" where
  "profiles_map ps = map_of (map (\<lambda>p. (snapshot_key p, qs_profile p)) ps)"

definition distinct_profiles :: "query_profile_snapshot list \<Rightarrow> bool" where
  "distinct_profiles ps \<longleftrightarrow> distinct (map snapshot_key ps)"

definition last_seen_of :: "query_profile_snapshot \<Rightarrow> nat" where
  "last_seen_of p = unat (qp_last_seen_epoch_ms (qs_profile p))"

text \<open>
  A profile catalog: a map from keys to profiles. Persisting overwrites, loading returns the
  most recently seen entries up to the limit, deleting empties it.
\<close>

lemma dom_profiles_map: "dom (profiles_map ps) = snapshot_key ` set ps"
  by (force simp: profiles_map_def dom_map_of_conv_image_fst)

locale profile_catalog =
  fixes store :: "'st durable_catalog_store"
    and ready :: "'st \<Rightarrow> bool"
    and contents :: "'st \<Rightarrow> profile_key \<rightharpoonup> query_wal_profile"
  assumes persist_law: "ready st \<Longrightarrow> \<exists>st'. persist_profiles store ps st = (Inr (), st') \<and> ready st'
      \<and> contents st' = foldl (\<lambda>m p. m(snapshot_key p \<mapsto> qs_profile p)) (contents st) ps"
    and load_law: "ready st \<Longrightarrow> \<exists>ps. load_profiles store n st = (Inr ps, st)
      \<and> distinct_profiles ps \<and> length ps = min (unat n) (card (dom (contents st)))
      \<and> profiles_map ps \<subseteq>\<^sub>m contents st
      \<and> (\<forall>p \<in> set ps. \<forall>k q. contents st k = Some q \<and> k \<notin> snapshot_key ` set ps \<longrightarrow>
            unat (qp_last_seen_epoch_ms q) \<le> last_seen_of p)"
    and delete_law: "ready st \<Longrightarrow> \<exists>st'. delete_profiles store st = (Inr (), st') \<and> ready st'
      \<and> contents st' = Map.empty"
    and finite_law: "ready st \<Longrightarrow> finite (dom (contents st))"
begin

text \<open>Loading with room for every entry returns the whole map.\<close>

lemma load_all:
  assumes "ready st" and "card (dom (contents st)) \<le> unat n"
  shows "\<exists>ps. load_profiles store n st = (Inr ps, st) \<and> distinct_profiles ps \<and> profiles_map ps = contents st"
proof -
  obtain ps where ps: "load_profiles store n st = (Inr ps, st)" "distinct_profiles ps"
    "length ps = min (unat n) (card (dom (contents st)))" "profiles_map ps \<subseteq>\<^sub>m contents st"
    using load_law [OF assms(1), of n] by blast
  have sub: "dom (profiles_map ps) \<subseteq> dom (contents st)" using ps(4) by (rule map_le_implies_dom_le)
  have "card (dom (profiles_map ps)) = length ps"
    using ps(2) by (simp add: dom_profiles_map distinct_profiles_def distinct_map card_image distinct_card)
  then have "card (dom (contents st)) \<le> card (dom (profiles_map ps))" using ps(3) assms(2) by simp
  then have "dom (profiles_map ps) = dom (contents st)"
    using card_seteq [OF finite_law [OF assms(1)] sub] by simp
  then have "contents st \<subseteq>\<^sub>m profiles_map ps"
    using ps(4) unfolding map_le_def by metis
  then have "profiles_map ps = contents st" using ps(4) map_le_antisym by blast
  with ps show ?thesis by blast
qed

text \<open>What is persisted into an emptied catalog is what a load returns.\<close>

lemma foldl_update_fresh:
  "distinct_profiles ps \<Longrightarrow> foldl (\<lambda>m p. m(snapshot_key p \<mapsto> qs_profile p)) m ps = m ++ profiles_map ps"
proof (induction ps arbitrary: m)
  case (Cons p ps)
  have "(m(snapshot_key p \<mapsto> qs_profile p)) ++ profiles_map ps = m ++ profiles_map (p # ps)"
  proof (rule ext)
    fix k
    have "snapshot_key p \<notin> dom (profiles_map ps)"
      using Cons.prems by (simp add: dom_profiles_map distinct_profiles_def)
    then have "profiles_map ps (snapshot_key p) = None" by blast
    then show "((m(snapshot_key p \<mapsto> qs_profile p)) ++ profiles_map ps) k = (m ++ profiles_map (p # ps)) k"
      by (simp add: profiles_map_def map_add_def split: option.splits)
  qed
  with Cons show ?case by (simp add: distinct_profiles_def del: fun_upd_apply)
qed (simp add: profiles_map_def)

lemma persist_then_load:
  assumes "ready st" and "distinct_profiles ps"
    and "card (dom (contents st ++ profiles_map ps)) \<le> unat n"
  shows "\<exists>st' qs. persist_profiles store ps st = (Inr (), st') \<and> load_profiles store n st' = (Inr qs, st')
    \<and> distinct_profiles qs \<and> profiles_map qs = contents st ++ profiles_map ps"
proof -
  obtain st' where st': "persist_profiles store ps st = (Inr (), st')" "ready st'"
    "contents st' = contents st ++ profiles_map ps"
    using persist_law [OF assms(1), of ps] foldl_update_fresh [OF assms(2)] by metis
  with load_all [OF st'(2), of n] assms(3) show ?thesis by auto
qed

end


text \<open>The in-memory store provides this interface.\<close>

definition memory_ready :: "memory_catalog \<Rightarrow> bool" where
  "memory_ready mc \<longleftrightarrow> mc_tables_exist mc \<and> distinct_profiles (mc_profiles mc)"

definition memory_contents :: "memory_catalog \<Rightarrow> profile_key \<rightharpoonup> query_wal_profile" where
  "memory_contents mc = profiles_map (mc_profiles mc)"

lemma profiles_map_Some:
  assumes "distinct_profiles ps"
  shows "profiles_map ps k = Some q \<longleftrightarrow> (\<exists>p \<in> set ps. snapshot_key p = k \<and> qs_profile p = q)"
proof -
  have "distinct (map fst (map (\<lambda>p. (snapshot_key p, qs_profile p)) ps))"
    using assms by (simp add: distinct_profiles_def o_def)
  then show ?thesis unfolding profiles_map_def by (auto simp: map_of_eq_Some_iff)
qed

lemma card_dom_profiles_map: "distinct_profiles ps \<Longrightarrow> card (dom (profiles_map ps)) = length ps"
  by (simp add: dom_profiles_map distinct_profiles_def distinct_map card_image distinct_card)

lemma same_key_iff: "same_profile_key p e \<longleftrightarrow> snapshot_key e = snapshot_key p"
  by (simp add: same_profile_key_def snapshot_key_def)

lemma persist_one:
  assumes "distinct_profiles ps"
  shows "distinct_profiles (memory_persist_one ps p)"
    and "profiles_map (memory_persist_one ps p) = (profiles_map ps)(snapshot_key p \<mapsto> qs_profile p)"
proof -
  have both: "distinct_profiles (memory_persist_one ps p) \<and>
    set (memory_persist_one ps p) = insert p {e \<in> set ps. snapshot_key e \<noteq> snapshot_key p}"
  proof (cases "position (same_profile_key p) ps")
    case None
    then have "snapshot_key p \<notin> snapshot_key ` set ps" by (auto simp: position_None same_key_iff)
    moreover have "snapshot_key e \<noteq> snapshot_key p" if "e \<in> set ps" for e
      using None that by (simp add: position_None same_key_iff)
    then have "{e \<in> set ps. snapshot_key e \<noteq> snapshot_key p} = set ps" by blast
    ultimately show ?thesis using assms None by (simp add: memory_persist_one_def distinct_profiles_def)
  next
    case (Some i)
    then have i: "i < length ps" "snapshot_key (ps ! i) = snapshot_key p"
      using position_Some_nth [OF Some] by (simp_all add: same_key_iff)
    have keys: "map snapshot_key (ps[i := p]) = map snapshot_key ps"
      using i by (metis list_update_id map_update)
    have other: "snapshot_key (ps ! j) \<noteq> snapshot_key p" if "j < length ps" "j \<noteq> i" for j
      using assms i that by (metis distinct_profiles_def length_map nth_eq_iff_index_eq nth_map)
    have "set (ps[i := p]) = insert p {e \<in> set ps. snapshot_key e \<noteq> snapshot_key p}"
    proof (intro equalityI subsetI)
      fix e assume "e \<in> set (ps[i := p])"
      then obtain j where "j < length ps" "e = ps[i := p] ! j" by (auto simp: in_set_conv_nth)
      with other [of j] i show "e \<in> insert p {e \<in> set ps. snapshot_key e \<noteq> snapshot_key p}"
        by (cases "j = i") auto
    next
      fix e assume e: "e \<in> insert p {e \<in> set ps. snapshot_key e \<noteq> snapshot_key p}"
      show "e \<in> set (ps[i := p])"
      proof (cases "e = p")
        case False
        with e obtain j where j: "j < length ps" "e = ps ! j" "snapshot_key e \<noteq> snapshot_key p"
          by (auto simp: in_set_conv_nth)
        with i have "ps[i := p] ! j = e" by (cases "j = i") auto
        with j(1) show ?thesis by (metis length_list_update nth_mem)
      qed (use i(1) in \<open>simp add: set_update_memI\<close>)
    qed
    with keys assms Some show ?thesis by (simp add: memory_persist_one_def distinct_profiles_def)
  qed
  then show d: "distinct_profiles (memory_persist_one ps p)" by blast
  show "profiles_map (memory_persist_one ps p) = (profiles_map ps)(snapshot_key p \<mapsto> qs_profile p)"
  proof (rule ext)
    fix k
    have "profiles_map (memory_persist_one ps p) k = Some q
        \<longleftrightarrow> ((profiles_map ps)(snapshot_key p \<mapsto> qs_profile p)) k = Some q" for q
      unfolding profiles_map_Some [OF d] using both profiles_map_Some [OF assms]
      by (cases "k = snapshot_key p") auto
    then show "profiles_map (memory_persist_one ps p) k = ((profiles_map ps)(snapshot_key p \<mapsto> qs_profile p)) k"
      by (metis not_Some_eq)
  qed
qed

lemma persist_foldl:
  "distinct_profiles ps \<Longrightarrow> distinct_profiles (foldl memory_persist_one ps qs) \<and>
    profiles_map (foldl memory_persist_one ps qs)
      = foldl (\<lambda>m p. m(snapshot_key p \<mapsto> qs_profile p)) (profiles_map ps) qs"
proof (induction qs arbitrary: ps)
  case (Cons q qs)
  from Cons.IH [OF persist_one(1) [OF Cons.prems]] show ?case
    by (simp only: foldl_Cons persist_one(2) [OF Cons.prems])
qed simp

lemma sort_key_last_seen:
  assumes "profile_sort_key p \<le> profile_sort_key q"
  shows "last_seen_of q \<le> last_seen_of p"
proof -
  have "2 ^ 64 - 1 - last_seen_of p \<le> 2 ^ 64 - 1 - last_seen_of q"
    using assms by (auto simp: profile_sort_key_def last_seen_of_def less_eq_prod_def)
  moreover have "last_seen_of q < 2 ^ 64"
    using unat_bound [of "qp_last_seen_epoch_ms (qs_profile q)"] by (simp add: last_seen_of_def)
  ultimately show ?thesis by linarith
qed

lemma memory_load:
  fixes n :: usize
  assumes "memory_ready mc"
  defines "ps \<equiv> take (unat n) (sort_key profile_sort_key (mc_profiles mc))"
  shows "load_profiles memory_catalog_store n mc = (Inr ps, mc)" and "distinct_profiles ps"
    and "length ps = min (unat n) (card (dom (memory_contents mc)))"
    and "profiles_map ps \<subseteq>\<^sub>m memory_contents mc"
    and "\<And>p k q. p \<in> set ps \<Longrightarrow> memory_contents mc k = Some q \<Longrightarrow> k \<notin> snapshot_key ` set ps \<Longrightarrow>
      unat (qp_last_seen_epoch_ms q) \<le> last_seen_of p"
proof -
  let ?s = "sort_key profile_sort_key (mc_profiles mc)"
  have ready: "mc_tables_exist mc" "distinct_profiles (mc_profiles mc)"
    using assms(1) by (simp_all add: memory_ready_def)
  have ds: "distinct_profiles ?s"
    using ready(2) by (simp add: distinct_profiles_def distinct_map)
  show "load_profiles memory_catalog_store n mc = (Inr ps, mc)"
    using ready by (simp add: memory_catalog_store_def memory_load_profiles_def ps_def)
  show d: "distinct_profiles ps"
    using ds by (simp add: distinct_profiles_def ps_def take_map [symmetric])
  show "length ps = min (unat n) (card (dom (memory_contents mc)))"
    using card_dom_profiles_map [OF ready(2)] by (simp add: ps_def memory_contents_def min.commute)
  have sub: "set ps \<subseteq> set (mc_profiles mc)" using set_take_subset [of "unat n" ?s] by (simp add: ps_def)
  then show "profiles_map ps \<subseteq>\<^sub>m memory_contents mc"
    unfolding map_le_def memory_contents_def
    by (metis domIff not_Some_eq profiles_map_Some [OF d] profiles_map_Some [OF ready(2)] subsetD)
  fix p k q
  assume p: "p \<in> set ps" and q: "memory_contents mc k = Some q" and k: "k \<notin> snapshot_key ` set ps"
  obtain e where e: "e \<in> set ?s" "snapshot_key e = k" "qs_profile e = q"
    using q profiles_map_Some [OF ready(2)] by (auto simp: memory_contents_def)
  obtain i where i: "i < length ps" "i < unat n" "p = ?s ! i"
    using p by (auto simp: ps_def in_set_conv_nth)
  obtain j where j: "j < length ?s" "e = ?s ! j" using e(1) by (metis in_set_conv_nth)
  have "\<not> j < unat n"
  proof
    assume "j < unat n"
    then have "e \<in> set ps" using j by (auto simp: ps_def in_set_conv_nth)
    with k e(2) show False by blast
  qed
  then have "profile_sort_key (?s ! i) \<le> profile_sort_key (?s ! j)"
    using i j sorted_nth_mono [of "map profile_sort_key ?s" i j] by simp
  with sort_key_last_seen [OF this] i j e show "unat (qp_last_seen_epoch_ms q) \<le> last_seen_of p"
    by (auto simp: last_seen_of_def)
qed

interpretation memory_profiles: profile_catalog memory_catalog_store memory_ready memory_contents
proof
  fix mc :: memory_catalog and ps
  assume r: "memory_ready mc"
  then have d: "distinct_profiles (mc_profiles mc)" by (simp add: memory_ready_def)
  let ?mc = "mc\<lparr>mc_profiles := foldl memory_persist_one (mc_profiles mc) ps\<rparr>"
  have "persist_profiles memory_catalog_store ps mc = (Inr (), ?mc)"
    using r by (simp add: memory_catalog_store_def memory_persist_profiles_def memory_ready_def)
  moreover have "memory_ready ?mc" "memory_contents ?mc
      = foldl (\<lambda>m p. m(snapshot_key p \<mapsto> qs_profile p)) (memory_contents mc) ps"
    using r persist_foldl [OF d, of ps] by (simp_all add: memory_ready_def memory_contents_def)
  ultimately show "\<exists>st'. persist_profiles memory_catalog_store ps mc = (Inr (), st') \<and> memory_ready st'
      \<and> memory_contents st' = foldl (\<lambda>m p. m(snapshot_key p \<mapsto> qs_profile p)) (memory_contents mc) ps"
    by blast
next
  fix mc :: memory_catalog and n
  assume r: "memory_ready mc"
  note l = memory_load [OF r, where n = n]
  show "\<exists>ps. load_profiles memory_catalog_store n mc = (Inr ps, mc)
      \<and> distinct_profiles ps \<and> length ps = min (unat n) (card (dom (memory_contents mc)))
      \<and> profiles_map ps \<subseteq>\<^sub>m memory_contents mc
      \<and> (\<forall>p \<in> set ps. \<forall>k q. memory_contents mc k = Some q \<and> k \<notin> snapshot_key ` set ps \<longrightarrow>
            unat (qp_last_seen_epoch_ms q) \<le> last_seen_of p)"
    using l(1-4) l(5) by blast
next
  fix mc :: memory_catalog
  assume r: "memory_ready mc"
  then show "\<exists>st'. delete_profiles memory_catalog_store mc = (Inr (), st') \<and> memory_ready st'
      \<and> memory_contents st' = Map.empty"
    by (simp add: memory_catalog_store_def memory_delete_profiles_def memory_ready_def
        memory_contents_def distinct_profiles_def profiles_map_def)
  show "finite (dom (memory_contents mc))" by (simp add: memory_contents_def dom_profiles_map)
qed

text \<open>
  C33: the in-memory store, which stands in for the tables, is a map: persisting a list of
  profiles overwrites or adds each of them, and a load whose limit is large enough returns
  every entry exactly once; with a smaller limit it returns that many, and every entry it
  leaves out was seen no later than each entry it returns.
\<close>

theorem memory_store_refines_map:
  assumes "mc_tables_exist mc" and "distinct_profiles (mc_profiles mc)" and "distinct_profiles ps"
  shows "\<exists>mc' qs. persist_profiles_with memory_catalog_store ps mc = (Inr (), mc')
    \<and> load_profiles_from memory_catalog_store n mc' = (Inr qs, mc')
    \<and> length qs = min (unat n) (card (dom (profiles_map (mc_profiles mc) ++ profiles_map ps)))
    \<and> profiles_map qs \<subseteq>\<^sub>m profiles_map (mc_profiles mc) ++ profiles_map ps
    \<and> (card (dom (profiles_map (mc_profiles mc) ++ profiles_map ps)) \<le> unat n
        \<longrightarrow> profiles_map qs = profiles_map (mc_profiles mc) ++ profiles_map ps)
    \<and> (\<forall>p \<in> set qs. \<forall>k q. (profiles_map (mc_profiles mc) ++ profiles_map ps) k = Some q
        \<and> k \<notin> snapshot_key ` set qs \<longrightarrow> unat (qp_last_seen_epoch_ms q) \<le> last_seen_of p)"
proof -
  have r: "memory_ready mc" using assms by (simp add: memory_ready_def)
  obtain mc' where mc': "persist_profiles memory_catalog_store ps mc = (Inr (), mc')" "memory_ready mc'"
    "memory_contents mc' = profiles_map (mc_profiles mc) ++ profiles_map ps"
    using memory_profiles.persist_law [OF r, of ps] memory_profiles.foldl_update_fresh [OF assms(3)]
    by (metis memory_contents_def)
  note l = memory_load [OF mc'(2), where n = n, unfolded mc'(3)]
  let ?qs = "take (unat n) (sort_key profile_sort_key (mc_profiles mc'))"
  have recent: "\<forall>p \<in> set ?qs. \<forall>k q. (profiles_map (mc_profiles mc) ++ profiles_map ps) k = Some q
      \<and> k \<notin> snapshot_key ` set ?qs \<longrightarrow> unat (qp_last_seen_epoch_ms q) \<le> last_seen_of p"
    by (intro ballI allI impI, elim conjE) (rule l(5))
  have all: "card (dom (profiles_map (mc_profiles mc) ++ profiles_map ps)) \<le> unat n \<longrightarrow>
    profiles_map (take (unat n) (sort_key profile_sort_key (mc_profiles mc')))
      = profiles_map (mc_profiles mc) ++ profiles_map ps"
    using memory_profiles.load_all [OF mc'(2), of n] l(1) by (auto simp: mc'(3))
  from mc'(1) l(1,3,4) all recent show ?thesis
    unfolding persist_profiles_with_def load_profiles_from_def
    by (intro exI [of _ mc'] exI [of _ ?qs] conjI)
qed

definition sample_snapshot :: "scope_hash option \<Rightarrow> u64 \<Rightarrow> query_profile_snapshot" where
  "sample_snapshot h n =
     \<lparr>qs_scope_hash = h, qs_query_id = n,
      qs_profile = \<lparr>qp_calls = 1, qp_ewma_wal_bytes = 10, qp_max_wal_bytes = 10, qp_last_seen_epoch_ms = n\<rparr>\<rparr>"

theorem memory_store_refines_map_witness:
  "\<exists>mc' qs. persist_profiles_with memory_catalog_store [sample_snapshot None 1, sample_snapshot (Some 7) 2]
       (memory_with_rows [] [sample_snapshot None 1]) = (Inr (), mc')
    \<and> load_profiles_from memory_catalog_store 1 mc' = (Inr qs, mc') \<and> length qs = 1"
proof -
  let ?ps = "[sample_snapshot None 1, sample_snapshot (Some 7) 2]"
    and ?mc = "memory_with_rows [] [sample_snapshot None 1]"
  have d: "distinct_profiles ?ps" "distinct_profiles (mc_profiles ?mc)" "mc_tables_exist ?mc"
    by (simp_all add: distinct_profiles_def snapshot_key_def sample_snapshot_def memory_with_rows_def)
  have "0 < card (dom (profiles_map (mc_profiles ?mc) ++ profiles_map ?ps))"
    by (simp add: card_gt_0_iff dom_profiles_map)
  with memory_store_refines_map [OF d(3,2,1), of 1] show ?thesis by auto
qed

end
