(* ===== verification/Pwb_Restore.thy ===== *)
theory Pwb_Restore
  imports Pwb_Catalog
begin

text \<open>
  The two protocols that move query profiles between the shared cache and the catalog, on the
  whole segment (\<^verbatim>\<open>src/shmem/profiles.rs\<close> and \<^verbatim>\<open>src/shmem/transactions.rs\<close>): the restore, which one
  backend at a time performs, and the persisting, which is due when something is dirty and an
  interval has passed. The lemmas give every branch of both, including what another backend
  may do between the critical sections, and that each keeps the invariant of the segment.
\<close>

section \<open>The steps keep the invariant\<close>

lemma upsert_restored_frame:
  "profile_frame (fst reg) (fst (snd (upsert_restored_query_profile_locked p reg)))"
  by (cases reg) (auto simp: upsert_restored_query_profile_locked_def Let_def count_new_profile_def
      split: option.splits)

lemma restore_all_frame: "profile_frame (fst reg) (fst (snd (restore_all ps reg)))"
proof (induction ps arbitrary: reg)
  case (Cons p ps)
  obtain r reg' where 1: "upsert_restored_query_profile_locked p reg = (r, reg')" by (meson surj_pair)
  have "profile_frame (fst reg) (fst reg')" using upsert_restored_frame [of reg p] by (simp add: 1)
  moreover have "profile_frame (fst reg') (fst (snd (restore_all ps reg')))" by (rule Cons.IH)
  ultimately show ?case using profile_frame_trans by (cases r) (auto simp: 1)
qed simp

lemma finish_frame:
  "profile_frame (fst reg) (fst (snd (finish_profile_restore_locked ps reg)))"
proof -
  obtain r st profiles where 1: "restore_all ps reg = (r, (st, profiles))" by (metis surj_pair)
  have "profile_frame (fst reg) st" using restore_all_frame [of reg ps] by (simp add: 1)
  then show ?thesis
    using profile_frame_trans [OF _ profile_frame_updates(4)]
    by (cases r) (simp_all add: finish_profile_restore_locked_def 1)
qed

definition snapshots_ok :: "query_profile_snapshot list \<Rightarrow> bool" where
  "snapshots_ok ps \<longleftrightarrow> list_all (\<lambda>p. profile_ok (qs_profile p)) ps"

lemma profiles_wf_header:
  "profiles_wf (st\<lparr>ss_profile_restore_state := b, ss_profile_restore_started_epoch_ms := c\<rparr>, ps) = profiles_wf (st, ps)"
  "profiles_wf (st\<lparr>ss_last_profile_persist_epoch_ms := d\<rparr>, ps) = profiles_wf (st, ps)"
  "profiles_wf (st\<lparr>ss_profile_dirty_count := e\<rparr>, ps) = profiles_wf (st, ps)"
  by (simp_all add: profiles_wf_def)

lemma finish_cases:
  assumes "profiles_wf (st, profiles)" and "snapshots_ok ps"
  shows "profiles_wf (snd (finish_profile_restore_locked ps (st, profiles)))"
    and "profiles = [] \<and> ps \<noteq> [] \<Longrightarrow>
      finish_profile_restore_locked ps (st, profiles) = (Inl profile_cache_capacity_exhausted, (st, profiles))"
    and "profiles \<noteq> [] \<or> ps = [] \<Longrightarrow> \<exists>st' profiles'.
      finish_profile_restore_locked ps (st, profiles) = (Inr (), (st', profiles'))
      \<and> ss_profile_restore_state st' = PROFILE_RESTORE_LOADED"
proof -
  show full: "profiles = [] \<and> ps \<noteq> [] \<Longrightarrow>
      finish_profile_restore_locked ps (st, profiles) = (Inl profile_cache_capacity_exhausted, (st, profiles))"
    by (cases ps) (auto simp: finish_profile_restore_locked_def upsert_restored_query_profile_locked_def)
  show room: "profiles \<noteq> [] \<or> ps = [] \<Longrightarrow> \<exists>st' profiles'.
      finish_profile_restore_locked ps (st, profiles) = (Inr (), (st', profiles'))
      \<and> ss_profile_restore_state st' = PROFILE_RESTORE_LOADED"
    using restore_all_spec [OF assms(1), of ps] assms(2)
    by (cases "ps = []") (auto simp: finish_profile_restore_locked_def snapshots_ok_def)
  show "profiles_wf (snd (finish_profile_restore_locked ps (st, profiles)))"
  proof (cases "profiles = []")
    case True
    then show ?thesis
      using full assms(1) by (cases "ps = []") (simp_all add: finish_profile_restore_locked_def profiles_wf_header)
  next
    case False
    with restore_all_spec [OF assms(1)] assms(2) show ?thesis
      by (force simp: finish_profile_restore_locked_def profiles_wf_header snapshots_ok_def)
  qed
qed

text \<open>The header fields of the segment that the protocols read.\<close>

abbreviation header_of :: "shmem \<Rightarrow> pwb_shared_state" where
  "header_of s \<equiv> sm_state (sh_mem s)"

definition set_header :: "pwb_shared_state \<Rightarrow> shmem \<Rightarrow> shmem" where
  "set_header st s = s\<lparr>sh_mem := (sh_mem s)\<lparr>sm_state := st\<rparr>\<rparr>"

lemma header_of_set [simp]: "header_of (set_header st s) = st"
  by (simp add: set_header_def)

lemma with_locked_profiles_eq:
  assumes "segment_ok s"
  shows "with_locked_profiles callback s =
    (case callback (header_of s, sm_profiles (sh_mem s)) of
       (r, (st, ps)) \<Rightarrow> (r, s\<lparr>sh_mem := (sh_mem s)\<lparr>sm_state := st, sm_profiles := ps\<rparr>\<rparr>))"
  using segment_guard [OF assms]
  by (simp add: with_locked_profiles_def with_locked_mem_def split: prod.split)

lemma with_locked_header_eq:
  assumes "segment_ok s"
  shows "with_locked_profiles (\<lambda>(st, ps). (f st, (g st, ps))) s = (f (header_of s), set_header (g (header_of s)) s)"
  by (simp add: with_locked_profiles_eq [OF assms] set_header_def)

lemma set_header_ok:
  assumes "segment_ok s" and "profile_frame (header_of s) st"
    and "ss_profiles_len st = ss_profiles_len (header_of s)"
  shows "segment_ok (set_header st s)"
proof -
  have "profiles_wf (st, sm_profiles (sh_mem s)) = profiles_wf (header_of s, sm_profiles (sh_mem s))"
    using header_consts_fields(2) [OF profile_frame_fields(1) [OF assms(2)]] assms(3)
    by (intro profiles_wf_cong)
  then show ?thesis
    using segment_profile_step(1) [OF assms(1), of "\<lambda>(st', ps). (Inr (), (st, ps))"]
      segment_profiles_wf [OF assms(1)] assms(2)
    by (simp add: with_locked_header_eq [OF assms(1), of "\<lambda>_. Inr ()" "\<lambda>_. st"])
qed

section \<open>The restore\<close>

definition restore_due :: "epoch_millis \<Rightarrow> epoch_millis \<Rightarrow> pwb_shared_state \<Rightarrow> bool" where
  "restore_due now stale st \<longleftrightarrow>
     ss_profile_restore_state st = PROFILE_RESTORE_NOT_ATTEMPTED
   \<or> ss_profile_restore_state st = PROFILE_RESTORE_FAILED
   \<or> ss_profile_restore_state st = PROFILE_RESTORE_IN_PROGRESS
       \<and> unat stale \<le> unat now - unat (ss_profile_restore_started_epoch_ms st)"

definition restore_begun :: "epoch_millis \<Rightarrow> shmem \<Rightarrow> shmem" where
  "restore_begun now s = set_header ((header_of s)\<lparr>ss_profile_restore_state := PROFILE_RESTORE_IN_PROGRESS,
     ss_profile_restore_started_epoch_ms := now\<rparr>) s"

definition restore_marked_failed :: "shmem \<Rightarrow> shmem" where
  "restore_marked_failed s = set_header (mark_profile_restore_failed_locked (header_of s)) s"

lemma set_header_same [simp]: "set_header (header_of s) s = s"
  by (simp add: set_header_def)

lemma begin_restore_eq:
  assumes "segment_ok s"
  shows "begin_profile_restore now stale s =
    (if restore_due now stale (header_of s) then (Inr True, restore_begun now s) else (Inr False, s))"
proof -
  have due: "begin_profile_restore_locked now stale st =
    (if restore_due now stale st
     then (True, st\<lparr>ss_profile_restore_state := PROFILE_RESTORE_IN_PROGRESS, ss_profile_restore_started_epoch_ms := now\<rparr>)
     else (False, st))" for st
    by (auto simp: begin_profile_restore_locked_def restore_due_def word_le_nat_alt unat_sat_sub Let_def)
  have "begin_profile_restore now stale s =
    with_locked_profiles (\<lambda>(st, ps). (Inr (fst (begin_profile_restore_locked now stale st)),
        (snd (begin_profile_restore_locked now stale st), ps))) s"
    by (simp add: begin_profile_restore_def split_def)
  then show ?thesis by (simp add: with_locked_header_eq [OF assms] due restore_begun_def)
qed

lemma restore_begun_ok: "segment_ok s \<Longrightarrow> segment_ok (restore_begun now s)"
  unfolding restore_begun_def by (intro set_header_ok) simp_all

lemma marked_failed_ok: "segment_ok s \<Longrightarrow> segment_ok (restore_marked_failed s)"
  unfolding restore_marked_failed_def
  by (intro set_header_ok) (simp_all add: mark_profile_restore_failed_locked_def)

lemma mark_failed_eq: "segment_ok s \<Longrightarrow> mark_profile_restore_failed s = (Inr (), restore_marked_failed s)"
  by (simp add: mark_profile_restore_failed_def with_locked_header_eq restore_marked_failed_def)

text \<open>
  What loading the catalog may do to the segment: the other backends keep its invariant, and
  the profiles that are found are profiles (a row was called at least once, and its average
  is at most its maximum).
\<close>

definition loads_ok :: "(shmem \<Rightarrow> query_profile_snapshot list pwb_result \<times> shmem) \<Rightarrow> bool" where
  "loads_ok load \<longleftrightarrow>
     (\<forall>s. segment_ok s \<longrightarrow> segment_ok (snd (load s)) \<and> (\<forall>ps. fst (load s) = Inr ps \<longrightarrow> snapshots_ok ps))"

lemma finish_restore_eq:
  assumes "segment_ok s" and "snapshots_ok ps"
  shows "segment_ok (snd (finish_profile_restore ps s))"
    and "sm_profiles (sh_mem s) = [] \<and> ps \<noteq> [] \<Longrightarrow> finish_profile_restore ps s = (Inl profile_cache_capacity_exhausted, s)"
    and "sm_profiles (sh_mem s) \<noteq> [] \<or> ps = [] \<Longrightarrow> \<exists>s'. finish_profile_restore ps s = (Inr (), s')
      \<and> ss_profile_restore_state (header_of s') = PROFILE_RESTORE_LOADED"
proof -
  note wf = segment_profiles_wf [OF assms(1)]
  note fin = finish_cases [OF wf assms(2)]
  show "segment_ok (snd (finish_profile_restore ps s))"
    unfolding finish_profile_restore_def
    using fin(1) finish_frame [of "(header_of s, sm_profiles (sh_mem s))" ps]
    by (intro segment_profile_step(1) [OF assms(1)]) simp_all
  show "sm_profiles (sh_mem s) = [] \<and> ps \<noteq> [] \<Longrightarrow> finish_profile_restore ps s = (Inl profile_cache_capacity_exhausted, s)"
    using fin(2) by (simp add: finish_profile_restore_def with_locked_profiles_eq [OF assms(1)])
  show "sm_profiles (sh_mem s) \<noteq> [] \<or> ps = [] \<Longrightarrow> \<exists>s'. finish_profile_restore ps s = (Inr (), s')
      \<and> ss_profile_restore_state (header_of s') = PROFILE_RESTORE_LOADED"
    using fin(3) by (fastforce simp: finish_profile_restore_def with_locked_profiles_eq [OF assms(1)])
qed

lemma ensure_loaded_cases:
  assumes s: "segment_ok s" and load: "loads_ok load"
  shows "\<not> restore_due now stale (header_of s) \<Longrightarrow> ensure_profiles_loaded now stale load s = (Inr (), s)"
    and "restore_due now stale (header_of s) \<Longrightarrow>
      (case load (restore_begun now s) of
         (Inl e, s2) \<Rightarrow> ensure_profiles_loaded now stale load s = (Inl e, restore_marked_failed s2)
       | (Inr ps, s2) \<Rightarrow>
           (if sm_profiles (sh_mem s2) = [] \<and> ps \<noteq> []
            then ensure_profiles_loaded now stale load s = (Inl profile_cache_capacity_exhausted, restore_marked_failed s2)
            else \<exists>s3. ensure_profiles_loaded now stale load s = (Inr (), s3)
              \<and> finish_profile_restore ps s2 = (Inr (), s3)
              \<and> ss_profile_restore_state (header_of s3) = PROFILE_RESTORE_LOADED))"
    and "segment_ok (snd (ensure_profiles_loaded now stale load s))"
proof -
  obtain r s2 where l: "load (restore_begun now s) = (r, s2)" by (meson surj_pair)
  have s2: "segment_ok s2" "\<And>ps. r = Inr ps \<Longrightarrow> snapshots_ok ps"
    using load restore_begun_ok [OF s, of now] l by (auto simp: loads_ok_def)
  note ens = ensure_profiles_loaded_def begin_restore_eq [OF s]
  show "\<not> restore_due now stale (header_of s) \<Longrightarrow> ensure_profiles_loaded now stale load s = (Inr (), s)"
    by (simp add: ens)
  show due: "restore_due now stale (header_of s) \<Longrightarrow>
      (case load (restore_begun now s) of
         (Inl e, s2) \<Rightarrow> ensure_profiles_loaded now stale load s = (Inl e, restore_marked_failed s2)
       | (Inr ps, s2) \<Rightarrow>
           (if sm_profiles (sh_mem s2) = [] \<and> ps \<noteq> []
            then ensure_profiles_loaded now stale load s = (Inl profile_cache_capacity_exhausted, restore_marked_failed s2)
            else \<exists>s3. ensure_profiles_loaded now stale load s = (Inr (), s3)
              \<and> finish_profile_restore ps s2 = (Inr (), s3)
              \<and> ss_profile_restore_state (header_of s3) = PROFILE_RESTORE_LOADED))"
  proof (cases r)
    case (Inl e)
    then show "restore_due now stale (header_of s) \<Longrightarrow> ?thesis"
      by (simp add: ens l mark_failed_eq [OF s2(1)])
  next
    case (Inr ps)
    note fin = finish_restore_eq [OF s2(1) s2(2) [OF Inr]]
    show "restore_due now stale (header_of s) \<Longrightarrow> ?thesis"
      using fin(2,3) Inr by (auto simp: ens l mark_failed_eq [OF s2(1)])
  qed
  show "segment_ok (snd (ensure_profiles_loaded now stale load s))"
  proof (cases "restore_due now stale (header_of s)")
    case True
    from due [OF True] show ?thesis
      using marked_failed_ok [OF s2(1)] finish_restore_eq(1) [OF s2(1) s2(2)] l
      by (auto split: sum.splits if_splits)
  qed (use s in \<open>simp add: ens\<close>)
qed


section \<open>Persisting\<close>

definition persist_due :: "epoch_millis \<Rightarrow> epoch_millis \<Rightarrow> pwb_shared_state \<Rightarrow> bool" where
  "persist_due now interval st \<longleftrightarrow>
     ss_profile_dirty_count st \<noteq> 0
   \<and> unat interval \<le> unat now - unat (ss_last_profile_persist_epoch_ms st)"

definition persist_reserved :: "epoch_millis \<Rightarrow> shmem \<Rightarrow> shmem" where
  "persist_reserved now s = set_header ((header_of s)\<lparr>ss_last_profile_persist_epoch_ms := now\<rparr>) s"

definition marked_clean :: "bool \<Rightarrow> shmem \<Rightarrow> shmem" where
  "marked_clean success s = set_header (complete_profile_persist_locked success (header_of s)) s"

text \<open>The snapshot of a well-formed cache is the list of its entries, and as a map it is the cache.\<close>

definition snapshot_of_entry :: "pwb_profile_entry \<Rightarrow> query_profile_snapshot" where
  "snapshot_of_entry e =
     \<lparr>qs_scope_hash = (if pe_has_scope_hash e = 0 then None else Some (pe_scope_hash e)),
      qs_query_id = pe_query_id e, qs_profile = rust_profile (pe_profile e)\<rparr>"

definition cache_snapshot :: "pwb_profile_entry list \<Rightarrow> query_profile_snapshot list" where
  "cache_snapshot profiles = map snapshot_of_entry (filter profile_occ profiles)"

lemma entry_ok_decode:
  assumes "entry_ok e" and "profile_occ e"
  shows "rbind (profile_entry_decode e) (\<lambda>d. Inr (query_profile_snapshot_of d)) = Inr (snapshot_of_entry e)"
  using assms
  by (auto simp: entry_ok_def profile_occ_def profile_entry_decode_def decode_optional_def
      query_profile_snapshot_of_def snapshot_of_entry_def)

lemma snapshot_slice_eq:
  assumes "profiles_wf (st, ps)"
  shows "snapshot_profiles_from_slice ps = Inr (cache_snapshot ps)"
proof -
  have "filter (\<lambda>e. pe_occupied e = 1) ps = filter profile_occ ps" by (rule filter_cong) (simp_all add: profile_occ_def)
  then show ?thesis
    using assms entry_ok_decode
    by (auto simp: snapshot_profiles_from_slice_def cache_snapshot_def profiles_wf_def intro!: rtraverse_map_Inr)
qed

lemma distinct_map_filter:
  assumes "\<And>i j. i < length xs \<Longrightarrow> j < length xs \<Longrightarrow> P (xs ! i) \<Longrightarrow> P (xs ! j) \<Longrightarrow> f (xs ! i) = f (xs ! j) \<Longrightarrow> i = j"
  shows "distinct (map f (filter P xs))"
  using assms
proof (induction xs)
  case (Cons x xs)
  have "distinct (map f (filter P xs))"
    using Cons.prems [of "Suc _" "Suc _"] by (intro Cons.IH) simp
  moreover have "f x \<notin> f ` {y \<in> set xs. P y}" if "P x"
  proof
    assume "f x \<in> f ` {y \<in> set xs. P y}"
    then obtain j where "j < length xs" "P (xs ! j)" "f x = f (xs ! j)" by (auto simp: in_set_conv_nth)
    then show False using Cons.prems [of 0 "Suc j"] that by simp
  qed
  ultimately show ?case by simp
qed simp

lemma entry_key_snapshot:
  assumes "entry_ok e" and "profile_occ e"
  shows "entry_key e = (Some (fst (snapshot_key (snapshot_of_entry e))), snd (snapshot_key (snapshot_of_entry e)))"
  using assms by (auto simp: entry_ok_def profile_occ_def entry_key_def snapshot_key_def snapshot_of_entry_def)

lemma cache_snapshot_map:
  assumes wf: "profiles_wf (st, ps)"
  shows "distinct_profiles (cache_snapshot ps)" and "profiles_map (cache_snapshot ps) = profile_at ps"
    and "snapshots_ok (cache_snapshot ps)"
proof -
  have ok: "\<And>i. i < length ps \<Longrightarrow> entry_ok (ps ! i)" and keys: "keys_distinct profile_occ entry_key ps"
    using wf by (simp_all add: profiles_wf_def)
  have inj: "i = j" if "i < length ps" "j < length ps" "profile_occ (ps ! i)" "profile_occ (ps ! j)"
    "snapshot_key (snapshot_of_entry (ps ! i)) = snapshot_key (snapshot_of_entry (ps ! j))" for i j
    using that entry_key_snapshot ok keys unfolding keys_distinct_def by metis
  have "distinct (map (\<lambda>e. snapshot_key (snapshot_of_entry e)) (filter profile_occ ps))"
    by (rule distinct_map_filter) (rule inj)
  then show d: "distinct_profiles (cache_snapshot ps)"
    by (simp add: distinct_profiles_def cache_snapshot_def o_def)
  show "profiles_map (cache_snapshot ps) = profile_at ps"
  proof (rule ext)
    fix k
    have "profiles_map (cache_snapshot ps) k = Some q \<longleftrightarrow> profile_at ps k = Some q" for q
    proof
      assume "profiles_map (cache_snapshot ps) k = Some q"
      then obtain i where i: "i < length ps" "profile_occ (ps ! i)" "snapshot_key (snapshot_of_entry (ps ! i)) = k"
        "rust_profile (pe_profile (ps ! i)) = q"
        unfolding profiles_map_Some [OF d] by (auto simp: cache_snapshot_def in_set_conv_nth snapshot_of_entry_def)
      from occupied_at [OF wf i(1,2)] obtain k' where "entry_key (ps ! i) = (Some (fst k'), snd k')"
        "profile_at ps k' = Some q" using i(4) by metis
      moreover have "k' = k"
        using entry_key_snapshot [OF ok [OF i(1)] i(2)] i(3) calculation(1) by (simp add: prod_eq_iff)
      ultimately show "profile_at ps k = Some q" by simp
    next
      assume "profile_at ps k = Some q"
      then obtain i where i: "i < length ps" "profile_occ (ps ! i)" "entry_key (ps ! i) = (Some (fst k), snd k)"
        "q = rust_profile (pe_profile (ps ! i))" by (rule at_occupied)
      then have "snapshot_key (snapshot_of_entry (ps ! i)) = k"
        using entry_key_snapshot [OF ok [OF i(1)] i(2)] by (simp add: prod_eq_iff)
      with i show "profiles_map (cache_snapshot ps) k = Some q"
        unfolding profiles_map_Some [OF d] by (force simp: cache_snapshot_def snapshot_of_entry_def)
    qed
    then show "profiles_map (cache_snapshot ps) k = profile_at ps k" by (metis not_Some_eq)
  qed
  show "snapshots_ok (cache_snapshot ps)"
    using wf by (auto simp: snapshots_ok_def cache_snapshot_def list_all_iff snapshot_of_entry_def
        profiles_wf_def entry_ok_def profile_occ_def)
qed

lemma reserve_persist_eq:
  assumes s: "segment_ok s"
  shows "reserve_profile_persist now interval s =
    (if persist_due now interval (header_of s)
     then (Inr (Some (cache_snapshot (sm_profiles (sh_mem s)))), persist_reserved now s) else (Inr None, s))"
  using snapshot_slice_eq [OF segment_profiles_wf [OF s]]
  by (auto simp: reserve_profile_persist_def with_locked_profiles_eq [OF s] reserve_profile_persist_locked_def
      persist_due_def word_less_nat_alt unat_sat_sub persist_reserved_def set_header_def)

lemma snapshot_for_persist_eq:
  assumes s: "segment_ok s"
  shows "snapshot_profiles_for_persist now s = (Inr (cache_snapshot (sm_profiles (sh_mem s))), persist_reserved now s)"
  using snapshot_slice_eq [OF segment_profiles_wf [OF s]]
  by (simp add: snapshot_profiles_for_persist_def with_locked_profiles_eq [OF s]
      snapshot_profiles_for_persist_locked_def persist_reserved_def set_header_def)

lemma persist_reserved_ok: "segment_ok s \<Longrightarrow> segment_ok (persist_reserved now s)"
  unfolding persist_reserved_def by (intro set_header_ok) simp_all

lemma marked_clean_ok: "segment_ok s \<Longrightarrow> segment_ok (marked_clean b s)"
  unfolding marked_clean_def by (intro set_header_ok) (simp_all add: complete_profile_persist_locked_def)

lemma complete_persist_eq: "segment_ok s \<Longrightarrow> complete_profile_persist b s = (Inr (), marked_clean b s)"
  by (simp add: complete_profile_persist_def with_locked_header_eq marked_clean_def)

text \<open>What writing the catalog may do to the segment.\<close>

definition writes_ok :: "(query_profile_snapshot list \<Rightarrow> shmem \<Rightarrow> unit pwb_result \<times> shmem) \<Rightarrow> bool" where
  "writes_ok persist \<longleftrightarrow> (\<forall>ps s. segment_ok s \<longrightarrow> segment_ok (snd (persist ps s)))"

lemma persist_cases:
  assumes s: "segment_ok s" and w: "writes_ok persist"
  shows "persist_profiles_if_due now interval persist s =
      (if persist_due now interval (header_of s)
       then (case persist (cache_snapshot (sm_profiles (sh_mem s))) (persist_reserved now s) of
               (r, s2) \<Rightarrow> (r, marked_clean (is_ok r) s2))
       else (Inr (), s))"
    and "persist_profiles_now now persist s =
      (case persist (cache_snapshot (sm_profiles (sh_mem s))) (persist_reserved now s) of
         (r, s2) \<Rightarrow> (r, marked_clean (is_ok r) s2))"
    and "segment_ok (snd (persist_profiles_if_due now interval persist s))"
    and "segment_ok (snd (persist_profiles_now now persist s))"
proof -
  obtain r s2 where p: "persist (cache_snapshot (sm_profiles (sh_mem s))) (persist_reserved now s) = (r, s2)"
    by (meson surj_pair)
  have s2: "segment_ok s2"
    using w persist_reserved_ok [OF s, of now] p unfolding writes_ok_def by (metis snd_conv)
  show 1: "persist_profiles_if_due now interval persist s =
      (if persist_due now interval (header_of s)
       then (case persist (cache_snapshot (sm_profiles (sh_mem s))) (persist_reserved now s) of
               (r, s2) \<Rightarrow> (r, marked_clean (is_ok r) s2))
       else (Inr (), s))"
    by (simp add: persist_profiles_if_due_def reserve_persist_eq [OF s] p complete_persist_eq [OF s2])
  show 2: "persist_profiles_now now persist s =
      (case persist (cache_snapshot (sm_profiles (sh_mem s))) (persist_reserved now s) of
         (r, s2) \<Rightarrow> (r, marked_clean (is_ok r) s2))"
    by (simp add: persist_profiles_now_def snapshot_for_persist_eq [OF s] p complete_persist_eq [OF s2])
  show "segment_ok (snd (persist_profiles_if_due now interval persist s))"
    "segment_ok (snd (persist_profiles_now now persist s))"
    using s marked_clean_ok [OF s2] by (simp_all add: 1 2 p)
qed

text \<open>
  C35: the persist protocol. Nothing is written while nothing is dirty or before the interval
  has passed. Otherwise the catalog gets exactly the profiles of the cache, each once; the
  next attempt is due an interval later at the earliest, also after a failure; the outcome
  is returned, and the profiles are marked clean exactly when it is a success.
\<close>

theorem persist_protocol:
  assumes "segment_ok s" and "writes_ok persist"
  shows "segment_ok (snd (persist_profiles_if_due now interval persist s))
   \<and> (\<not> persist_due now interval (header_of s) \<longrightarrow> persist_profiles_if_due now interval persist s = (Inr (), s))
   \<and> (persist_due now interval (header_of s) \<longrightarrow>
       (\<exists>ps s1. distinct_profiles ps \<and> profiles_map ps = profile_at (sm_profiles (sh_mem s))
          \<and> segment_ok s1
          \<and> (\<forall>now'. unat now' - unat now < unat interval \<longrightarrow> \<not> persist_due now' interval (header_of s1))
          \<and> fst (persist_profiles_if_due now interval persist s) = fst (persist ps s1)
          \<and> ss_profile_dirty_count (header_of (snd (persist_profiles_if_due now interval persist s)))
              = (if is_ok (fst (persist ps s1)) then 0 else ss_profile_dirty_count (header_of (snd (persist ps s1))))))"
proof -
  note cases = persist_cases [OF assms]
  let ?ps = "cache_snapshot (sm_profiles (sh_mem s))" and ?s1 = "persist_reserved now s"
  have clean: "ss_profile_dirty_count (header_of (marked_clean b s2))
      = (if b then 0 else ss_profile_dirty_count (header_of s2))" for b s2
    by (simp add: marked_clean_def complete_profile_persist_locked_def)
  have later: "\<forall>now'. unat now' - unat now < unat interval \<longrightarrow> \<not> persist_due now' interval (header_of ?s1)"
    by (simp add: persist_due_def persist_reserved_def)
  note snap = cache_snapshot_map [OF segment_profiles_wf [OF assms(1)]]
  show ?thesis
  proof (intro conjI impI)
    show "segment_ok (snd (persist_profiles_if_due now interval persist s))" by (rule cases(3))
    show "\<not> persist_due now interval (header_of s) \<Longrightarrow> persist_profiles_if_due now interval persist s = (Inr (), s)"
      by (simp add: cases(1))
    assume due: "persist_due now interval (header_of s)"
    show "\<exists>ps s1. distinct_profiles ps \<and> profiles_map ps = profile_at (sm_profiles (sh_mem s))
          \<and> segment_ok s1
          \<and> (\<forall>now'. unat now' - unat now < unat interval \<longrightarrow> \<not> persist_due now' interval (header_of s1))
          \<and> fst (persist_profiles_if_due now interval persist s) = fst (persist ps s1)
          \<and> ss_profile_dirty_count (header_of (snd (persist_profiles_if_due now interval persist s)))
              = (if is_ok (fst (persist ps s1)) then 0 else ss_profile_dirty_count (header_of (snd (persist ps s1))))"
      using snap(1,2) persist_reserved_ok [OF assms(1), of now] later due clean
      by (intro exI [of _ ?ps] exI [of _ ?s1]) (simp add: cases(1) split_def)
  qed
qed

section \<open>Across a restart\<close>

lemma card_profile_at:
  assumes "profiles_wf (st, ps)"
  shows "card (dom (profile_at ps)) = length (filter profile_occ ps)"
proof -
  note snap = cache_snapshot_map [OF assms]
  from card_dom_profiles_map [OF snap(1)] show ?thesis by (simp add: snap(2)) (simp add: cache_snapshot_def)
qed

lemma card_full:
  assumes "profiles_wf (st, ps)" and "profiles_full ps"
  shows "card (dom (profile_at ps)) = length ps"
proof -
  have "\<forall>e \<in> set ps. profile_occ e"
    using assms by (auto simp: profiles_full_def profiles_wf_def entry_ok_def profile_occ_def)
  then have "filter profile_occ ps = ps" by simp
  with card_profile_at [OF assms(1)] show ?thesis by simp
qed

lemma profile_at_dom_finite: "profiles_wf (st, ps) \<Longrightarrow> finite (dom (profile_at ps))"
  using cache_snapshot_map(2) dom_profiles_map by (metis List.finite_set finite_imageI)

text \<open>Restoring new keys into a cache with room for all of them adds each of them.\<close>

lemma restore_into_room:
  assumes "profiles_wf (st, ps)" and "distinct_profiles ss" and "snapshots_ok ss"
    and "snapshot_key ` set ss \<inter> dom (profile_at ps) = {}"
    and "card (dom (profile_at ps)) + length ss \<le> length ps"
  shows "\<exists>st' ps'. restore_all ss (st, ps) = (Inr (), (st', ps')) \<and> profiles_wf (st', ps')
    \<and> length ps' = length ps \<and> profile_at ps' = profile_at ps ++ profiles_map ss"
  using assms
proof (induction ss arbitrary: st ps)
  case (Cons s ss)
  let ?k = "(qs_scope_hash s, qs_query_id s)"
  have ne: "ps \<noteq> []" using Cons.prems(5) by auto
  have at: "profile_at ps ?k = None" using Cons.prems(4) by (auto simp: snapshot_key_def)
  have room: "\<not> profiles_full ps" using card_full [OF Cons.prems(1)] Cons.prems(5) by auto
  have s: "profile_ok (qs_profile s)" using Cons.prems(3) by (simp add: snapshots_ok_def)
  have place: "upsert_restored_query_profile_locked s (st, ps)
      = place_profile (qs_scope_hash s) (qs_query_id s) (qs_profile s) (st, ps)"
    using restored_place [OF Cons.prems(1) ne] at room by (simp add: restore_skips_def)
  obtain st1 ps1 where 1: "upsert_restored_query_profile_locked s (st, ps) = (Inr (), (st1, ps1))"
    "profiles_wf (st1, ps1)" "profile_at ps1 = (profile_at ps)(?k \<mapsto> qs_profile s)"
    using place_profile_spec [OF Cons.prems(1) s ne, of "qs_scope_hash s" "qs_query_id s"] room
    by (auto simp: place profile_put_def)
  have len: "length ps1 = length ps"
    using place_keeps_array [where reg = "(st, ps)"] 1(1) place by (metis snd_conv)
  have "?k \<notin> dom (profile_at ps)" using at by (simp add: domIff)
  then have card: "card (dom (profile_at ps1)) = Suc (card (dom (profile_at ps)))"
    using profile_at_dom_finite [OF Cons.prems(1)] by (simp add: 1(3))
  have "snapshot_key ` set ss \<inter> dom (profile_at ps1) = {}"
    using Cons.prems(2,4) by (auto simp: 1(3) distinct_profiles_def snapshot_key_def)
  moreover have "distinct_profiles ss" "snapshots_ok ss"
    using Cons.prems(2,3) by (simp_all add: distinct_profiles_def snapshots_ok_def)
  ultimately obtain st2 ps2 where 2: "restore_all ss (st1, ps1) = (Inr (), (st2, ps2))" "profiles_wf (st2, ps2)"
    "length ps2 = length ps1" "profile_at ps2 = profile_at ps1 ++ profiles_map ss"
    using Cons.IH [OF 1(2)] Cons.prems(5) card len by auto
  have "profiles_map ss ?k = None"
    using Cons.prems(2) dom_profiles_map [of ss] by (auto simp: distinct_profiles_def snapshot_key_def)
  then have "profile_at ps1 ++ profiles_map ss = profile_at ps ++ profiles_map (s # ss)"
    by (auto simp: 1(3) profiles_map_def map_add_def fun_eq_iff snapshot_key_def split: option.splits)
  with 1 2 len show ?case by auto
qed (simp add: profiles_map_def)

text \<open>The catalog as the callbacks of one backend: its contents do not change in between.\<close>

definition catalog_write ::
  "'st durable_catalog_store \<Rightarrow> 'st \<Rightarrow> query_profile_snapshot list \<Rightarrow> shmem \<Rightarrow> unit pwb_result \<times> shmem" where
  "catalog_write store st ps s = (fst (persist_profiles_with store ps st), s)"

definition catalog_read ::
  "'st durable_catalog_store \<Rightarrow> usize \<Rightarrow> 'st \<Rightarrow> shmem \<Rightarrow> query_profile_snapshot list pwb_result \<times> shmem" where
  "catalog_read store limit st s = (fst (load_profiles_from store limit st), s)"

lemma snapshots_ok_map:
  assumes "distinct_profiles qs" and "profiles_map qs = profiles_map ps" and "distinct_profiles ps" and "snapshots_ok ps"
  shows "snapshots_ok qs"
proof -
  have "profile_ok (qs_profile p)" if "p \<in> set qs" for p
  proof -
    have "profiles_map ps (snapshot_key p) = Some (qs_profile p)"
      using that profiles_map_Some [OF assms(1)] assms(2) by metis
    then obtain p' where "p' \<in> set ps" "qs_profile p' = qs_profile p"
      using profiles_map_Some [OF assms(3)] by blast
    with assms(4) show ?thesis by (metis list_all_iff snapshots_ok_def)
  qed
  then show ?thesis by (simp add: snapshots_ok_def list_all_iff)
qed

text \<open>Restoring into an empty cache with room leaves exactly the loaded profiles.\<close>

lemma restore_into_empty:
  assumes new: "segment_ok s" "restore_due now stale (header_of s)"
    and empty: "profile_at (sm_profiles (sh_mem s)) = Map.empty"
    and qs: "distinct_profiles qs" "snapshots_ok qs" "length qs \<le> length (sm_profiles (sh_mem s))"
    and read: "\<And>x. read x = (Inr qs, x)"
  shows "\<exists>s'. ensure_profiles_loaded now stale read s = (Inr (), s')
    \<and> profile_at (sm_profiles (sh_mem s')) = profiles_map qs"
proof -
  let ?new = "sm_profiles (sh_mem s)" and ?s1 = "restore_begun now s"
  have l: "loads_ok read" using qs(2) by (simp add: loads_ok_def read)
  have s1: "segment_ok ?s1" "sm_profiles (sh_mem ?s1) = ?new"
    using restore_begun_ok [OF new(1)] by (simp_all add: restore_begun_def set_header_def)
  obtain st' ps' where r: "restore_all qs (header_of ?s1, ?new) = (Inr (), (st', ps'))"
    "profile_at ps' = profile_at ?new ++ profiles_map qs"
    using restore_into_room [OF segment_profiles_wf [OF s1(1), unfolded s1(2)] qs(1,2)] qs(3)
    by (auto simp: empty)
  obtain s' where s': "finish_profile_restore qs ?s1 = (Inr (), s')" "sm_profiles (sh_mem s') = ps'"
    using r(1) by (simp add: finish_profile_restore_def with_locked_profiles_eq [OF s1(1)] s1(2)
        finish_profile_restore_locked_def)
  have "?new \<noteq> [] \<or> qs = []" using qs(3) by auto
  then have "ensure_profiles_loaded now stale read s = (Inr (), s')"
    using ensure_loaded_cases(2) [OF new(1) l new(2)] s'(1) s1(2) by (auto simp: read split: if_splits)
  with r(2) show ?thesis by (simp add: s'(2) empty)
qed


section \<open>Concrete runs\<close>

lemma started_mem: "\<exists>l. sh_mem started_shmem = zeroed_segment l"
  by (auto simp: started_shmem_def shmem_startup_def Let_def)

lemma started_header: "\<exists>l. header_of started_shmem = initialize_state l"
proof -
  obtain l where "sh_mem started_shmem = zeroed_segment l" using started_mem by blast
  then have "header_of started_shmem = initialize_state l" by (simp only: zeroed_segment_def) simp
  then show ?thesis by blast
qed

lemma started_restore_due: "restore_due now stale (header_of started_shmem)"
  using started_header by (auto simp: restore_due_def initialize_state_def initial_profile_restore_state_def)

lemma started_profiles: "profile_at (sm_profiles (sh_mem started_shmem)) = Map.empty"
proof -
  obtain l where "sh_mem started_shmem = zeroed_segment l" using started_mem by blast
  then have "sm_profiles (sh_mem started_shmem)
      = replicate (unat (sl_profile_cache_capacity l)) pwb_profile_entry_default"
    by (simp only: zeroed_segment_def) simp
  then show ?thesis by (simp add: profile_at_def fun_eq_iff profile_slots.lookup_blank)
qed

lemma started_profiles_length: "length (sm_profiles (sh_mem started_shmem)) = 2"
proof -
  have "bounded_capacities sample_capacities" by (simp add: bounded_capacities_def sample_capacities_def)
  from startup_segment [OF this, of sample_shmem] show ?thesis by (auto simp: started_shmem_def sample_capacities_def)
qed


definition dirty_shmem :: shmem where
  "dirty_shmem = set_header ((header_of started_shmem)\<lparr>ss_profile_dirty_count := 3\<rparr>) started_shmem"

lemma dirty_shmem_ok: "segment_ok dirty_shmem" "persist_due 70000 60000 (header_of dirty_shmem)"
proof -
  show "segment_ok dirty_shmem"
    unfolding dirty_shmem_def using started_shmem_ok(1) by (intro set_header_ok) simp_all
  show "persist_due 70000 60000 (header_of dirty_shmem)"
    using started_header by (auto simp: dirty_shmem_def persist_due_def initialize_state_def)
qed

theorem persist_protocol_witness:
  "ss_profile_dirty_count (header_of (snd (persist_profiles_if_due 70000 60000 (\<lambda>ps s. (Inr (), s)) dirty_shmem))) = 0"
proof -
  have w: "writes_ok (\<lambda>ps s. (Inr (), s))" by (simp add: writes_ok_def)
  from persist_protocol [OF dirty_shmem_ok(1) w, of 70000 60000] dirty_shmem_ok(2) show ?thesis by auto
qed


text \<open>
  An observation that another backend makes between the snapshot and the completion of a
  successful persist is marked clean with the others, although it was not in the snapshot.
\<close>

lemma persist_forgets_concurrent_observation:
  fixes h :: scope_hash and q :: query_id and a :: wal_bytes and t :: epoch_millis
  assumes "segment_ok s" and "persist_due now interval (header_of s)" and "weights_ok w"
  defines "others \<equiv> \<lambda>ps s. (Inr (), snd (upsert_scoped_and_global_query_profiles h q a t w s))"
  shows "ss_profile_dirty_count (header_of (snd (persist_profiles_if_due now interval others s))) = 0"
proof -
  have "writes_ok others" using segment_upsert assms(3) by (simp add: writes_ok_def others_def)
  from persist_cases(1) [OF assms(1) this] assms(2) show ?thesis
    by (simp add: others_def marked_clean_def complete_profile_persist_locked_def)
qed

end
