(* ===== verification/Pwb_Settings.thy ===== *)
theory Pwb_Settings
  imports Pwb_Segment
begin

text \<open>
  The configuration, \<^verbatim>\<open>src/guc.rs\<close>. The registered integer settings are a list with their
  defaults and ranges, which PostgreSQL enforces; the values of a server are a record. The
  smoothing factor is a 64-bit float: a finite one is modelled as a dyadic number, with the
  one multiplication of the code rounded to nearest, ties to even, and \<open>round\<close> away from
  zero. The lemmas show that settings in range start the server with every invariant, and
  that the smoothing factor gives weights that the average accepts.
\<close>

section \<open>Registered settings\<close>

definition DEFAULT_WRITE_WAL_BYTES_VALUE :: int where "DEFAULT_WRITE_WAL_BYTES_VALUE = 16 * 1024"
definition DEFAULT_UTILITY_WAL_BYTES_VALUE :: int where "DEFAULT_UTILITY_WAL_BYTES_VALUE = 1024 * 1024"
definition MAX_PREDICTION_BYTES_VALUE :: int where "MAX_PREDICTION_BYTES_VALUE = 1024 * 1024 * 1024"
definition SHMEM_CAPACITY_VALUE :: int where "SHMEM_CAPACITY_VALUE = 4096"
definition INHERIT_CAPACITY_VALUE :: int where "INHERIT_CAPACITY_VALUE = -1"
definition MAX_CAPACITY_VALUE :: int where "MAX_CAPACITY_VALUE = 1000000"
definition I32_MAX :: int where "I32_MAX = 2147483647"

lemmas guc_values = DEFAULT_WRITE_WAL_BYTES_VALUE_def DEFAULT_UTILITY_WAL_BYTES_VALUE_def
  MAX_PREDICTION_BYTES_VALUE_def SHMEM_CAPACITY_VALUE_def INHERIT_CAPACITY_VALUE_def
  MAX_CAPACITY_VALUE_def I32_MAX_def

datatype guc_context = Sighup | Postmaster

record int_guc =
  ig_name :: string
  ig_default :: int
  ig_min :: int
  ig_max :: int
  ig_context :: guc_context

definition prediction_int_gucs :: "int_guc list" where
  "prediction_int_gucs =
     [\<lparr>ig_name = ''pwb.default_write_wal_bytes'', ig_default = DEFAULT_WRITE_WAL_BYTES_VALUE,
       ig_min = 0, ig_max = I32_MAX, ig_context = Sighup\<rparr>,
      \<lparr>ig_name = ''pwb.default_utility_wal_bytes'', ig_default = DEFAULT_UTILITY_WAL_BYTES_VALUE,
       ig_min = 0, ig_max = I32_MAX, ig_context = Sighup\<rparr>,
      \<lparr>ig_name = ''pwb.max_prediction_bytes'', ig_default = MAX_PREDICTION_BYTES_VALUE,
       ig_min = 0, ig_max = I32_MAX, ig_context = Sighup\<rparr>]"

definition capacity_gucs :: "int_guc list" where
  "capacity_gucs =
     [\<lparr>ig_name = ''pwb.shmem_capacity'', ig_default = SHMEM_CAPACITY_VALUE,
       ig_min = 0, ig_max = MAX_CAPACITY_VALUE, ig_context = Postmaster\<rparr>,
      \<lparr>ig_name = ''pwb.recent_decision_capacity'', ig_default = INHERIT_CAPACITY_VALUE,
       ig_min = INHERIT_CAPACITY_VALUE, ig_max = MAX_CAPACITY_VALUE, ig_context = Postmaster\<rparr>,
      \<lparr>ig_name = ''pwb.profile_cache_capacity'', ig_default = INHERIT_CAPACITY_VALUE,
       ig_min = INHERIT_CAPACITY_VALUE, ig_max = MAX_CAPACITY_VALUE, ig_context = Postmaster\<rparr>,
      \<lparr>ig_name = ''pwb.budget_bucket_capacity'', ig_default = INHERIT_CAPACITY_VALUE,
       ig_min = INHERIT_CAPACITY_VALUE, ig_max = MAX_CAPACITY_VALUE, ig_context = Postmaster\<rparr>,
      \<lparr>ig_name = ''pwb.scope_name_capacity'', ig_default = INHERIT_CAPACITY_VALUE,
       ig_min = INHERIT_CAPACITY_VALUE, ig_max = MAX_CAPACITY_VALUE, ig_context = Postmaster\<rparr>]"

section \<open>64-bit floats\<close>

text \<open>\<open>Finite n m e\<close> is \<open>m * 2 ^ e\<close>, negated when \<open>n\<close>; \<open>m < 2 ^ 53\<close> and \<open>-1074 \<le> e\<close>.\<close>

datatype f64 = Finite bool nat int | Infinite bool | NaN

fun f64_valid :: "f64 \<Rightarrow> bool" where
  "f64_valid (Finite n m e) \<longleftrightarrow> m < 2 ^ 53 \<and> -1074 \<le> e \<and> e \<le> 971"
| "f64_valid _ = True"

fun is_finite :: "f64 \<Rightarrow> bool" where
  "is_finite (Finite n m e) = True"
| "is_finite _ = False"

text \<open>A finite float as a multiple of \<open>2 ^ -1074\<close>, and the comparison with it.\<close>

fun f64_units :: "f64 \<Rightarrow> int" where
  "f64_units (Finite n m e) = (if n then - 1 else 1) * int m * 2 ^ nat (e + 1074)"
| "f64_units _ = 0"

definition f64_le :: "f64 \<Rightarrow> f64 \<Rightarrow> bool" where
  "f64_le a b \<longleftrightarrow> is_finite a \<and> is_finite b \<and> f64_units a \<le> f64_units b"

text \<open>Rounding a natural number to 53 bits, ties to even: the rounded number and its exponent.\<close>

fun bit_length :: "nat \<Rightarrow> nat" where
  "bit_length n = (if n = 0 then 0 else Suc (bit_length (n div 2)))"

declare bit_length.simps [simp del]

definition round_div_even :: "nat \<Rightarrow> nat \<Rightarrow> nat" where
  "round_div_even n d =
     (let q = n div d; r = n mod d in
      if 2 * r < d \<or> 2 * r = d \<and> even q then q else q + 1)"

definition round53 :: "nat \<Rightarrow> nat \<times> nat" where
  "round53 n = (let k = bit_length n - 53 in (round_div_even n (2 ^ k), k))"

text \<open>
  \<open>(alpha * PROFILE_EWMA_ALPHA_DENOMINATOR as f64).round() as u64\<close> of a positive float: the
  product is rounded to a float, then to the nearest integer, halves upwards.
\<close>

definition PROFILE_EWMA_ALPHA_DENOMINATOR :: u64 where "PROFILE_EWMA_ALPHA_DENOMINATOR = 1000000"

definition alpha_numerator :: "nat \<Rightarrow> int \<Rightarrow> nat" where
  "alpha_numerator m e =
     (let (q, k) = round53 (m * 1000000); f = e + int k in
      if 0 \<le> f then q * 2 ^ nat f else (2 * q + 2 ^ nat (- f)) div 2 ^ nat (1 - f))"

text \<open>The bounds are the floats nearest to 0.000001 and 1.\<close>

definition DEFAULT_PROFILE_EWMA_ALPHA_VALUE :: f64 where
  "DEFAULT_PROFILE_EWMA_ALPHA_VALUE = Finite False 1 (-1)"

definition MIN_PROFILE_EWMA_ALPHA_VALUE :: f64 where
  "MIN_PROFILE_EWMA_ALPHA_VALUE = Finite False 4722366482869645 (-72)"

definition MAX_PROFILE_EWMA_ALPHA_VALUE :: f64 where
  "MAX_PROFILE_EWMA_ALPHA_VALUE = Finite False 1 0"

text \<open>\<open>f64\<close> has a \<open>Display\<close> of its own, the argument \<open>display\<close>, for the error message.\<close>

definition alpha_to_profile_ewma_weights :: "(f64 \<Rightarrow> string) \<Rightarrow> f64 \<Rightarrow> profile_ewma_weights pwb_result" where
  "alpha_to_profile_ewma_weights display alpha =
     (if \<not> is_finite alpha
         \<or> \<not> (f64_le MIN_PROFILE_EWMA_ALPHA_VALUE alpha \<and> f64_le alpha MAX_PROFILE_EWMA_ALPHA_VALUE)
      then Inl (Internal (''invalid profile EWMA alpha: '' @ display alpha))
      else case alpha of
        Finite n m e \<Rightarrow>
          ewma_weights_new (of_nat (min (max (alpha_numerator m e) 1) 1000000)) PROFILE_EWMA_ALPHA_DENOMINATOR
      | _ \<Rightarrow> Inl (Internal (''invalid profile EWMA alpha: '' @ display alpha)))"

section \<open>The values of a server\<close>

datatype predictor_kind = ProfileEwma | StatementClassFallback

record gucs =
  g_enabled :: bool
  g_fail_open :: bool
  g_default_write_wal_bytes :: i32
  g_default_utility_wal_bytes :: i32
  g_max_prediction_bytes :: i32
  g_shmem_capacity :: i32
  g_recent_decision_capacity :: i32
  g_profile_cache_capacity :: i32
  g_budget_bucket_capacity :: i32
  g_scope_name_capacity :: i32
  g_composite_scope_enabled :: bool
  g_predictor :: predictor_kind
  g_profile_ewma_alpha :: f64

definition nonnegative_i32_to_wal_bytes :: "i32 \<Rightarrow> wal_bytes" where
  "nonnegative_i32_to_wal_bytes value = (if sint value \<le> 0 then 0 else ucast value)"

definition nonnegative_i32_to_usize :: "i32 \<Rightarrow> usize" where
  "nonnegative_i32_to_usize value = (if sint value \<le> 0 then 0 else ucast value)"

definition shmem_capacity :: "gucs \<Rightarrow> usize" where
  "shmem_capacity g = nonnegative_i32_to_usize (g_shmem_capacity g)"

definition specific_or_legacy_capacity :: "gucs \<Rightarrow> i32 \<Rightarrow> usize" where
  "specific_or_legacy_capacity g value =
     (if sint value = INHERIT_CAPACITY_VALUE then shmem_capacity g else nonnegative_i32_to_usize value)"

definition recent_decision_capacity_setting :: "gucs \<Rightarrow> usize" where
  "recent_decision_capacity_setting g = specific_or_legacy_capacity g (g_recent_decision_capacity g)"

definition profile_cache_capacity :: "gucs \<Rightarrow> usize" where
  "profile_cache_capacity g = specific_or_legacy_capacity g (g_profile_cache_capacity g)"

definition budget_bucket_capacity :: "gucs \<Rightarrow> usize" where
  "budget_bucket_capacity g = specific_or_legacy_capacity g (g_budget_bucket_capacity g)"

definition scope_name_capacity :: "gucs \<Rightarrow> usize" where
  "scope_name_capacity g = specific_or_legacy_capacity g (g_scope_name_capacity g)"

definition default_write_wal_bytes :: "gucs \<Rightarrow> wal_bytes" where
  "default_write_wal_bytes g = nonnegative_i32_to_wal_bytes (g_default_write_wal_bytes g)"

definition default_utility_wal_bytes :: "gucs \<Rightarrow> wal_bytes" where
  "default_utility_wal_bytes g = nonnegative_i32_to_wal_bytes (g_default_utility_wal_bytes g)"

definition max_prediction_bytes :: "gucs \<Rightarrow> wal_bytes" where
  "max_prediction_bytes g = nonnegative_i32_to_wal_bytes (g_max_prediction_bytes g)"

definition profile_ewma_alpha_weights :: "(f64 \<Rightarrow> string) \<Rightarrow> gucs \<Rightarrow> profile_ewma_weights pwb_result" where
  "profile_ewma_alpha_weights display g = alpha_to_profile_ewma_weights display (g_profile_ewma_alpha g)"

text \<open>The capacities that the server requests shared memory for.\<close>

definition requested_capacities :: "gucs \<Rightarrow> shared_capacities" where
  "requested_capacities g =
     \<lparr>sc_recent_decisions = recent_decision_capacity_setting g, sc_profiles = profile_cache_capacity g,
      sc_budget_buckets = budget_bucket_capacity g, sc_scope_names = scope_name_capacity g\<rparr>"

section \<open>Settings in range\<close>

definition int_in_range :: "int_guc \<Rightarrow> i32 \<Rightarrow> bool" where
  "int_in_range guc v \<longleftrightarrow> ig_min guc \<le> sint v \<and> sint v \<le> ig_max guc"

definition gucs_in_range :: "gucs \<Rightarrow> bool" where
  "gucs_in_range g \<longleftrightarrow>
     list_all2 int_in_range prediction_int_gucs
       [g_default_write_wal_bytes g, g_default_utility_wal_bytes g, g_max_prediction_bytes g]
   \<and> list_all2 int_in_range capacity_gucs
       [g_shmem_capacity g, g_recent_decision_capacity g, g_profile_cache_capacity g,
        g_budget_bucket_capacity g, g_scope_name_capacity g]
   \<and> f64_valid (g_profile_ewma_alpha g)
   \<and> f64_le MIN_PROFILE_EWMA_ALPHA_VALUE (g_profile_ewma_alpha g)
   \<and> f64_le (g_profile_ewma_alpha g) MAX_PROFILE_EWMA_ALPHA_VALUE"

lemma unat_nonnegative:
  "unat (nonnegative_i32_to_wal_bytes v) = nat (sint v)" "unat (nonnegative_i32_to_usize v) = nat (sint v)"
proof -
  have "unat (ucast v :: u64) = nat (sint v)" if "0 < sint v"
  proof -
    have "uint v = take_bit 32 (sint v)" using uint_sint [of v] by simp
    also have "\<dots> = sint v" using that sint_less [of v] by (intro take_bit_int_eq_self) simp_all
    finally have "unat v = nat (sint v)" by (simp add: unat_eq_nat_uint)
    moreover have "unat v < 2 ^ 64" by (rule less_le_trans [OF unat_bound]) simp
    ultimately show ?thesis
      by (simp add: unsigned_ucast_eq take_bit_nat_eq_self del: unsigned_less)
  qed
  then show "unat (nonnegative_i32_to_wal_bytes v) = nat (sint v)" "unat (nonnegative_i32_to_usize v) = nat (sint v)"
    by (simp_all add: nonnegative_i32_to_wal_bytes_def nonnegative_i32_to_usize_def)
qed

definition capacity_of :: "i32 \<Rightarrow> i32 \<Rightarrow> nat" where
  "capacity_of legacy v = (if sint v = -1 then nat (sint legacy) else nat (sint v))"

lemma unat_capacity: "unat (specific_or_legacy_capacity g v) = capacity_of (g_shmem_capacity g) v"
  by (simp add: specific_or_legacy_capacity_def shmem_capacity_def unat_nonnegative capacity_of_def
      INHERIT_CAPACITY_VALUE_def)

lemma capacities_bounded:
  assumes "gucs_in_range g"
  shows "bounded_capacities (requested_capacities g)"
  using assms
  by (auto simp: gucs_in_range_def capacity_gucs_def int_in_range_def guc_values bounded_capacities_def
      requested_capacities_def recent_decision_capacity_setting_def profile_cache_capacity_def
      budget_bucket_capacity_def scope_name_capacity_def unat_capacity capacity_of_def)

text \<open>
  C40: a server whose settings are in their registered ranges starts: the request and the
  start-up succeed, every invariant of the segment holds, and each array has the length of
  its own setting, or of the legacy setting when its own is -1.
\<close>

theorem settings_start_server:
  assumes "gucs_in_range g"
  shows "\<exists>s1 s2. shmem_request (requested_capacities g) s = (Inr (), s1)
    \<and> shmem_startup True True None s1 = (Inr (), s2) \<and> segment_ok s2
    \<and> length (sm_recent_decisions (sh_mem s2)) = capacity_of (g_shmem_capacity g) (g_recent_decision_capacity g)
    \<and> length (sm_profiles (sh_mem s2)) = capacity_of (g_shmem_capacity g) (g_profile_cache_capacity g)
    \<and> length (sm_budget_buckets (sh_mem s2)) = capacity_of (g_shmem_capacity g) (g_budget_bucket_capacity g)
    \<and> length (sm_scope_names (sh_mem s2)) = capacity_of (g_shmem_capacity g) (g_scope_name_capacity g)"
  using startup_segment [OF capacities_bounded [OF assms], of s]
  by (auto simp: requested_capacities_def recent_decision_capacity_setting_def profile_cache_capacity_def
      budget_bucket_capacity_def scope_name_capacity_def unat_capacity)

definition default_gucs :: gucs where
  "default_gucs =
     \<lparr>g_enabled = True, g_fail_open = True, g_default_write_wal_bytes = word_of_int DEFAULT_WRITE_WAL_BYTES_VALUE,
      g_default_utility_wal_bytes = word_of_int DEFAULT_UTILITY_WAL_BYTES_VALUE,
      g_max_prediction_bytes = word_of_int MAX_PREDICTION_BYTES_VALUE,
      g_shmem_capacity = word_of_int SHMEM_CAPACITY_VALUE,
      g_recent_decision_capacity = word_of_int INHERIT_CAPACITY_VALUE,
      g_profile_cache_capacity = word_of_int INHERIT_CAPACITY_VALUE,
      g_budget_bucket_capacity = word_of_int INHERIT_CAPACITY_VALUE,
      g_scope_name_capacity = word_of_int INHERIT_CAPACITY_VALUE,
      g_composite_scope_enabled = False, g_predictor = ProfileEwma,
      g_profile_ewma_alpha = DEFAULT_PROFILE_EWMA_ALPHA_VALUE\<rparr>"

lemma default_gucs_in_range: "gucs_in_range default_gucs"
  by (simp add: gucs_in_range_def default_gucs_def prediction_int_gucs_def capacity_gucs_def int_in_range_def
      guc_values f64_le_def MIN_PROFILE_EWMA_ALPHA_VALUE_def MAX_PROFILE_EWMA_ALPHA_VALUE_def
      DEFAULT_PROFILE_EWMA_ALPHA_VALUE_def)

theorem settings_start_server_witness:
  "\<exists>s1 s2. shmem_request (requested_capacities default_gucs) sample_shmem = (Inr (), s1)
    \<and> shmem_startup True True None s1 = (Inr (), s2) \<and> segment_ok s2
    \<and> length (sm_budget_buckets (sh_mem s2)) = 4096"
  using settings_start_server [OF default_gucs_in_range, of sample_shmem]
  by (auto simp: default_gucs_def capacity_of_def guc_values)

section \<open>The smoothing factor\<close>

lemma clamped_numerator:
  "0 < (of_nat (min (max x 1) 1000000) :: u64)" "(of_nat (min (max x 1) 1000000) :: u64) \<le> 1000000"
proof -
  let ?n = "min (max x 1) 1000000"
  have n: "0 < ?n" "?n \<le> 1000000" by simp_all
  then have "unat (of_nat ?n :: u64) = ?n" by (simp add: unat_of_nat)
  with n show "0 < (of_nat ?n :: u64)" "(of_nat ?n :: u64) \<le> 1000000"
    by (simp_all add: word_less_nat_alt word_le_nat_alt)
qed

lemma alpha_weights_Finite:
  assumes "f64_le MIN_PROFILE_EWMA_ALPHA_VALUE (Finite n m e)" and "f64_le (Finite n m e) MAX_PROFILE_EWMA_ALPHA_VALUE"
  shows "alpha_to_profile_ewma_weights display (Finite n m e) =
    Inr \<lparr>ew_numerator = of_nat (min (max (alpha_numerator m e) 1) 1000000), ew_denominator = 1000000\<rparr>"
  using assms clamped_numerator [of "alpha_numerator m e"]
  by (simp add: alpha_to_profile_ewma_weights_def PROFILE_EWMA_ALPHA_DENOMINATOR_def ewma_weights_new_Inr)

lemma alpha_weights_invalid:
  assumes "\<not> (f64_le MIN_PROFILE_EWMA_ALPHA_VALUE alpha \<and> f64_le alpha MAX_PROFILE_EWMA_ALPHA_VALUE)"
  shows "alpha_to_profile_ewma_weights display alpha = Inl (Internal (''invalid profile EWMA alpha: '' @ display alpha))"
  using assms by (auto simp: alpha_to_profile_ewma_weights_def)

lemma bit_length_le: "n < 2 ^ k \<Longrightarrow> bit_length n \<le> k"
proof (induction k arbitrary: n)
  case (Suc k)
  then show ?case
    by (cases "n = 0") (simp_all add: bit_length.simps [of n] bit_length.simps [of 0])
qed (simp add: bit_length.simps)

text \<open>A product that fits 53 bits is exact, and an exact multiple of a millionth stays exact.\<close>

lemma round53_exact: "n < 2 ^ 53 \<Longrightarrow> round53 n = (n, 0)"
  using bit_length_le [of n 53] by (simp add: round53_def round_div_even_def Let_def)

lemma half_up_exact: "(2 * (n * 2 ^ j) + 2 ^ j) div (2 * 2 ^ j) = (n :: nat)"
proof -
  have "2 * (n * 2 ^ j) + 2 ^ j = (2 * n + 1) * 2 ^ j" by (simp add: algebra_simps)
  then have "(2 * (n * 2 ^ j) + 2 ^ j) div (2 * 2 ^ j) = (2 * n + 1) * 2 ^ j div (2 * 2 ^ j)" by (rule arg_cong)
  also have "\<dots> = (2 * n + 1) div 2" by (rule div_mult_mult2) simp
  finally show ?thesis by simp
qed

lemma alpha_numerator_exact:
  assumes "m * 1000000 < 2 ^ 53" and "m * 1000000 = n * 2 ^ j" and "e = - int j"
  shows "alpha_numerator m e = n"
proof (cases "j = 0")
  case True
  then show ?thesis using round53_exact [OF assms(1)] assms(2,3) by (simp add: alpha_numerator_def)
next
  case False
  then have "e < 0" using assms(3) by simp
  moreover have "nat (- e) = j" "nat (1 - e) = Suc j" using assms(3) by simp_all
  ultimately show ?thesis
    using round53_exact [OF assms(1)] assms(2) by (simp add: alpha_numerator_def half_up_exact)
qed

text \<open>
  A smoothing factor in its registered range gives weights that the average accepts,
  a numerator between 1 and a million over a million; any other float, also a NaN or an
  infinity, is an error. A factor that is a multiple of a millionth as a float, such as
  the default one half, is represented exactly.
\<close>

lemma smoothing_weights:
  "(f64_le MIN_PROFILE_EWMA_ALPHA_VALUE alpha \<and> f64_le alpha MAX_PROFILE_EWMA_ALPHA_VALUE \<longrightarrow>
     (\<exists>w. alpha_to_profile_ewma_weights display alpha = Inr w \<and> weights_ok w \<and> ew_denominator w = 1000000))
   \<and> (\<not> (f64_le MIN_PROFILE_EWMA_ALPHA_VALUE alpha \<and> f64_le alpha MAX_PROFILE_EWMA_ALPHA_VALUE) \<longrightarrow>
     alpha_to_profile_ewma_weights display alpha = Inl (Internal (''invalid profile EWMA alpha: '' @ display alpha)))
   \<and> (alpha = Finite False m (- int j) \<and> m * 1000000 = n * 2 ^ j \<and> m * 1000000 < 2 ^ 53
        \<and> 1 \<le> n \<and> n \<le> 1000000 \<and> alpha_to_profile_ewma_weights display alpha = Inr ws
        \<longrightarrow> unat (ew_numerator ws) = n)"
proof (intro conjI impI)
  assume range: "f64_le MIN_PROFILE_EWMA_ALPHA_VALUE alpha \<and> f64_le alpha MAX_PROFILE_EWMA_ALPHA_VALUE"
  then show "\<exists>w. alpha_to_profile_ewma_weights display alpha = Inr w \<and> weights_ok w \<and> ew_denominator w = 1000000"
  proof (cases alpha)
    case (Finite n m e)
    then show ?thesis
      using range clamped_numerator [of "alpha_numerator m e"] by (simp add: alpha_weights_Finite weights_ok_def)
  qed (simp_all add: f64_le_def)
next
  assume "\<not> (f64_le MIN_PROFILE_EWMA_ALPHA_VALUE alpha \<and> f64_le alpha MAX_PROFILE_EWMA_ALPHA_VALUE)"
  then show "alpha_to_profile_ewma_weights display alpha = Inl (Internal (''invalid profile EWMA alpha: '' @ display alpha))"
    by (rule alpha_weights_invalid)
next
  assume a: "alpha = Finite False m (- int j) \<and> m * 1000000 = n * 2 ^ j \<and> m * 1000000 < 2 ^ 53
        \<and> 1 \<le> n \<and> n \<le> 1000000 \<and> alpha_to_profile_ewma_weights display alpha = Inr ws"
  then have num: "alpha_numerator m (- int j) = n" by (intro alpha_numerator_exact) simp_all
  show "unat (ew_numerator ws) = n"
  proof (cases "f64_le MIN_PROFILE_EWMA_ALPHA_VALUE alpha \<and> f64_le alpha MAX_PROFILE_EWMA_ALPHA_VALUE")
    case True
    then have "Inr ws = (Inr \<lparr>ew_numerator = of_nat (min (max n 1) 1000000), ew_denominator = 1000000\<rparr> :: profile_ewma_weights pwb_result)"
      using a num alpha_weights_Finite [of False m "- int j" display] by metis
    then have "ws = \<lparr>ew_numerator = of_nat (min (max n 1) 1000000), ew_denominator = 1000000\<rparr>" by simp
    then show ?thesis using a by (simp add: unat_of_nat max_def min_def)
  next
    case False
    then have "alpha_to_profile_ewma_weights display alpha \<noteq> Inr ws" by (subst alpha_weights_invalid) (assumption, rule sum.distinct)
    then show ?thesis using a by blast
  qed
qed

lemma smoothing_weights_witness:
  "\<exists>ws. alpha_to_profile_ewma_weights (\<lambda>_. []) DEFAULT_PROFILE_EWMA_ALPHA_VALUE = Inr ws
     \<and> unat (ew_numerator ws) = 500000 \<and> weights_ok ws"
proof -
  let ?a = "DEFAULT_PROFILE_EWMA_ALPHA_VALUE"
  have range: "f64_le MIN_PROFILE_EWMA_ALPHA_VALUE ?a \<and> f64_le ?a MAX_PROFILE_EWMA_ALPHA_VALUE"
    using default_gucs_in_range by (simp add: gucs_in_range_def default_gucs_def)
  note weights = smoothing_weights [of ?a "\<lambda>_. []" 1 1 500000]
  obtain ws where ws: "alpha_to_profile_ewma_weights (\<lambda>_. []) ?a = Inr ws" "weights_ok ws"
    using weights range by blast
  then have "unat (ew_numerator ws) = 500000"
    using weights [of ws] by (simp add: DEFAULT_PROFILE_EWMA_ALPHA_VALUE_def)
  with ws show ?thesis by blast
qed

end
