(* ===== verification/Pwb_Privileges.thy ===== *)
theory Pwb_Privileges
  imports Pwb_Types
begin

text \<open>
  The privilege gates of the SQL functions, \<^verbatim>\<open>src/privileges.rs\<close>. What the server knows of the
  invoking user (the outer user, also inside a \<open>SECURITY DEFINER\<close> function) is a parameter:
  whether it is a superuser, the OID of a role name (0 is \<open>Oid::INVALID\<close>), and whether it has
  the privileges of a role. The lemmas say exactly who passes a gate.
\<close>

definition ADMIN_ROLE :: string where "ADMIN_ROLE = ''pwb_admin''"
definition TENANT_SETTER_ROLE :: string where "TENANT_SETTER_ROLE = ''pwb_tenant_setter''"

datatype privilege_gate = Admin | TenantSetter

fun role_names :: "privilege_gate \<Rightarrow> string list" where
  "role_names Admin = [ADMIN_ROLE]"
| "role_names TenantSetter = [ADMIN_ROLE, TENANT_SETTER_ROLE]"

record invoking_user =
  iu_superuser :: bool
  iu_role_oid :: "string \<Rightarrow> u32"
  iu_has_privs_of_role :: "u32 \<Rightarrow> bool"

text \<open>\<open>CString::new\<close>: a string with a NUL byte has no C form.\<close>

definition nul_position :: "string \<Rightarrow> nat option" where
  "nul_position s = position (\<lambda>c. byte_of c = 0) s"

fun member_of_any :: "invoking_user \<Rightarrow> string list \<Rightarrow> bool pwb_result" where
  "member_of_any user [] = Inr False"
| "member_of_any user (role_name # names) =
     (case nul_position role_name of
        Some i \<Rightarrow> Inl (Internal (''trusted role name is invalid: nul byte found in provided data at position: '' @ show_nat i))
      | None \<Rightarrow>
          let role_oid = iu_role_oid user role_name in
          if role_oid \<noteq> 0 \<and> iu_has_privs_of_role user role_oid then Inr True
          else member_of_any user names)"

definition invoking_user_is_superuser_or_member_of ::
  "invoking_user \<Rightarrow> string list \<Rightarrow> bool pwb_result" where
  "invoking_user_is_superuser_or_member_of user names =
     (if iu_superuser user then Inr True else member_of_any user names)"

definition require_privilege :: "invoking_user \<Rightarrow> privilege_gate \<Rightarrow> string \<Rightarrow> unit pwb_result" where
  "require_privilege user gate operation =
     rbind (invoking_user_is_superuser_or_member_of user (role_names gate)) (\<lambda>ok.
       if ok then Inr () else Inl (InsufficientPrivilege operation))"

section \<open>SQL functions\<close>

text \<open>
  \<open>unwrap_or_else(errors::raise)\<close>: the value, or the report that ends the SQL statement. A
  function behind a gate raises before it does anything.
\<close>

type_synonym 'a raised = "(sql_error_code \<times> string) + 'a"

definition unwrap_or_raise :: "'a pwb_result \<times> 's \<Rightarrow> 'a raised \<times> 's" where
  "unwrap_or_raise m = (case m of (Inl e, s) \<Rightarrow> (Inl (raised_report e), s) | (Inr x, s) \<Rightarrow> (Inr x, s))"

definition gated ::
  "invoking_user \<Rightarrow> privilege_gate \<Rightarrow> string \<Rightarrow> ('s \<Rightarrow> 'a pwb_result \<times> 's) \<Rightarrow> 's \<Rightarrow> 'a raised \<times> 's" where
  "gated user gate operation body s =
     sbind (unwrap_or_raise (require_privilege user gate operation, s)) (\<lambda>_ s. unwrap_or_raise (body s))"

definition has_role :: "invoking_user \<Rightarrow> string \<Rightarrow> bool" where
  "has_role user name \<longleftrightarrow> iu_role_oid user name \<noteq> 0 \<and> iu_has_privs_of_role user (iu_role_oid user name)"

definition authorized :: "invoking_user \<Rightarrow> privilege_gate \<Rightarrow> bool" where
  "authorized user gate \<longleftrightarrow>
     iu_superuser user \<or> has_role user ADMIN_ROLE \<or> gate = TenantSetter \<and> has_role user TENANT_SETTER_ROLE"

lemma role_names_no_nul: "name \<in> set (role_names gate) \<Longrightarrow> nul_position name = None"
  by (cases gate) (auto simp: ADMIN_ROLE_def TENANT_SETTER_ROLE_def nul_position_def)

lemma member_of_any_eq:
  "\<forall>n \<in> set names. nul_position n = None \<Longrightarrow> member_of_any user names = Inr (\<exists>n \<in> set names. has_role user n)"
  by (induction names) (auto simp: has_role_def Let_def)

lemma require_privilege_eq:
  "require_privilege user gate operation =
     (if authorized user gate then Inr () else Inl (InsufficientPrivilege operation))"
proof -
  have "member_of_any user (role_names gate) = Inr (\<exists>n \<in> set (role_names gate). has_role user n)"
    using role_names_no_nul by (intro member_of_any_eq) blast
  then show ?thesis
    by (cases gate) (auto simp: require_privilege_def invoking_user_is_superuser_or_member_of_def authorized_def)
qed

lemma gated_eq:
  "gated user gate operation body s =
     (if authorized user gate then unwrap_or_raise (body s)
      else (Inl (ERRCODE_INSUFFICIENT_PRIVILEGE,
                 ''insufficient privilege for pg_wal_budget operation: insufficient privilege to '' @ operation), s))"
  by (simp add: gated_def require_privilege_eq unwrap_or_raise_def raised_report_def)

end
