(* ===== verification/Pwb_Scope.thy ===== *)
theory Pwb_Scope
  imports Pwb_Privileges
begin

text \<open>
  Scope classification, \<^verbatim>\<open>src/scope.rs\<close>: the tenant a backend has been given, the names of the
  session (the role, the database, the application, as C strings the server owns or \<open>None\<close> for
  a null pointer, a parameter), the order in which they give a statement its scope, and the
  FNV-1a hash that identifies a scope in shared memory. The lemmas give the precedence, the
  trust in the tenant, that every value is trimmed UTF-8, and when a composite value
  determines its components.
\<close>

unbundle bit_operations_syntax

section \<open>The hash\<close>

definition FNV_OFFSET_BASIS :: u64 where "FNV_OFFSET_BASIS = 0xcbf29ce484222325"
definition FNV_PRIME :: u64 where "FNV_PRIME = 0x100000001b3"

fun scope_kind_hash_tag :: "scope_kind \<Rightarrow> u8" where
  "scope_kind_hash_tag Database = of_char (CHR ''d'')"
| "scope_kind_hash_tag Role = of_char (CHR ''r'')"
| "scope_kind_hash_tag Application = of_char (CHR ''a'')"
| "scope_kind_hash_tag Tenant = of_char (CHR ''t'')"
| "scope_kind_hash_tag Composite = of_char (CHR ''c'')"

fun fnv1a_update :: "u64 \<Rightarrow> u8 list \<Rightarrow> u64" where
  "fnv1a_update hash [] = hash"
| "fnv1a_update hash (byte # bytes) = fnv1a_update ((hash XOR ucast byte) * FNV_PRIME) bytes"

definition hash_scope_value :: "scope_kind \<Rightarrow> string \<Rightarrow> scope_hash" where
  "hash_scope_value kind value =
     (let hash = FNV_OFFSET_BASIS;
          hash = fnv1a_update hash [scope_kind_hash_tag kind];
          hash = fnv1a_update hash (as_bytes '':'')
      in fnv1a_update hash (as_bytes value))"

section \<open>Strings of the server\<close>

text \<open>\<open>to_string_lossy\<close>: each rejected sequence becomes U+FFFD.\<close>

definition replacement_character :: string where
  "replacement_character = [char_of (239 :: nat), char_of (191 :: nat), char_of (189 :: nat)]"

lemma utf8_error_len_pos: "utf8_error_len s = Some k \<Longrightarrow> 0 < k"
  by (auto simp: utf8_error_len_def split: list.splits if_splits)

function to_string_lossy :: "string \<Rightarrow> string" where
  "to_string_lossy s =
     (if s = [] then []
      else case utf8_char_len s of
        Some n \<Rightarrow> take n s @ to_string_lossy (drop n s)
      | None \<Rightarrow>
          (case utf8_error_len s of
             Some k \<Rightarrow> replacement_character @ to_string_lossy (drop k s)
           | None \<Rightarrow> replacement_character))"
  by pat_completeness auto

termination
proof (relation "measure length")
  fix s :: string and n
  assume "s \<noteq> []"
  then show "utf8_char_len s = Some n \<Longrightarrow> (drop n s, s) \<in> measure length"
    using utf8_char_len_pos [of s n] by auto
  show "utf8_error_len s = Some n \<Longrightarrow> (drop n s, s) \<in> measure length"
    using utf8_error_len_pos [of s n] \<open>s \<noteq> []\<close> by (cases s) auto
qed simp

declare to_string_lossy.simps [simp del]

definition borrowed_cstring_to_nonempty_string :: "string option \<Rightarrow> string option" where
  "borrowed_cstring_to_nonempty_string p =
     (case p of
        None \<Rightarrow> None
      | Some bytes \<Rightarrow> let value = str_trim (to_string_lossy bytes) in if value = [] then None else Some value)"

definition postgres_owned_cstring_to_string :: "string option \<Rightarrow> string option" where
  "postgres_owned_cstring_to_string p =
     (case p of None \<Rightarrow> None | Some bytes \<Rightarrow> borrowed_cstring_to_nonempty_string (Some bytes))"

record session_names =
  sess_role_name :: "string option"
  sess_database_name :: "string option"
  sess_application_name :: "string option"

definition current_role_name :: "session_names \<Rightarrow> string option" where
  "current_role_name s = postgres_owned_cstring_to_string (sess_role_name s)"

definition current_database_name :: "session_names \<Rightarrow> string option" where
  "current_database_name s = postgres_owned_cstring_to_string (sess_database_name s)"

definition current_application_name :: "session_names \<Rightarrow> string option" where
  "current_application_name s = borrowed_cstring_to_nonempty_string (sess_application_name s)"

section \<open>The tenant\<close>

record backend_scope_state =
  bs_tenant :: "string option"
  bs_last_scope_hash :: "scope_hash option"

definition backend_scope_default :: backend_scope_state where
  "backend_scope_default = \<lparr>bs_tenant = None, bs_last_scope_hash = None\<rparr>"

definition current_tenant :: "backend_scope_state \<Rightarrow> string option" where
  "current_tenant st = bs_tenant st"

definition normalize_tenant_value :: "string \<Rightarrow> string pwb_result" where
  "normalize_tenant_value tenant =
     (let normalized = str_trim tenant in
      if normalized = [] then Inl (InvalidPolicyValue ''tenant'' ''<empty>'' ''must not be empty'')
      else if \<exists>c \<in> set normalized. c = CHR ''|'' \<or> c = CHR ''=''
      then Inl (InvalidPolicyValue ''tenant'' normalized
                  (''must not contain composite scope delimiters '|' or '='' @ [CHR 0x27]))
      else Inr normalized)"

definition set_tenant_impl :: "string \<Rightarrow> backend_scope_state \<Rightarrow> unit pwb_result \<times> backend_scope_state" where
  "set_tenant_impl tenant st =
     sbind (normalize_tenant_value tenant, st) (\<lambda>tenant st.
       let scope_hash = hash_scope_value Tenant tenant
       in (Inr (), st\<lparr>bs_tenant := Some tenant, bs_last_scope_hash := Some scope_hash\<rparr>))"

definition clear_tenant_impl :: "backend_scope_state \<Rightarrow> backend_scope_state" where
  "clear_tenant_impl st = st\<lparr>bs_tenant := None, bs_last_scope_hash := None\<rparr>"

definition pwb_set_tenant ::
  "invoking_user \<Rightarrow> string \<Rightarrow> backend_scope_state \<Rightarrow> unit raised \<times> backend_scope_state" where
  "pwb_set_tenant user tenant =
     gated user TenantSetter ''set trusted tenant scope'' (set_tenant_impl tenant)"

definition pwb_clear_tenant :: "invoking_user \<Rightarrow> backend_scope_state \<Rightarrow> unit raised \<times> backend_scope_state" where
  "pwb_clear_tenant user =
     gated user TenantSetter ''clear trusted tenant scope'' (\<lambda>st. (Inr (), clear_tenant_impl st))"

section \<open>Classification\<close>

record scope_component =
  co_kind :: scope_kind
  co_value :: string

definition scope_key_with_debug ::
  "scope_kind \<Rightarrow> string \<Rightarrow> backend_scope_state \<Rightarrow> scope_key \<times> backend_scope_state" where
  "scope_key_with_debug kind value st =
     (let scope_hash = hash_scope_value kind value
      in (scope_key_with_debug_value kind scope_hash value, st\<lparr>bs_last_scope_hash := Some scope_hash\<rparr>))"

definition classified ::
  "scope_kind \<Rightarrow> string \<Rightarrow> backend_scope_state \<Rightarrow> scope_key pwb_result \<times> backend_scope_state" where
  "classified kind value st = (case scope_key_with_debug kind value st of (key, st) \<Rightarrow> (Inr key, st))"

definition classify_current_scope_by_precedence ::
  "session_names \<Rightarrow> backend_scope_state \<Rightarrow> scope_key pwb_result \<times> backend_scope_state" where
  "classify_current_scope_by_precedence names st =
     (case current_tenant st of
        Some tenant \<Rightarrow> classified Tenant tenant st
      | None \<Rightarrow>
     (case current_role_name names of
        Some role \<Rightarrow> classified Role role st
      | None \<Rightarrow>
     (case current_database_name names of
        Some database \<Rightarrow> classified Database database st
      | None \<Rightarrow>
     (case current_application_name names of
        Some application \<Rightarrow> classified Application application st
      | None \<Rightarrow> (Inl MissingScope, st)))))"

definition component :: "scope_kind \<Rightarrow> string option \<Rightarrow> scope_component list" where
  "component kind value = (case value of None \<Rightarrow> [] | Some v \<Rightarrow> [\<lparr>co_kind = kind, co_value = v\<rparr>])"

definition current_scope_components :: "session_names \<Rightarrow> backend_scope_state \<Rightarrow> scope_component list" where
  "current_scope_components names st =
     component Tenant (current_tenant st) @ component Role (current_role_name names) @
     component Database (current_database_name names) @
     component Application (current_application_name names)"

fun push_components :: "string \<Rightarrow> scope_component list \<Rightarrow> string" where
  "push_components value [] = value"
| "push_components value (c # cs) =
     push_components
       ((if value \<noteq> [] then value @ ''|'' else value) @ scope_kind_as_sql_str (co_kind c) @ ''='' @ co_value c) cs"

definition composite_scope_value :: "scope_component list \<Rightarrow> string option" where
  "composite_scope_value components =
     (if length components < 2 then None else Some (push_components [] components))"

definition classify_current_scope ::
  "bool \<Rightarrow> session_names \<Rightarrow> backend_scope_state \<Rightarrow> scope_key pwb_result \<times> backend_scope_state" where
  "classify_current_scope composite_scope_enabled names st =
     (if \<not> composite_scope_enabled then classify_current_scope_by_precedence names st
      else let components = current_scope_components names st in
        case composite_scope_value components of
          Some composite \<Rightarrow> classified Composite composite st
        | None \<Rightarrow>
            (case components of
               c # _ \<Rightarrow> classified (co_kind c) (co_value c) st
             | [] \<Rightarrow> (Inl MissingScope, st)))"

section \<open>Values are trimmed UTF-8\<close>

lemma utf8_char_len_append: "utf8_char_len s = Some n \<Longrightarrow> utf8_char_len (s @ t) = Some n"
  by (auto simp: utf8_char_len_def Let_def hd_append split: list.splits if_splits)

lemma utf8_valid_char:
  assumes "utf8_char_len s = Some n" and "utf8_valid t"
  shows "utf8_valid (take n s @ t)"
proof -
  note pos = utf8_char_len_pos [OF assms(1)]
  have "utf8_char_len (take n s @ t) = Some n"
    using utf8_char_len_append [OF utf8_char_len_take [OF assms(1) order_refl]] .
  moreover have "drop n (take n s @ t) = t" using pos by simp
  ultimately show ?thesis using assms(2) by (subst utf8_valid.simps) simp
qed

lemma utf8_valid_nil [simp]: "utf8_valid []"
  by (simp add: utf8_valid.simps)

lemma utf8_valid_append: "utf8_valid s \<Longrightarrow> utf8_valid t \<Longrightarrow> utf8_valid (s @ t)"
proof (induction s rule: utf8_valid.induct)
  case (1 s)
  show ?case
  proof (cases "s = []")
    case False
    with 1(2) obtain n where n: "utf8_char_len s = Some n" "utf8_valid (drop n s)"
      by (subst (asm) utf8_valid.simps) (auto split: option.splits)
    with 1 False have "utf8_valid (drop n s @ t)" by simp
    from utf8_valid_char [OF n(1) this] show ?thesis by (simp flip: append.assoc)
  qed (use 1 in simp)
qed

lemma utf8_valid_ascii: "byte_of c < 128 \<Longrightarrow> utf8_valid s \<Longrightarrow> utf8_valid (c # s)"
  by (subst utf8_valid.simps) (simp add: utf8_char_len_def utf8_width_def)

lemma replacement_valid: "utf8_valid t \<Longrightarrow> utf8_valid (replacement_character @ t)"
proof -
  have "utf8_char_len (replacement_character @ t) = Some 3"
    by (simp add: replacement_character_def utf8_char_len_def utf8_width_def cont_def utf8_second_def numeral_3_eq_3)
  then show "utf8_valid t \<Longrightarrow> ?thesis"
    by (subst utf8_valid.simps) (simp add: replacement_character_def)
qed

lemma lossy_valid: "utf8_valid (to_string_lossy s)"
proof (induction s rule: to_string_lossy.induct)
  case (1 s)
  show ?case
  proof (cases "utf8_char_len s")
    case None
    then show ?thesis using 1(1) replacement_valid replacement_valid [OF utf8_valid_nil]
      by (subst to_string_lossy.simps) (auto split: option.splits)
  next
    case (Some n)
    then show ?thesis using 1(2) [OF _ Some] utf8_valid_char [OF Some]
      by (subst to_string_lossy.simps) auto
  qed
qed

lemma lossy_of_valid: "utf8_valid s \<Longrightarrow> to_string_lossy s = s"
proof (induction s rule: to_string_lossy.induct)
  case (1 s)
  show ?case
  proof (cases "s = []")
    case False
    with 1(3) obtain n where n: "utf8_char_len s = Some n" "utf8_valid (drop n s)"
      by (subst (asm) utf8_valid.simps) (auto split: option.splits)
    with 1(2) [OF False n(1)] False show ?thesis by (subst to_string_lossy.simps) simp
  qed (simp add: to_string_lossy.simps)
qed

lemma valid_drop_char:
  assumes "utf8_valid s" and "s \<noteq> []" and "utf8_width (hd s) = n"
  shows "utf8_valid (drop n s)"
proof -
  obtain m where m: "utf8_char_len s = Some m" "utf8_valid (drop m s)"
    using assms(1,2) by (subst (asm) utf8_valid.simps) (auto split: option.splits)
  then have "m = n" using assms(2,3) by (cases s) (auto simp: utf8_char_len_def Let_def split: if_splits)
  with m(2) show ?thesis by simp
qed

lemma ws_width:
  "ws1 a \<Longrightarrow> utf8_width a = 1" "ws2 a b \<Longrightarrow> utf8_width a = 2" "ws3 a b c \<Longrightarrow> utf8_width a = 3"
  by (auto simp: ws1_def ws2_def ws3_def utf8_width_def Let_def)

lemma trim_start_valid: "utf8_valid s \<Longrightarrow> utf8_valid (trim_start s)"
proof (induction s rule: trim_start.induct)
  case (3 a b)
  then show ?case using valid_drop_char [OF 3(2)] ws_width by auto
next
  case (4 a b c s)
  have "ws1 a \<Longrightarrow> utf8_valid (b # c # s)" "ws2 a b \<Longrightarrow> utf8_valid (c # s)" "ws3 a b c \<Longrightarrow> utf8_valid s"
    using valid_drop_char [OF 4(4)] ws_width by (force simp: numeral_2_eq_2 numeral_3_eq_3)+
  then show ?case using 4 by simp
qed auto

lemma utf8_valid_cut:
  assumes "utf8_valid (x @ c # y)" and "\<not> cont c"
  shows "utf8_valid x"
proof -
  have "utf8_valid (take (length x) (x @ c # y))"
    using assms by (intro utf8_valid_take) (simp_all add: is_char_boundary_def)
  then show ?thesis by simp
qed

lemma ws_lead: "ws1 a \<Longrightarrow> \<not> cont a" "ws2 a b \<Longrightarrow> \<not> cont a" "ws3 a b c \<Longrightarrow> \<not> cont a"
  by (auto simp: ws1_def ws2_def ws3_def cont_def)

lemma trim_rev_valid: "utf8_valid (rev r) \<Longrightarrow> utf8_valid (rev (trim_rev r))"
proof (induction r rule: trim_rev.induct)
  case (3 b a)
  then show ?case using utf8_valid_cut [of "[a]" b "[]"] ws_lead by auto
next
  case (4 c b a s)
  have "ws1 c \<Longrightarrow> utf8_valid (rev (b # a # s))"
    using utf8_valid_cut [of "rev (b # a # s)" c "[]"] 4(4) ws_lead(1) by simp
  moreover have "ws2 b c \<Longrightarrow> utf8_valid (rev (a # s))"
    using utf8_valid_cut [of "rev (a # s)" b "[c]"] 4(4) ws_lead(2) by simp
  moreover have "ws3 a b c \<Longrightarrow> utf8_valid (rev s)"
    using utf8_valid_cut [of "rev s" a "[b, c]"] 4(4) ws_lead(3) by simp
  ultimately show ?case using 4 by simp
qed auto

lemma str_trim_valid: "utf8_valid s \<Longrightarrow> utf8_valid (str_trim s)"
  using trim_rev_valid [of "rev (trim_start s)"] trim_start_valid [of s] by (simp add: str_trim_def trim_end_def)

definition scope_text_ok :: "string \<Rightarrow> bool" where
  "scope_text_ok v \<longleftrightarrow> utf8_valid v \<and> v \<noteq> [] \<and> str_trim v = v"

lemma borrowed_ok: "borrowed_cstring_to_nonempty_string p = Some v \<Longrightarrow> scope_text_ok v"
  by (auto simp: borrowed_cstring_to_nonempty_string_def Let_def scope_text_ok_def
      str_trim_valid lossy_valid split: option.splits if_splits)

lemma owned_eq: "postgres_owned_cstring_to_string p = borrowed_cstring_to_nonempty_string p"
  by (simp add: postgres_owned_cstring_to_string_def borrowed_cstring_to_nonempty_string_def split: option.split)

lemma names_ok:
  "current_role_name n = Some v \<Longrightarrow> scope_text_ok v"
  "current_database_name n = Some v \<Longrightarrow> scope_text_ok v"
  "current_application_name n = Some v \<Longrightarrow> scope_text_ok v"
  by (simp_all add: current_role_name_def current_database_name_def current_application_name_def owned_eq borrowed_ok)

section \<open>The tenant is trusted\<close>

definition no_delimiter :: "string \<Rightarrow> bool" where
  "no_delimiter v \<longleftrightarrow> (\<forall>c \<in> set v. c \<noteq> CHR ''|'' \<and> c \<noteq> CHR ''='')"

definition scope_state_ok :: "backend_scope_state \<Rightarrow> bool" where
  "scope_state_ok st \<longleftrightarrow>
     (case bs_tenant st of None \<Rightarrow> True | Some t \<Rightarrow> scope_text_ok t \<and> no_delimiter t)"

lemma normalize_tenant_Inr:
  "normalize_tenant_value t = Inr v \<longleftrightarrow> v = str_trim t \<and> v \<noteq> [] \<and> no_delimiter v"
  by (auto simp: normalize_tenant_value_def Let_def no_delimiter_def)

text \<open>
  C37: the trusted tenant. Only a superuser or a member of the two roles can set or clear
  it; others change nothing. A tenant is accepted exactly when it is not empty and has no
  delimiter once trimmed; then every statement of the backend is classified as that
  tenant, whatever the names of the session are, until it is cleared; a refused tenant
  leaves the previous one in place.
\<close>

theorem trusted_tenant:
  assumes "utf8_valid tenant" and "scope_state_ok st"
  shows "(\<not> authorized user TenantSetter \<longrightarrow>
      snd (pwb_set_tenant user tenant st) = st \<and> snd (pwb_clear_tenant user st) = st)
   \<and> (authorized user TenantSetter \<longrightarrow>
      (case pwb_set_tenant user tenant st of
         (Inr u, st') \<Rightarrow>
            str_trim tenant \<noteq> [] \<and> no_delimiter (str_trim tenant) \<and> scope_state_ok st'
          \<and> (\<forall>names. fst (classify_current_scope False names st') =
               Inr \<lparr>sk_kind = Tenant, sk_value_hash = hash_scope_value Tenant (str_trim tenant),
                    sk_debug_value = Some (str_trim tenant)\<rparr>)
       | (Inl report, st') \<Rightarrow>
            (str_trim tenant = [] \<or> \<not> no_delimiter (str_trim tenant))
          \<and> fst report = ERRCODE_INVALID_PARAMETER_VALUE \<and> st' = st)
    \<and> bs_tenant (snd (pwb_clear_tenant user st)) = None)"
proof -
  have "scope_text_ok (str_trim tenant)" if "str_trim tenant \<noteq> []"
    using that assms(1) by (simp add: scope_text_ok_def str_trim_valid)
  moreover have "(\<exists>c \<in> set v. c = CHR ''|'' \<or> c = CHR ''='') \<longleftrightarrow> \<not> no_delimiter v" for v
    by (auto simp: no_delimiter_def)
  ultimately show ?thesis
    by (cases "str_trim tenant = []"; cases "no_delimiter (str_trim tenant)")
       (simp_all add: pwb_set_tenant_def pwb_clear_tenant_def gated_eq set_tenant_impl_def clear_tenant_impl_def
         unwrap_or_raise_def normalize_tenant_value_def raised_report_def scope_state_ok_def classify_current_scope_def
         classify_current_scope_by_precedence_def current_tenant_def classified_def scope_key_with_debug_def
         scope_key_with_debug_value_def Let_def)
qed

theorem trusted_tenant_witness:
  "fst (classify_current_scope False \<lparr>sess_role_name = Some ''app'', sess_database_name = None, sess_application_name = None\<rparr>
      (snd (pwb_set_tenant \<lparr>iu_superuser = True, iu_role_oid = (\<lambda>_. 0), iu_has_privs_of_role = (\<lambda>_. False)\<rparr>
        '' a '' backend_scope_default)))
    = Inr \<lparr>sk_kind = Tenant, sk_value_hash = hash_scope_value Tenant ''a'', sk_debug_value = Some ''a''\<rparr>"
proof -
  let ?u = "\<lparr>iu_superuser = True, iu_role_oid = (\<lambda>_. 0), iu_has_privs_of_role = (\<lambda>_. False)\<rparr>"
  have valid: "utf8_valid '' a ''" by (simp add: utf8_valid_ascii)
  have st: "scope_state_ok backend_scope_default" by (simp add: scope_state_ok_def backend_scope_default_def)
  have auth: "authorized ?u TenantSetter" by (simp add: authorized_def)
  have trim: "str_trim '' a '' = ''a''" by code_simp
  have "pwb_set_tenant ?u '' a '' backend_scope_default =
      (Inr (), \<lparr>bs_tenant = Some ''a'', bs_last_scope_hash = Some (hash_scope_value Tenant ''a'')\<rparr>)"
    using auth by (simp add: pwb_set_tenant_def gated_eq set_tenant_impl_def normalize_tenant_value_def trim
        unwrap_or_raise_def backend_scope_default_def)
  then show ?thesis using trusted_tenant [OF valid st, of ?u] auth by (simp add: trim)
qed

section \<open>What a statement is classified as\<close>

definition component_text :: "scope_component \<Rightarrow> string" where
  "component_text c = scope_kind_as_sql_str (co_kind c) @ ''='' @ co_value c"

fun composite_text :: "scope_component list \<Rightarrow> string" where
  "composite_text [] = []"
| "composite_text [c] = component_text c"
| "composite_text (c # cs) = component_text c @ ''|'' @ composite_text cs"

lemma component_text_nonempty: "component_text c \<noteq> []" "[] \<noteq> component_text c"
  by (simp_all add: component_text_def)

lemma composite_text_Cons: "cs \<noteq> [] \<Longrightarrow> composite_text (c # cs) = component_text c @ ''|'' @ composite_text cs"
  by (cases cs) simp_all

lemma push_components_nonempty:
  "value \<noteq> [] \<Longrightarrow> cs \<noteq> [] \<Longrightarrow> push_components value cs = value @ ''|'' @ composite_text cs"
proof (induction cs arbitrary: "value")
  case (Cons c cs)
  have push: "push_components value (c # cs) = push_components (value @ ''|'' @ component_text c) cs"
    using Cons.prems by (simp add: component_text_def)
  show ?case
  proof (cases "cs = []")
    case True
    then show ?thesis using push by simp
  next
    case False
    then show ?thesis
      unfolding push using Cons.IH [of "value @ ''|'' @ component_text c"]
      by (simp add: composite_text_Cons)
  qed
qed simp

lemma push_components_eq: "push_components [] cs = composite_text cs"
proof (cases cs)
  case (Cons c ds)
  have "push_components [] (c # ds) = push_components (component_text c) ds"
    by (simp add: component_text_def)
  then show ?thesis
    using Cons push_components_nonempty [OF component_text_nonempty(1), of ds c]
    by (cases "ds = []") (simp_all add: composite_text_Cons)
qed simp

lemma composite_scope_value_eq:
  "composite_scope_value cs = (if length cs < 2 then None else Some (composite_text cs))"
  by (simp add: composite_scope_value_def push_components_eq)

lemma kind_text_ascii: "c \<in> set (scope_kind_as_sql_str k) \<Longrightarrow> byte_of c < 128 \<and> c \<noteq> CHR ''='' \<and> c \<noteq> CHR ''|''"
  by (cases k) auto

lemma utf8_valid_ascii_append:
  "\<forall>c \<in> set p. byte_of c < 128 \<Longrightarrow> utf8_valid s \<Longrightarrow> utf8_valid (p @ s)"
  by (induction p) (simp_all add: utf8_valid_ascii)

lemma component_text_valid: "utf8_valid (co_value c) \<Longrightarrow> utf8_valid (component_text c)"
  unfolding component_text_def
  using kind_text_ascii by (intro utf8_valid_ascii_append) (auto simp: utf8_valid_ascii)

lemma composite_text_valid: "\<forall>c \<in> set cs. utf8_valid (co_value c) \<Longrightarrow> utf8_valid (composite_text cs)"
  by (induction cs rule: composite_text.induct)
     (auto simp: component_text_valid intro!: utf8_valid_append utf8_valid_ascii)

lemma components_ok:
  assumes "scope_state_ok st" and "c \<in> set (current_scope_components names st)"
  shows "scope_text_ok (co_value c)"
  using assms names_ok
  by (auto simp: current_scope_components_def component_def current_tenant_def scope_state_ok_def split: option.splits)

lemma precedence_components:
  "classify_current_scope_by_precedence names st =
     (case current_scope_components names st of
        [] \<Rightarrow> (Inl MissingScope, st)
      | c # _ \<Rightarrow> classified (co_kind c) (co_value c) st)"
  by (simp add: classify_current_scope_by_precedence_def current_scope_components_def component_def
      split: option.split)

text \<open>
  The precedence of scopes as an order on their kinds: the components come in this order, each
  kind at most once, and without composite scopes the least known kind decides.
\<close>

fun precedence :: "scope_kind \<Rightarrow> nat" where
  "precedence Tenant = 0"
| "precedence Role = 1"
| "precedence Database = 2"
| "precedence Application = 3"
| "precedence Composite = 4"

lemma precedence_inject: "precedence a = precedence b \<Longrightarrow> a = b"
  by (cases a; cases b) simp_all

instantiation scope_kind :: linorder
begin

definition less_eq_scope_kind :: "scope_kind \<Rightarrow> scope_kind \<Rightarrow> bool" where
  "less_eq_scope_kind a b \<longleftrightarrow> precedence a \<le> precedence b"

definition less_scope_kind :: "scope_kind \<Rightarrow> scope_kind \<Rightarrow> bool" where
  "less_scope_kind a b \<longleftrightarrow> precedence a < precedence b"

instance
  by standard (auto simp: less_eq_scope_kind_def less_scope_kind_def precedence_inject)

end

lemma components_ordered: "sorted_wrt (<) (map co_kind (current_scope_components names st))"
  by (auto simp: current_scope_components_def component_def less_scope_kind_def split: option.split)

lemma least_kind_decides:
  assumes "classify_current_scope_by_precedence names st = (Inr scope, st')"
  shows "sk_kind scope = Min (co_kind ` set (current_scope_components names st))"
proof -
  obtain c cs where cs: "current_scope_components names st = c # cs"
    using assms by (auto simp: precedence_components split: list.splits)
  have "\<forall>d \<in> set cs. co_kind c < co_kind d"
    using components_ordered [of names st] by (auto simp: cs)
  then have "Min (insert (co_kind c) (co_kind ` set cs)) = co_kind c"
    by (intro Min_eqI) (auto intro: less_imp_le)
  moreover have "sk_kind scope = co_kind c"
    using assms by (auto simp: precedence_components cs classified_def scope_key_with_debug_def
        scope_key_with_debug_value_def Let_def)
  ultimately show ?thesis by (simp add: cs)
qed

definition classification_of :: "bool \<Rightarrow> scope_component list \<Rightarrow> (scope_kind \<times> string) option" where
  "classification_of composite cs =
     (case cs of
        [] \<Rightarrow> None
      | c # ds \<Rightarrow> if composite \<and> ds \<noteq> [] then Some (Composite, composite_text cs)
                 else Some (co_kind c, co_value c))"

lemma classify_scope_cases:
  assumes "scope_state_ok st"
  shows "case classification_of composite (current_scope_components names st) of
     None \<Rightarrow> classify_current_scope composite names st = (Inl MissingScope, st)
   | Some (kind, text) \<Rightarrow>
       classify_current_scope composite names st =
         (Inr \<lparr>sk_kind = kind, sk_value_hash = hash_scope_value kind text, sk_debug_value = Some text\<rparr>,
          st\<lparr>bs_last_scope_hash := Some (hash_scope_value kind text)\<rparr>)
       \<and> utf8_valid text \<and> scope_state_ok (st\<lparr>bs_last_scope_hash := Some (hash_scope_value kind text)\<rparr>)"
proof -
  let ?cs = "current_scope_components names st"
  have valid: "utf8_valid (composite_text ?cs)" "\<And>c. c \<in> set ?cs \<Longrightarrow> utf8_valid (co_value c)"
    using components_ok [OF assms] by (auto simp: scope_text_ok_def intro!: composite_text_valid)
  have state: "scope_state_ok (st\<lparr>bs_last_scope_hash := h\<rparr>)" for h
    using assms by (simp add: scope_state_ok_def)
  consider "?cs = []" | c where "?cs = [c]" | c d ds where "?cs = c # d # ds"
    by (cases ?cs rule: composite_text.cases) blast+
  then show ?thesis
    using valid state
    by cases (simp_all add: classification_of_def classify_current_scope_def precedence_components
        composite_scope_value_eq classified_def scope_key_with_debug_def
        scope_key_with_debug_value_def Let_def)
qed

text \<open>
  C38: classification, in both configurations. The components that are known, in the order
  tenant, role, database, application, decide: none is an error that changes nothing;
  without composite scopes, or when only one is known, the first is the scope; otherwise the
  scope is composite with the texts of all of them joined. The hash is that of the kind and
  the text, it is remembered, the tenant is not touched, and the text is valid UTF-8.
\<close>

theorem scope_classification:
  assumes "scope_state_ok st"
  shows "case classification_of composite (current_scope_components names st) of
     None \<Rightarrow> classify_current_scope composite names st = (Inl MissingScope, st)
   | Some (kind, text) \<Rightarrow>
       classify_current_scope composite names st =
         (Inr \<lparr>sk_kind = kind, sk_value_hash = hash_scope_value kind text, sk_debug_value = Some text\<rparr>,
          st\<lparr>bs_last_scope_hash := Some (hash_scope_value kind text)\<rparr>)
       \<and> utf8_valid text \<and> scope_state_ok (st\<lparr>bs_last_scope_hash := Some (hash_scope_value kind text)\<rparr>)"
  using assms by (rule classify_scope_cases)

theorem scope_classification_witness:
  "classify_current_scope True
     \<lparr>sess_role_name = Some ''app'', sess_database_name = Some ''db'', sess_application_name = None\<rparr> backend_scope_default
   = (Inr \<lparr>sk_kind = Composite, sk_value_hash = hash_scope_value Composite ''role=app|database=db'',
          sk_debug_value = Some ''role=app|database=db''\<rparr>,
      \<lparr>bs_tenant = None, bs_last_scope_hash = Some (hash_scope_value Composite ''role=app|database=db'')\<rparr>)"
proof -
  let ?n = "\<lparr>sess_role_name = Some ''app'', sess_database_name = Some ''db'', sess_application_name = None\<rparr>"
  have st: "scope_state_ok backend_scope_default" by (simp add: scope_state_ok_def backend_scope_default_def)
  have "to_string_lossy ''app'' = ''app''" "to_string_lossy ''db'' = ''db''"
    by (simp_all add: lossy_of_valid utf8_valid_ascii)
  moreover have "str_trim ''app'' = ''app''" "str_trim ''db'' = ''db''" by code_simp+
  ultimately have "current_scope_components ?n backend_scope_default
      = [\<lparr>co_kind = Role, co_value = ''app''\<rparr>, \<lparr>co_kind = Database, co_value = ''db''\<rparr>]"
    by (simp add: current_scope_components_def component_def current_tenant_def backend_scope_default_def
        current_role_name_def current_database_name_def current_application_name_def owned_eq
        borrowed_cstring_to_nonempty_string_def)
  then show ?thesis
    using scope_classification [OF st, of True ?n]
    by (simp add: classification_of_def component_text_def backend_scope_default_def)
qed

section \<open>When a composite text determines its components\<close>

lemma split_first:
  assumes "a @ x # b = c @ x # d" and "x \<notin> set a" and "x \<notin> set c"
  shows "a = c \<and> b = d"
  using assms
proof (induction a arbitrary: c)
  case Nil
  then show ?case by (cases c) auto
next
  case (Cons y ys)
  then show ?case by (cases c) auto
qed

lemma kind_text_inject: "scope_kind_as_sql_str k = scope_kind_as_sql_str k' \<Longrightarrow> k = k'"
  by (metis parse_as_sql(2) sum.inject(2))

lemma component_text_inject:
  assumes "component_text c = component_text d"
  shows "c = d"
proof -
  have "scope_kind_as_sql_str (co_kind c) @ CHR ''='' # co_value c
      = scope_kind_as_sql_str (co_kind d) @ CHR ''='' # co_value d"
    using assms by (simp add: component_text_def)
  moreover have "CHR ''='' \<notin> set (scope_kind_as_sql_str k)" for k
    using kind_text_ascii by blast
  ultimately have "scope_kind_as_sql_str (co_kind c) = scope_kind_as_sql_str (co_kind d) \<and> co_value c = co_value d"
    by (intro split_first)
  then show ?thesis using kind_text_inject by (cases c; cases d) auto
qed

definition bar_free :: "scope_component \<Rightarrow> bool" where
  "bar_free c \<longleftrightarrow> CHR ''|'' \<notin> set (co_value c)"

lemma component_text_bar: "bar_free c \<Longrightarrow> CHR ''|'' \<notin> set (component_text c)"
  using kind_text_ascii by (auto simp: bar_free_def component_text_def)

lemma composite_text_inject:
  "\<forall>c \<in> set cs. bar_free c \<Longrightarrow> \<forall>d \<in> set ds. bar_free d \<Longrightarrow> composite_text cs = composite_text ds \<Longrightarrow> cs = ds"
proof (induction cs arbitrary: ds rule: composite_text.induct)
  case 1
  then show ?case by (cases ds rule: composite_text.cases) (simp_all add: component_text_nonempty)
next
  case (2 c)
  then show ?case
    using component_text_bar [of c] component_text_nonempty component_text_inject
    by (cases ds rule: composite_text.cases) auto
next
  case (3 c c' cs)
  show ?case
  proof (cases ds rule: composite_text.cases)
    case 1
    then show ?thesis using 3 by simp
  next
    case (2 d)
    then have "component_text d = component_text c @ CHR ''|'' # composite_text (c' # cs)"
      using "3.prems"(3) by simp
    then have "CHR ''|'' \<in> set (component_text d)" by (metis in_set_conv_decomp)
    then show ?thesis using component_text_bar [of d] "3.prems"(2) 2 by simp
  next
    case (3 d d' ds')
    note ds = this
    have "component_text c @ CHR ''|'' # composite_text (c' # cs)
        = component_text d @ CHR ''|'' # composite_text (d' # ds')"
      using "3.prems"(3) by (simp add: ds)
    moreover have "CHR ''|'' \<notin> set (component_text c)" "CHR ''|'' \<notin> set (component_text d)"
      using component_text_bar "3.prems"(1,2) by (simp_all add: ds)
    ultimately have "component_text c = component_text d" "composite_text (c' # cs) = composite_text (d' # ds')"
      using split_first [of "component_text c" "CHR ''|''" "composite_text (c' # cs)" "component_text d"
        "composite_text (d' # ds')"] by simp_all
    moreover from this(2) have "c' # cs = d' # ds'"
      using "3.IH" [of "d' # ds'"] "3.prems"(1,2) by (simp add: ds)
    ultimately show ?thesis using ds component_text_inject [of c d] by blast
  qed
qed

text \<open>
  C39: the composite scope value is canonical for names without the bar: two lists of
  components with the same text are the same list. The tenant is always such a name.
\<close>

theorem composite_scope_injective:
  assumes "composite_scope_value cs = Some text" and "composite_scope_value ds = Some text"
    and "\<forall>c \<in> set cs \<union> set ds. CHR ''|'' \<notin> set (co_value c)"
  shows "cs = ds"
proof (rule composite_text_inject)
  show "composite_text cs = composite_text ds"
    using assms(1,2) by (auto simp: composite_scope_value_eq split: if_splits)
qed (use assms(3) in \<open>auto simp: bar_free_def\<close>)

theorem composite_scope_injective_witness:
  "composite_scope_value [\<lparr>co_kind = Role, co_value = ''a''\<rparr>, \<lparr>co_kind = Database, co_value = ''b''\<rparr>]
    \<noteq> composite_scope_value [\<lparr>co_kind = Role, co_value = ''a''\<rparr>, \<lparr>co_kind = Application, co_value = ''b''\<rparr>]"
  using composite_scope_injective
    [of "[\<lparr>co_kind = Role, co_value = ''a''\<rparr>, \<lparr>co_kind = Database, co_value = ''b''\<rparr>]" _
        "[\<lparr>co_kind = Role, co_value = ''a''\<rparr>, \<lparr>co_kind = Application, co_value = ''b''\<rparr>]"]
  by (fastforce simp: composite_scope_value_def)

text \<open>
  Role, database and application names are not checked for the bar. A role or database name
  that contains one can give two different sessions the same composite scope, hence the same
  hash and the same budget.
\<close>

lemma composite_scope_collision:
  "composite_scope_value [\<lparr>co_kind = Role, co_value = ''a''\<rparr>, \<lparr>co_kind = Database, co_value = ''b|application=c''\<rparr>]
   = composite_scope_value [\<lparr>co_kind = Role, co_value = ''a''\<rparr>, \<lparr>co_kind = Database, co_value = ''b''\<rparr>,
       \<lparr>co_kind = Application, co_value = ''c''\<rparr>]"
  by (simp add: composite_scope_value_def)

end
