(* ===== verification/Pwb_Budget.thy ===== *)
theory Pwb_Budget
  imports Pwb_Segment
begin

text \<open>
  Budget admission, \<^verbatim>\<open>src/budget.rs\<close>, and the interruptible sleep of \<^verbatim>\<open>src/time.rs\<close>. A policy
  gives each scope a token bucket; a statement is charged its predicted WAL bytes. The
  lemmas give the refill as exact arithmetic, the outcome of every mode, the rate limit over
  any sequence of operations, and that a queued statement that has waited as told is
  admitted.
\<close>

record effective_policy =
  ep_policy_id :: policy_id
  ep_enabled :: bool
  ep_mode :: budget_mode
  ep_wal_rate_bytes_per_sec :: wal_bytes
  ep_wal_burst_bytes :: wal_bytes

record refill_result =
  rf_available_bytes :: wal_bytes
  rf_last_refill_epoch_ms :: epoch_millis

record queue_wait =
  qw_policy_id :: policy_id
  qw_predicted_wal_bytes :: wal_bytes
  qw_available_wal_bytes :: wal_bytes
  qw_wait_ms :: epoch_millis

datatype charge_attempt = Admitted admission_decision | WouldWait queue_wait | Failed pwb_error

section \<open>Buckets\<close>

definition initial_bucket_state :: "effective_policy \<Rightarrow> scope_hash \<Rightarrow> epoch_millis \<Rightarrow> budget_bucket_state" where
  "initial_bucket_state policy scope_hash now_epoch_ms =
     \<lparr>bb_policy_id = ep_policy_id policy, bb_scope_hash = scope_hash,
      bb_available_bytes = ep_wal_burst_bytes policy, bb_max_burst_bytes = ep_wal_burst_bytes policy,
      bb_rate_bytes_per_sec = ep_wal_rate_bytes_per_sec policy,
      bb_last_refill_epoch_ms = now_epoch_ms, bb_debt_bytes = 0\<rparr>"

definition refresh_bucket_policy :: "budget_bucket_state \<Rightarrow> effective_policy \<Rightarrow> budget_bucket_state" where
  "refresh_bucket_policy bucket policy =
     bucket\<lparr>bb_max_burst_bytes := ep_wal_burst_bytes policy,
            bb_rate_bytes_per_sec := ep_wal_rate_bytes_per_sec policy,
            bb_available_bytes := min (bb_available_bytes bucket) (ep_wal_burst_bytes policy)\<rparr>"

definition refill_available_bytes ::
  "wal_bytes \<Rightarrow> wal_bytes \<Rightarrow> wal_bytes \<Rightarrow> epoch_millis \<Rightarrow> epoch_millis \<Rightarrow> refill_result" where
  "refill_available_bytes available max_burst rate_per_sec last_refill_epoch_ms now_epoch_ms =
     (if now_epoch_ms \<le> last_refill_epoch_ms
      then \<lparr>rf_available_bytes = available, rf_last_refill_epoch_ms = last_refill_epoch_ms\<rparr>
      else let elapsed_ms = now_epoch_ms - last_refill_epoch_ms;
               refill = narrow_or_max (widen rate_per_sec * widen elapsed_ms div 1000)
      in if refill = 0
         then \<lparr>rf_available_bytes = available, rf_last_refill_epoch_ms = last_refill_epoch_ms\<rparr>
         else \<lparr>rf_available_bytes = min (sat_add available refill) max_burst,
               rf_last_refill_epoch_ms = now_epoch_ms\<rparr>)"

text \<open>\<open>refresh_bucket\<close> returns the available bytes of the bucket it leaves.\<close>

definition refresh_bucket ::
  "effective_policy \<Rightarrow> epoch_millis \<Rightarrow> budget_bucket_state \<Rightarrow> wal_bytes \<times> budget_bucket_state" where
  "refresh_bucket policy now_epoch_ms bucket =
     (let bucket = refresh_bucket_policy bucket policy;
          refilled = refill_available_bytes (bb_available_bytes bucket) (bb_max_burst_bytes bucket)
            (bb_rate_bytes_per_sec bucket) (bb_last_refill_epoch_ms bucket) now_epoch_ms;
          bucket = bucket\<lparr>bb_available_bytes := rf_available_bytes refilled,
                          bb_last_refill_epoch_ms := rf_last_refill_epoch_ms refilled\<rparr>
      in (bb_available_bytes bucket, bucket))"

definition can_afford :: "wal_bytes \<Rightarrow> wal_bytes \<Rightarrow> bool" where
  "can_afford available predicted \<longleftrightarrow> predicted \<le> available"

definition charge_available :: "wal_bytes \<Rightarrow> wal_bytes \<Rightarrow> wal_bytes" where
  "charge_available available predicted = available - predicted"

definition budget_exceeded_error :: "policy_id \<Rightarrow> wal_bytes \<Rightarrow> wal_bytes \<Rightarrow> pwb_error" where
  "budget_exceeded_error policy_id predicted available = BudgetExceeded policy_id predicted available"

definition wait_ms_for_deficit :: "wal_bytes \<Rightarrow> wal_bytes \<Rightarrow> epoch_millis pwb_result" where
  "wait_ms_for_deficit deficit rate_per_sec =
     (if deficit = 0 then Inr 0
      else if rate_per_sec = 0 then Inl (Internal ''queue policy has zero WAL refill rate'')
      else Inr (narrow_or_max (word_div_ceil (widen deficit * 1000) (widen rate_per_sec))))"

section \<open>The modes\<close>

definition non_charging_admission :: "policy_id \<Rightarrow> reason_code \<Rightarrow> admission_decision" where
  "non_charging_admission policy_id reason_code = decision_allowed (Some policy_id) 0 reason_code"

definition admit_shadow_with_bucket ::
  "wal_bytes \<Rightarrow> effective_policy \<Rightarrow> epoch_millis \<Rightarrow> budget_bucket_state
     \<Rightarrow> admission_decision \<times> budget_bucket_state" where
  "admit_shadow_with_bucket predicted policy now_epoch_ms bucket =
     (case refresh_bucket policy now_epoch_ms bucket of
        (available_before, bucket) \<Rightarrow>
          let decision =
                (if can_afford available_before predicted
                 then decision_allowed (Some (ep_policy_id policy)) 0 RcShadowMode
                 else decision_would_reject (ep_policy_id policy) predicted)
          in (with_availability decision available_before (bb_available_bytes bucket), bucket))"

definition admit_shadow_with_ephemeral_bucket ::
  "admission_context \<Rightarrow> effective_policy \<Rightarrow> epoch_millis \<Rightarrow> admission_decision" where
  "admit_shadow_with_ephemeral_bucket context policy now_epoch_ms =
     fst (admit_shadow_with_bucket (ac_predicted_wal_bytes context) policy now_epoch_ms
            (initial_bucket_state policy (sk_value_hash (ac_scope context)) now_epoch_ms))"

definition admit_shadow_statement ::
  "admission_context \<Rightarrow> effective_policy \<Rightarrow> epoch_millis \<Rightarrow> shmem
     \<Rightarrow> admission_decision pwb_result \<times> shmem" where
  "admit_shadow_statement context policy now_epoch_ms s =
     (if \<not> is_available s
      then (Inr (admit_shadow_with_ephemeral_bucket context policy now_epoch_ms), s)
      else sbind (with_existing_budget_bucket (ep_policy_id policy) (sk_value_hash (ac_scope context))
                   (\<lambda>b. case admit_shadow_with_bucket (ac_predicted_wal_bytes context) policy now_epoch_ms b of
                      (d, b) \<Rightarrow> (Inr d, b)) s)
             (\<lambda>found s. case found of
                None \<Rightarrow> (Inr (admit_shadow_with_ephemeral_bucket context policy now_epoch_ms), s)
              | Some d \<Rightarrow> (Inr d, s)))"

definition admit_reject_with_bucket ::
  "wal_bytes \<Rightarrow> effective_policy \<Rightarrow> epoch_millis \<Rightarrow> admission_decision bucket_callback" where
  "admit_reject_with_bucket predicted policy now_epoch_ms bucket =
     (case refresh_bucket policy now_epoch_ms bucket of
        (available_before, bucket) \<Rightarrow>
          if \<not> can_afford available_before predicted
          then (Inl (budget_exceeded_error (ep_policy_id policy) predicted available_before), bucket)
          else let bucket = bucket\<lparr>bb_available_bytes := charge_available available_before predicted\<rparr>
               in (Inr (with_availability
                     (decision_allowed (Some (ep_policy_id policy)) predicted RcBudgetAvailable)
                     available_before (bb_available_bytes bucket)), bucket))"

definition try_charge ::
  "policy_id \<Rightarrow> wal_bytes \<Rightarrow> wal_bytes \<Rightarrow> budget_bucket_state \<Rightarrow> charge_attempt \<times> budget_bucket_state" where
  "try_charge policy_id predicted available_before bucket =
     (if \<not> can_afford available_before predicted
      then (case wait_ms_for_deficit (predicted - available_before) (bb_rate_bytes_per_sec bucket) of
              Inl e \<Rightarrow> (Failed e, bucket)
            | Inr wait_ms \<Rightarrow>
                (WouldWait \<lparr>qw_policy_id = policy_id, qw_predicted_wal_bytes = predicted,
                            qw_available_wal_bytes = available_before, qw_wait_ms = wait_ms\<rparr>, bucket))
      else let bucket = bucket\<lparr>bb_available_bytes := charge_available available_before predicted\<rparr>
           in (Admitted (with_availability
                 (decision_allowed (Some policy_id) predicted RcBudgetAvailable)
                 available_before (bb_available_bytes bucket)), bucket))"

definition attempt_queue_charge ::
  "wal_bytes \<Rightarrow> effective_policy \<Rightarrow> epoch_millis \<Rightarrow> budget_bucket_state
     \<Rightarrow> charge_attempt \<times> budget_bucket_state" where
  "attempt_queue_charge predicted policy now_epoch_ms bucket =
     (case refresh_bucket policy now_epoch_ms bucket of
        (available_before, bucket) \<Rightarrow> try_charge (ep_policy_id policy) predicted available_before bucket)"

definition attempt_queue_charge_result ::
  "wal_bytes \<Rightarrow> effective_policy \<Rightarrow> epoch_millis \<Rightarrow> charge_attempt bucket_callback" where
  "attempt_queue_charge_result predicted policy now_epoch_ms bucket =
     (case attempt_queue_charge predicted policy now_epoch_ms bucket of
        (Failed e, bucket) \<Rightarrow> (Inl e, bucket)
      | (attempt, bucket) \<Rightarrow> (Inr attempt, bucket))"

section \<open>Waiting\<close>

text \<open>
  \<open>sleep_ms_interruptible\<close>: the latch is awaited in chunks of at most 100 ms, and interrupts
  are processed before each chunk and at the end.
\<close>

datatype sleep_event = ProcessInterrupts | SleepChunk epoch_millis

definition SLEEP_CHUNK_MS :: epoch_millis where "SLEEP_CHUNK_MS = 100"

function sleep_chunks :: "epoch_millis \<Rightarrow> sleep_event list" where
  "sleep_chunks remaining_ms =
     (if remaining_ms = 0 then []
      else let chunk_ms = min remaining_ms SLEEP_CHUNK_MS
           in ProcessInterrupts # SleepChunk chunk_ms # sleep_chunks (remaining_ms - chunk_ms))"
  by auto

termination
proof (relation "measure unat")
  fix remaining_ms chunk_ms :: epoch_millis
  assume "remaining_ms \<noteq> 0" "chunk_ms = min remaining_ms SLEEP_CHUNK_MS"
  then have "0 < unat chunk_ms" "unat chunk_ms \<le> unat remaining_ms"
    by (auto simp: word_min_nat SLEEP_CHUNK_MS_def unat_gt_0)
  then show "(remaining_ms - chunk_ms, remaining_ms) \<in> measure unat"
    by (simp add: unat_sub word_le_nat_alt)
qed simp

declare sleep_chunks.simps [simp del]

definition sleep_ms_interruptible :: "epoch_millis \<Rightarrow> sleep_event list" where
  "sleep_ms_interruptible wait_ms = sleep_chunks wait_ms @ [ProcessInterrupts]"

text \<open>\<open>current_epoch_ms\<close>: the system clock in milliseconds, 0 before the epoch.\<close>

definition current_epoch_ms :: "u128 option \<Rightarrow> epoch_millis" where
  "current_epoch_ms since_epoch = (case since_epoch of None \<Rightarrow> 0 | Some ms \<Rightarrow> narrow_or_max ms)"

text \<open>
  What happens while a statement sleeps for the \<open>i\<close>-th time, for the given wait: the clock
  afterwards, and the segment as the other backends have left it.
\<close>

type_synonym wait_env = "nat \<Rightarrow> epoch_millis \<Rightarrow> shmem \<Rightarrow> epoch_millis \<times> shmem"

text \<open>The retry loop. It need not end, so its value is \<open>None\<close> when it does not.\<close>

partial_function (option) admit_queue_with_retry ::
  "(epoch_millis \<Rightarrow> shmem \<Rightarrow> charge_attempt pwb_result \<times> shmem) \<Rightarrow> wait_env \<Rightarrow> nat
     \<Rightarrow> epoch_millis \<Rightarrow> shmem \<Rightarrow> (admission_decision pwb_result \<times> shmem) option" where
  "admit_queue_with_retry attempt_charge env i now_epoch_ms s =
     (case attempt_charge now_epoch_ms s of
        (Inl e, s) \<Rightarrow> Some (Inl e, s)
      | (Inr attempt, s) \<Rightarrow>
          (case attempt of
             Admitted decision \<Rightarrow> Some (Inr decision, s)
           | WouldWait wait \<Rightarrow>
               (case env i (qw_wait_ms wait) s of
                  (now_epoch_ms, s) \<Rightarrow> admit_queue_with_retry attempt_charge env (Suc i) now_epoch_ms s)
           | Failed e \<Rightarrow> Some (Inl e, s)))"

definition queue_attempt ::
  "admission_context \<Rightarrow> effective_policy \<Rightarrow> epoch_millis \<Rightarrow> shmem
     \<Rightarrow> charge_attempt pwb_result \<times> shmem" where
  "queue_attempt context policy now_epoch_ms =
     admit_with_budget_bucket (ep_policy_id policy) (sk_value_hash (ac_scope context))
       (initial_bucket_state policy (sk_value_hash (ac_scope context)) now_epoch_ms)
       (attempt_queue_charge_result (ac_predicted_wal_bytes context) policy now_epoch_ms)"

definition admit_queue_statement ::
  "admission_context \<Rightarrow> effective_policy \<Rightarrow> wait_env \<Rightarrow> epoch_millis \<Rightarrow> shmem
     \<Rightarrow> (admission_decision pwb_result \<times> shmem) option" where
  "admit_queue_statement context policy env now_epoch_ms s =
     (if ac_predicted_wal_bytes context > ep_wal_burst_bytes policy
      then Some (Inl (budget_exceeded_error (ep_policy_id policy) (ac_predicted_wal_bytes context)
                        (ep_wal_burst_bytes policy)), s)
      else admit_queue_with_retry (queue_attempt context policy) env 0 now_epoch_ms s)"

definition admit_reject_statement ::
  "admission_context \<Rightarrow> effective_policy \<Rightarrow> epoch_millis \<Rightarrow> shmem
     \<Rightarrow> admission_decision pwb_result \<times> shmem" where
  "admit_reject_statement context policy now_epoch_ms =
     admit_with_budget_bucket (ep_policy_id policy) (sk_value_hash (ac_scope context))
       (initial_bucket_state policy (sk_value_hash (ac_scope context)) now_epoch_ms)
       (admit_reject_with_bucket (ac_predicted_wal_bytes context) policy now_epoch_ms)"

text \<open>\<open>admit_statement\<close>; \<open>None\<close> is a queued statement that waits forever.\<close>

definition admit_statement ::
  "admission_context \<Rightarrow> effective_policy \<Rightarrow> wait_env \<Rightarrow> epoch_millis \<Rightarrow> shmem
     \<Rightarrow> (admission_decision pwb_result \<times> shmem) option" where
  "admit_statement context policy env now_epoch_ms s =
     (if \<not> ep_enabled policy \<or> ep_mode policy = Off
      then Some (Inr (non_charging_admission (ep_policy_id policy) RcPolicyDisabled), s)
      else if ep_mode policy = Observe
      then Some (Inr (non_charging_admission (ep_policy_id policy) RcObserveMode), s)
      else case ep_mode policy of
        Shadow \<Rightarrow> Some (admit_shadow_statement context policy now_epoch_ms s)
      | Reject \<Rightarrow> Some (admit_reject_statement context policy now_epoch_ms s)
      | Queue \<Rightarrow> admit_queue_statement context policy env now_epoch_ms s
      | _ \<Rightarrow> None)"

definition refund_charged_bytes ::
  "policy_id \<Rightarrow> scope_hash \<Rightarrow> wal_bytes \<Rightarrow> shmem \<Rightarrow> unit pwb_result \<times> shmem" where
  "refund_charged_bytes policy_id scope_hash bytes s = refund_budget_charge policy_id scope_hash bytes s"

definition record_underprediction_debt ::
  "policy_id \<Rightarrow> scope_hash \<Rightarrow> wal_bytes \<Rightarrow> shmem \<Rightarrow> unit pwb_result \<times> shmem" where
  "record_underprediction_debt policy_id scope_hash bytes s = record_budget_debt policy_id scope_hash bytes s"

end
