(* ===== verification/Pwb_Policy.thy ===== *)
theory Pwb_Policy
  imports Pwb_Budget Pwb_Catalog Pwb_Privileges
begin

text \<open>
  Policies: \<^verbatim>\<open>src/policy.rs\<close> (validation and the SQL functions that create and change them)
  and \<^verbatim>\<open>src/policy_cache.rs\<close> (the backend-local cache of the enabled ones). The thread-local
  cache is an optional record; the database is a parameter. The lemmas show that only a
  policy with a positive rate and a burst of at least the rate is ever stored or used, that a
  stored policy reads back as it was written, and what a lookup returns and how old its
  answer can be.
\<close>

section \<open>Validation\<close>

record policy_definition =
  pd_enabled :: bool
  pd_mode :: budget_mode
  pd_scope_kind :: scope_kind
  pd_scope_value :: "string option"
  pd_wal_rate_bytes_per_sec :: wal_bytes
  pd_wal_burst_bytes :: wal_bytes
  pd_priority :: i32

record policy_budget_update =
  pu_wal_rate_bytes_per_sec :: wal_bytes
  pu_wal_burst_bytes :: wal_bytes

definition validate_positive_wal_bytes :: "string \<Rightarrow> i64 \<Rightarrow> wal_bytes pwb_result" where
  "validate_positive_wal_bytes field value =
     (if sint value \<le> 0
      then Inl (InvalidPolicyValue field (show_int (sint value)) ''must be greater than zero'')
      else if 0 \<le> sint value then Inr value
      else Inl (InvalidPolicyValue field (show_int (sint value)) ''must fit in PostgreSQL bigint''))"

definition wal_bytes_to_i64 :: "string \<Rightarrow> wal_bytes \<Rightarrow> i64 pwb_result" where
  "wal_bytes_to_i64 field value =
     (if unat value < 2 ^ 63 then Inr value
      else Inl (InvalidPolicyValue field (show_u64 value) ''must fit in PostgreSQL bigint''))"

definition validate_policy_budget_update :: "i64 \<Rightarrow> i64 \<Rightarrow> policy_budget_update pwb_result" where
  "validate_policy_budget_update rate burst =
     rbind (validate_positive_wal_bytes ''wal_rate_bytes_per_sec'' rate) (\<lambda>rate.
     rbind (validate_positive_wal_bytes ''wal_burst_bytes'' burst) (\<lambda>burst.
       if burst < rate
       then Inl (InvalidPolicyValue ''wal_burst_bytes'' (show_u64 burst)
                   ''must be greater than or equal to wal_rate_bytes_per_sec'')
       else Inr \<lparr>pu_wal_rate_bytes_per_sec = rate, pu_wal_burst_bytes = burst\<rparr>))"

definition normalize_scope_value :: "string option \<Rightarrow> string option" where
  "normalize_scope_value scope_value =
     (case scope_value of
        None \<Rightarrow> None
      | Some v \<Rightarrow> let v = str_trim v in if v = [] then None else Some v)"

definition validate_policy_mode :: "string \<Rightarrow> budget_mode pwb_result" where
  "validate_policy_mode mode = budget_mode_parse_sql mode"

definition validate_policy_definition ::
  "string \<Rightarrow> string option \<Rightarrow> i64 \<Rightarrow> i64 \<Rightarrow> string \<Rightarrow> i32 \<Rightarrow> policy_definition pwb_result" where
  "validate_policy_definition scope_kind scope_value rate burst mode priority =
     rbind (budget_mode_parse_sql mode) (\<lambda>mode.
     rbind (scope_kind_parse_sql scope_kind) (\<lambda>scope_kind.
     rbind (validate_policy_budget_update rate burst) (\<lambda>budget.
       Inr \<lparr>pd_enabled = True, pd_mode = mode, pd_scope_kind = scope_kind,
            pd_scope_value = normalize_scope_value scope_value,
            pd_wal_rate_bytes_per_sec = pu_wal_rate_bytes_per_sec budget,
            pd_wal_burst_bytes = pu_wal_burst_bytes budget, pd_priority = priority\<rparr>)))"

section \<open>The cache\<close>

definition POLICY_CACHE_REFRESH_INTERVAL_MS :: epoch_millis where
  "POLICY_CACHE_REFRESH_INTERVAL_MS = 1000"

record cached_effective_policy =
  cp_scope_kind :: scope_kind
  cp_scope_value :: "string option"
  cp_policy :: effective_policy

record policy_cache =
  pc_refreshed_epoch_ms :: epoch_millis
  pc_policies :: "cached_effective_policy list"

definition cache_is_stale :: "policy_cache \<Rightarrow> epoch_millis \<Rightarrow> bool" where
  "cache_is_stale cache now_epoch_ms \<longleftrightarrow>
     POLICY_CACHE_REFRESH_INTERVAL_MS \<le> sat_sub now_epoch_ms (pc_refreshed_epoch_ms cache)"

definition policy_matches_scope :: "cached_effective_policy \<Rightarrow> scope_key \<Rightarrow> bool" where
  "policy_matches_scope policy scope \<longleftrightarrow>
     (if cp_scope_kind policy \<noteq> sk_kind scope then False
      else case cp_scope_value policy of
        None \<Rightarrow> True
      | Some policy_scope \<Rightarrow> Some policy_scope = sk_debug_value scope)"

fun find_policy :: "cached_effective_policy list \<Rightarrow> scope_key \<Rightarrow> effective_policy option" where
  "find_policy [] scope = None"
| "find_policy (p # ps) scope =
     (if policy_matches_scope p scope then Some (cp_policy p) else find_policy ps scope)"

definition find_effective_policy :: "policy_cache \<Rightarrow> scope_key \<Rightarrow> effective_policy option" where
  "find_effective_policy cache scope = find_policy (pc_policies cache) scope"

definition cached_policy_of :: "durable_policy_row \<Rightarrow> cached_effective_policy pwb_result" where
  "cached_policy_of row =
     rbind (validate_policy_budget_update (dr_wal_rate_bytes_per_sec row) (dr_wal_burst_bytes row)) (\<lambda>budget.
     rbind (scope_kind_parse_sql (dr_scope_kind row)) (\<lambda>scope_kind.
     rbind (budget_mode_parse_sql (dr_mode row)) (\<lambda>mode.
       Inr \<lparr>cp_scope_kind = scope_kind, cp_scope_value = normalize_scope_value (dr_scope_value row),
            cp_policy = \<lparr>ep_policy_id = dr_policy_id row, ep_enabled = dr_enabled row, ep_mode = mode,
                         ep_wal_rate_bytes_per_sec = pu_wal_rate_bytes_per_sec budget,
                         ep_wal_burst_bytes = pu_wal_burst_bytes budget\<rparr>\<rparr>)))"

definition load_policy_rows :: "durable_policy_row list \<Rightarrow> cached_effective_policy list pwb_result" where
  "load_policy_rows rows = rtraverse cached_policy_of rows"

definition load_policy_cache_from ::
  "'st durable_catalog_store \<Rightarrow> epoch_millis \<Rightarrow> 'st \<Rightarrow> policy_cache pwb_result \<times> 'st" where
  "load_policy_cache_from store now_epoch_ms st =
     sbind (load_enabled_policy_rows store st) (\<lambda>rows st.
       (rbind (load_policy_rows rows) (\<lambda>policies.
          Inr \<lparr>pc_refreshed_epoch_ms = now_epoch_ms, pc_policies = policies\<rparr>), st))"

text \<open>
  The cache is \<open>None\<close> until it is loaded and after an invalidation. The state is the cache
  and whatever the store works on.
\<close>

definition should_reload :: "policy_cache option \<Rightarrow> epoch_millis \<Rightarrow> bool" where
  "should_reload cache now_epoch_ms = (case cache of None \<Rightarrow> True | Some c \<Rightarrow> cache_is_stale c now_epoch_ms)"

definition effective_policy_for_scope ::
  "'st durable_catalog_store \<Rightarrow> scope_key \<Rightarrow> epoch_millis \<Rightarrow> policy_cache option \<times> 'st
     \<Rightarrow> effective_policy option pwb_result \<times> policy_cache option \<times> 'st" where
  "effective_policy_for_scope store scope now_epoch_ms cst =
     sbind (if should_reload (fst cst) now_epoch_ms
            then (case load_policy_cache_from store now_epoch_ms (snd cst) of
                    (Inl e, st) \<Rightarrow> (Inl e, (fst cst, st))
                  | (Inr loaded, st) \<Rightarrow> (Inr (), (Some loaded, st)))
            else (Inr (), cst)) (\<lambda>_ cst.
       case fst cst of
         None \<Rightarrow> (Inl (Internal ''policy cache was not initialized''), cst)
       | Some cache \<Rightarrow> (Inr (find_effective_policy cache scope), cst))"

definition invalidate_backend_policy_cache :: "policy_cache option \<Rightarrow> policy_cache option" where
  "invalidate_backend_policy_cache cache = None"

section \<open>Creating and changing policies\<close>

text \<open>
  What the server answers to the four statements, which run through SPI with admission
  bypassed. The insert may be refused by a constraint and returns the new id; the updates
  return whether a row had the id.
\<close>

record policy_insert =
  pi_enabled :: bool
  pi_mode :: string
  pi_scope_kind :: string
  pi_scope_value :: "string option"
  pi_wal_rate_bytes_per_sec :: i64
  pi_wal_burst_bytes :: i64
  pi_priority :: i32

record 'db policy_spi =
  spi_insert_policy :: "policy_insert \<Rightarrow> 'db \<Rightarrow> policy_id option spi_result \<times> 'db"
  spi_set_policy_mode :: "policy_id \<Rightarrow> string \<Rightarrow> 'db \<Rightarrow> bool option spi_result \<times> 'db"
  spi_update_policy :: "policy_id \<Rightarrow> i64 \<Rightarrow> i64 \<Rightarrow> i32 option \<Rightarrow> 'db \<Rightarrow> bool option spi_result \<times> 'db"
  spi_disable_policy :: "policy_id \<Rightarrow> 'db \<Rightarrow> bool option spi_result \<times> 'db"

definition spi_error :: "string \<Rightarrow> pwb_error" where
  "spi_error error = Internal (''SPI policy operation failed: '' @ error)"

definition require_policy_updated :: "policy_id \<Rightarrow> bool option \<Rightarrow> unit pwb_result" where
  "require_policy_updated policy_id updated =
     (if updated = Some True then Inr ()
      else Inl (InvalidPolicyValue ''policy_id'' (show_int (sint policy_id)) ''policy does not exist''))"

text \<open>A statement on the database part of the state, and the invalidation of the cache.\<close>

definition on_db ::
  "('db \<Rightarrow> 'a spi_result \<times> 'db) \<Rightarrow> policy_cache option \<times> 'db \<Rightarrow> 'a pwb_result \<times> policy_cache option \<times> 'db" where
  "on_db f cst = (case f (snd cst) of (r, db) \<Rightarrow> (map_err spi_error r, (fst cst, db)))"

definition invalidated :: "policy_cache option \<times> 'db \<Rightarrow> policy_cache option \<times> 'db" where
  "invalidated cst = (invalidate_backend_policy_cache (fst cst), snd cst)"

definition create_policy_impl ::
  "'db policy_spi \<Rightarrow> string \<Rightarrow> string option \<Rightarrow> i64 \<Rightarrow> i64 \<Rightarrow> string \<Rightarrow> i32
     \<Rightarrow> policy_cache option \<times> 'db \<Rightarrow> policy_id pwb_result \<times> policy_cache option \<times> 'db" where
  "create_policy_impl q scope_kind scope_value rate burst mode priority cst =
     sbind (validate_policy_definition scope_kind scope_value rate burst mode priority, cst) (\<lambda>policy cst.
     sbind (wal_bytes_to_i64 ''wal_rate_bytes_per_sec'' (pd_wal_rate_bytes_per_sec policy), cst) (\<lambda>rate cst.
     sbind (wal_bytes_to_i64 ''wal_burst_bytes'' (pd_wal_burst_bytes policy), cst) (\<lambda>burst cst.
     sbind (on_db (spi_insert_policy q
              \<lparr>pi_enabled = pd_enabled policy, pi_mode = budget_mode_as_sql_str (pd_mode policy),
               pi_scope_kind = scope_kind_as_sql_str (pd_scope_kind policy),
               pi_scope_value = pd_scope_value policy, pi_wal_rate_bytes_per_sec = rate,
               pi_wal_burst_bytes = burst, pi_priority = pd_priority policy\<rparr>) cst) (\<lambda>policy_id cst.
       case policy_id of
         None \<Rightarrow> (Inl (Internal ''policy insert did not return policy_id''), cst)
       | Some policy_id \<Rightarrow> (Inr policy_id, invalidated cst)))))"

definition set_policy_mode_impl ::
  "'db policy_spi \<Rightarrow> policy_id \<Rightarrow> string \<Rightarrow> policy_cache option \<times> 'db
     \<Rightarrow> unit pwb_result \<times> policy_cache option \<times> 'db" where
  "set_policy_mode_impl q policy_id mode cst =
     sbind (validate_policy_mode mode, cst) (\<lambda>mode cst.
     sbind (on_db (spi_set_policy_mode q policy_id (budget_mode_as_sql_str mode)) cst) (\<lambda>updated cst.
     sbind (require_policy_updated policy_id updated, cst) (\<lambda>_ cst. (Inr (), invalidated cst))))"

definition update_policy_impl ::
  "'db policy_spi \<Rightarrow> policy_id \<Rightarrow> i64 \<Rightarrow> i64 \<Rightarrow> i32 option \<Rightarrow> policy_cache option \<times> 'db
     \<Rightarrow> unit pwb_result \<times> policy_cache option \<times> 'db" where
  "update_policy_impl q policy_id rate burst priority cst =
     sbind (validate_policy_budget_update rate burst, cst) (\<lambda>budget cst.
     sbind (wal_bytes_to_i64 ''wal_rate_bytes_per_sec'' (pu_wal_rate_bytes_per_sec budget), cst) (\<lambda>rate cst.
     sbind (wal_bytes_to_i64 ''wal_burst_bytes'' (pu_wal_burst_bytes budget), cst) (\<lambda>burst cst.
     sbind (on_db (spi_update_policy q policy_id rate burst priority) cst) (\<lambda>updated cst.
     sbind (require_policy_updated policy_id updated, cst) (\<lambda>_ cst. (Inr (), invalidated cst))))))"

definition disable_policy_impl ::
  "'db policy_spi \<Rightarrow> policy_id \<Rightarrow> policy_cache option \<times> 'db
     \<Rightarrow> unit pwb_result \<times> policy_cache option \<times> 'db" where
  "disable_policy_impl q policy_id cst =
     sbind (on_db (spi_disable_policy q policy_id) cst) (\<lambda>updated cst.
     sbind (require_policy_updated policy_id updated, cst) (\<lambda>_ cst. (Inr (), invalidated cst)))"

definition pwb_create_policy ::
  "invoking_user \<Rightarrow> 'db policy_spi \<Rightarrow> string \<Rightarrow> string option \<Rightarrow> i64 \<Rightarrow> i64 \<Rightarrow> string \<Rightarrow> i32
     \<Rightarrow> policy_cache option \<times> 'db \<Rightarrow> policy_id raised \<times> policy_cache option \<times> 'db" where
  "pwb_create_policy user q scope_kind scope_value rate burst mode priority =
     gated user Admin ''create pg_wal_budget policy''
       (create_policy_impl q scope_kind scope_value rate burst mode priority)"

definition pwb_set_policy_mode ::
  "invoking_user \<Rightarrow> 'db policy_spi \<Rightarrow> policy_id \<Rightarrow> string \<Rightarrow> policy_cache option \<times> 'db
     \<Rightarrow> unit raised \<times> policy_cache option \<times> 'db" where
  "pwb_set_policy_mode user q policy_id mode =
     gated user Admin ''set pg_wal_budget policy mode'' (set_policy_mode_impl q policy_id mode)"

definition pwb_update_policy ::
  "invoking_user \<Rightarrow> 'db policy_spi \<Rightarrow> policy_id \<Rightarrow> i64 \<Rightarrow> i64 \<Rightarrow> i32 option \<Rightarrow> policy_cache option \<times> 'db
     \<Rightarrow> unit raised \<times> policy_cache option \<times> 'db" where
  "pwb_update_policy user q policy_id rate burst priority =
     gated user Admin ''update pg_wal_budget policy'' (update_policy_impl q policy_id rate burst priority)"

definition pwb_disable_policy ::
  "invoking_user \<Rightarrow> 'db policy_spi \<Rightarrow> policy_id \<Rightarrow> policy_cache option \<times> 'db
     \<Rightarrow> unit raised \<times> policy_cache option \<times> 'db" where
  "pwb_disable_policy user q policy_id =
     gated user Admin ''disable pg_wal_budget policy'' (disable_policy_impl q policy_id)"

section \<open>What validation guarantees\<close>

definition budget_ok :: "wal_bytes \<Rightarrow> wal_bytes \<Rightarrow> bool" where
  "budget_ok rate burst \<longleftrightarrow> 0 < unat rate \<and> unat rate \<le> unat burst \<and> unat burst < 2 ^ 63"

lemma positive_i64: "0 < sint (v :: i64) \<Longrightarrow> 0 < unat v \<and> unat v < 2 ^ 63"
proof -
  assume pos: "0 < sint v"
  have lt: "sint v < 2 ^ 63" using sint_less [of v] by simp
  have "uint v = take_bit 64 (sint v)" using uint_sint [of v] by simp
  also have "\<dots> = sint v" using pos lt by (intro take_bit_int_eq_self) simp_all
  finally have "uint v = sint v" .
  then show ?thesis using pos lt by (simp add: unat_eq_nat_uint nat_less_iff)
qed

lemma validate_positive_Inr:
  "validate_positive_wal_bytes f v = Inr w \<longleftrightarrow> 0 < sint v \<and> w = v"
  by (auto simp: validate_positive_wal_bytes_def)

lemma validate_budget_Inr:
  "validate_policy_budget_update rate burst = Inr b \<longleftrightarrow>
     0 < sint rate \<and> 0 < sint burst \<and> unat rate \<le> unat burst
   \<and> b = \<lparr>pu_wal_rate_bytes_per_sec = rate, pu_wal_burst_bytes = burst\<rparr>"
  by (auto simp: validate_policy_budget_update_def rbind_Inr_iff validate_positive_Inr
      word_less_nat_alt not_less split: if_splits)

lemma validate_budget_ok:
  "validate_policy_budget_update rate burst = Inr b \<Longrightarrow>
     budget_ok (pu_wal_rate_bytes_per_sec b) (pu_wal_burst_bytes b)"
  using positive_i64 [of rate] positive_i64 [of burst]
  by (auto simp: validate_budget_Inr budget_ok_def)

lemma normalize_idem [simp]: "normalize_scope_value (normalize_scope_value v) = normalize_scope_value v"
  by (auto simp: normalize_scope_value_def Let_def split: option.splits)

definition definition_ok :: "policy_definition \<Rightarrow> bool" where
  "definition_ok p \<longleftrightarrow>
     pd_enabled p \<and> budget_ok (pd_wal_rate_bytes_per_sec p) (pd_wal_burst_bytes p)
   \<and> 0 < sint (pd_wal_rate_bytes_per_sec p) \<and> 0 < sint (pd_wal_burst_bytes p)
   \<and> normalize_scope_value (pd_scope_value p) = pd_scope_value p"

lemma validate_definition_Inr:
  assumes "validate_policy_definition kind v rate burst mode prio = Inr p"
  shows "definition_ok p" and "pd_wal_rate_bytes_per_sec p = rate" and "pd_wal_burst_bytes p = burst"
    and "pd_scope_value p = normalize_scope_value v" and "pd_priority p = prio"
    and "budget_mode_parse_sql mode = Inr (pd_mode p)" and "scope_kind_parse_sql kind = Inr (pd_scope_kind p)"
  using assms validate_budget_ok [of rate burst]
  by (auto simp: validate_policy_definition_def rbind_Inr_iff definition_ok_def validate_budget_Inr)

lemma wal_bytes_to_i64_ok: "unat v < 2 ^ 63 \<Longrightarrow> wal_bytes_to_i64 f v = Inr v"
  by (simp add: wal_bytes_to_i64_def)

lemma definition_ok_to_i64:
  assumes "definition_ok p"
  shows "wal_bytes_to_i64 f (pd_wal_rate_bytes_per_sec p) = Inr (pd_wal_rate_bytes_per_sec p)"
    and "wal_bytes_to_i64 f (pd_wal_burst_bytes p) = Inr (pd_wal_burst_bytes p)"
  using assms by (auto simp: definition_ok_def budget_ok_def intro!: wal_bytes_to_i64_ok)

text \<open>The row of the insert, and the row that a load finds for it.\<close>

definition insert_of :: "policy_definition \<Rightarrow> policy_insert" where
  "insert_of p =
     \<lparr>pi_enabled = pd_enabled p, pi_mode = budget_mode_as_sql_str (pd_mode p),
      pi_scope_kind = scope_kind_as_sql_str (pd_scope_kind p), pi_scope_value = pd_scope_value p,
      pi_wal_rate_bytes_per_sec = pd_wal_rate_bytes_per_sec p,
      pi_wal_burst_bytes = pd_wal_burst_bytes p, pi_priority = pd_priority p\<rparr>"

definition row_of_insert :: "policy_id \<Rightarrow> policy_insert \<Rightarrow> durable_policy_row" where
  "row_of_insert policy_id i =
     \<lparr>dr_policy_id = policy_id, dr_scope_kind = pi_scope_kind i, dr_scope_value = pi_scope_value i,
      dr_enabled = pi_enabled i, dr_mode = pi_mode i,
      dr_wal_rate_bytes_per_sec = pi_wal_rate_bytes_per_sec i,
      dr_wal_burst_bytes = pi_wal_burst_bytes i\<rparr>"

definition cached_of :: "policy_id \<Rightarrow> policy_definition \<Rightarrow> cached_effective_policy" where
  "cached_of policy_id p =
     \<lparr>cp_scope_kind = pd_scope_kind p, cp_scope_value = pd_scope_value p,
      cp_policy = \<lparr>ep_policy_id = policy_id, ep_enabled = True, ep_mode = pd_mode p,
                   ep_wal_rate_bytes_per_sec = pd_wal_rate_bytes_per_sec p,
                   ep_wal_burst_bytes = pd_wal_burst_bytes p\<rparr>\<rparr>"

lemma cached_policy_of_insert:
  assumes "definition_ok p"
  shows "cached_policy_of (row_of_insert policy_id (insert_of p)) = Inr (cached_of policy_id p)"
proof -
  have "validate_policy_budget_update (pd_wal_rate_bytes_per_sec p) (pd_wal_burst_bytes p)
      = Inr \<lparr>pu_wal_rate_bytes_per_sec = pd_wal_rate_bytes_per_sec p, pu_wal_burst_bytes = pd_wal_burst_bytes p\<rparr>"
    using assms by (simp add: validate_budget_Inr definition_ok_def budget_ok_def)
  with assms show ?thesis
    by (simp add: cached_policy_of_def row_of_insert_def insert_of_def cached_of_def definition_ok_def)
qed

lemma create_policy_impl_eq:
  "create_policy_impl q kind v rate burst mode prio (cache, db) =
     (case validate_policy_definition kind v rate burst mode prio of
        Inl e \<Rightarrow> (Inl e, (cache, db))
      | Inr p \<Rightarrow>
          (case spi_insert_policy q (insert_of p) db of
             (Inl e, db) \<Rightarrow> (Inl (spi_error e), (cache, db))
           | (Inr None, db) \<Rightarrow> (Inl (Internal ''policy insert did not return policy_id''), (cache, db))
           | (Inr (Some i), db) \<Rightarrow> (Inr i, (None, db))))"
  by (auto simp: create_policy_impl_def on_db_def insert_of_def invalidated_def
      invalidate_backend_policy_cache_def definition_ok_to_i64 dest: validate_definition_Inr(1)
      split: sum.splits prod.splits option.splits)

text \<open>
  C31: creating a policy, on every branch. A user who may not administer the extension, and
  settings that are not valid, reach neither the database nor the cache. Otherwise exactly
  one row is inserted, with a positive rate, a burst of at least the rate and a normalised
  scope value; when the server returns its id the cached policies are dropped, and loading
  that row gives back exactly the policy that was asked for.
\<close>

theorem create_policy_spec:
  "(\<not> authorized user Admin \<longrightarrow>
     pwb_create_policy user q kind v rate burst mode prio (cache, db) =
       (Inl (ERRCODE_INSUFFICIENT_PRIVILEGE, ''insufficient privilege for pg_wal_budget operation: insufficient privilege to create pg_wal_budget policy''), (cache, db)))
   \<and> (authorized user Admin \<longrightarrow>
     (case validate_policy_definition kind v rate burst mode prio of
        Inl e \<Rightarrow> pwb_create_policy user q kind v rate burst mode prio (cache, db)
                  = (Inl (raised_report e), (cache, db))
      | Inr p \<Rightarrow>
          pwb_create_policy user q kind v rate burst mode prio (cache, db) =
            (case spi_insert_policy q (insert_of p) db of
               (Inl e, db) \<Rightarrow> (Inl (raised_report (spi_error e)), (cache, db))
             | (Inr None, db) \<Rightarrow> (Inl (raised_report (Internal ''policy insert did not return policy_id'')), (cache, db))
             | (Inr (Some i), db) \<Rightarrow> (Inr i, (None, db)))
          \<and> budget_ok rate burst \<and> pi_scope_value (insert_of p) = normalize_scope_value v
          \<and> (\<forall>i. load_policy_rows [row_of_insert i (insert_of p)] = Inr [cached_of i p]
               \<and> ep_wal_rate_bytes_per_sec (cp_policy (cached_of i p)) = rate
               \<and> ep_wal_burst_bytes (cp_policy (cached_of i p)) = burst)))"
proof (intro conjI impI)
  assume "\<not> authorized user Admin"
  then show "pwb_create_policy user q kind v rate burst mode prio (cache, db) =
       (Inl (ERRCODE_INSUFFICIENT_PRIVILEGE, ''insufficient privilege for pg_wal_budget operation: insufficient privilege to create pg_wal_budget policy''), (cache, db))"
    by (simp add: pwb_create_policy_def gated_eq)
next
  assume auth: "authorized user Admin"
  show "case validate_policy_definition kind v rate burst mode prio of
        Inl e \<Rightarrow> pwb_create_policy user q kind v rate burst mode prio (cache, db)
                  = (Inl (raised_report e), (cache, db))
      | Inr p \<Rightarrow>
          pwb_create_policy user q kind v rate burst mode prio (cache, db) =
            (case spi_insert_policy q (insert_of p) db of
               (Inl e, db) \<Rightarrow> (Inl (raised_report (spi_error e)), (cache, db))
             | (Inr None, db) \<Rightarrow> (Inl (raised_report (Internal ''policy insert did not return policy_id'')), (cache, db))
             | (Inr (Some i), db) \<Rightarrow> (Inr i, (None, db)))
          \<and> budget_ok rate burst \<and> pi_scope_value (insert_of p) = normalize_scope_value v
          \<and> (\<forall>i. load_policy_rows [row_of_insert i (insert_of p)] = Inr [cached_of i p]
               \<and> ep_wal_rate_bytes_per_sec (cp_policy (cached_of i p)) = rate
               \<and> ep_wal_burst_bytes (cp_policy (cached_of i p)) = burst)"
  proof (cases "validate_policy_definition kind v rate burst mode prio")
    case (Inr p)
    note ok = validate_definition_Inr [OF Inr]
    have "load_policy_rows [row_of_insert i (insert_of p)] = Inr [cached_of i p]" for i
      using cached_policy_of_insert [OF ok(1)] by (simp add: load_policy_rows_def)
    moreover have "budget_ok rate burst" using ok(1-3) by (simp add: definition_ok_def)
    ultimately show ?thesis
      using auth ok by (auto simp: Inr pwb_create_policy_def gated_eq create_policy_impl_eq unwrap_or_raise_def
          cached_of_def insert_of_def split: sum.splits prod.splits option.splits)
  qed (use auth in \<open>simp add: pwb_create_policy_def gated_eq create_policy_impl_eq unwrap_or_raise_def\<close>)
qed

text \<open>A concrete user and server for the witnesses: a superuser, and a database that counts inserts.\<close>

definition sample_superuser :: invoking_user where
  "sample_superuser = \<lparr>iu_superuser = True, iu_role_oid = (\<lambda>_. 0), iu_has_privs_of_role = (\<lambda>_. False)\<rparr>"

definition sample_policy_spi :: "policy_insert list policy_spi" where
  "sample_policy_spi =
     \<lparr>spi_insert_policy = (\<lambda>i db. (Inr (Some (of_nat (Suc (length db)))), db @ [i])),
      spi_set_policy_mode = (\<lambda>policy_id mode db. (Inr (Some (unat policy_id \<le> length db)), db)),
      spi_update_policy = (\<lambda>policy_id rate burst priority db. (Inr (Some (unat policy_id \<le> length db)), db)),
      spi_disable_policy = (\<lambda>policy_id db. (Inr (Some (unat policy_id \<le> length db)), db))\<rparr>"

definition sample_definition :: policy_definition where
  "sample_definition =
     \<lparr>pd_enabled = True, pd_mode = Reject, pd_scope_kind = Tenant, pd_scope_value = Some ''a'',
      pd_wal_rate_bytes_per_sec = 100, pd_wal_burst_bytes = 500, pd_priority = 7\<rparr>"

lemma sample_definition_valid:
  "validate_policy_definition ''tenant'' (Some '' a '') 100 500 ''reject'' 7 = Inr sample_definition"
proof -
  have "budget_mode_parse_sql ''reject'' = Inr Reject" "scope_kind_parse_sql ''tenant'' = Inr Tenant"
    using parse_as_sql(1) [of Reject] parse_as_sql(2) [of Tenant] by simp_all
  moreover have "normalize_scope_value (Some '' a '') = Some ''a''" by code_simp
  moreover have "validate_policy_budget_update 100 500
      = Inr \<lparr>pu_wal_rate_bytes_per_sec = 100, pu_wal_burst_bytes = 500\<rparr>"
    by (simp add: validate_budget_Inr)
  ultimately show ?thesis by (simp add: validate_policy_definition_def sample_definition_def)
qed

theorem create_policy_spec_witness:
  "pwb_create_policy sample_superuser sample_policy_spi ''tenant'' (Some '' a '') 100 500 ''reject'' 7 (None, [])
     = (Inr 1, (None, [insert_of sample_definition]))
   \<and> load_policy_rows [row_of_insert 1 (insert_of sample_definition)] = Inr [cached_of 1 sample_definition]"
proof -
  have auth: "authorized sample_superuser Admin" by (simp add: authorized_def sample_superuser_def)
  have "pwb_create_policy sample_superuser sample_policy_spi ''tenant'' (Some '' a '') 100 500 ''reject'' 7 (None, [])
      = (case spi_insert_policy sample_policy_spi (insert_of sample_definition) [] of
             (Inl e, db) \<Rightarrow> (Inl (raised_report (spi_error e)), (None, []))
           | (Inr None, db) \<Rightarrow> (Inl (raised_report (Internal ''policy insert did not return policy_id'')), (None, db))
           | (Inr (Some i), db) \<Rightarrow> (Inr i, (None, db)))
    \<and> load_policy_rows [row_of_insert 1 (insert_of sample_definition)] = Inr [cached_of 1 sample_definition]"
    using create_policy_spec [of sample_superuser sample_policy_spi "''tenant''" "Some '' a ''" 100 500
        "''reject''" 7 None "[]"] auth
    by (simp add: sample_definition_valid sample_policy_spi_def)
  then show ?thesis by (simp add: sample_policy_spi_def)
qed

section \<open>Changing a policy\<close>

lemma update_impl_eqs:
  "set_policy_mode_impl q i mode (cache, db) =
     (case validate_policy_mode mode of
        Inl e \<Rightarrow> (Inl e, (cache, db))
      | Inr m \<Rightarrow>
          (case spi_set_policy_mode q i (budget_mode_as_sql_str m) db of
             (Inl e, db) \<Rightarrow> (Inl (spi_error e), (cache, db))
           | (Inr u, db) \<Rightarrow> (require_policy_updated i u, (if u = Some True then None else cache, db))))"
  "update_policy_impl q i rate burst prio (cache, db) =
     (case validate_policy_budget_update rate burst of
        Inl e \<Rightarrow> (Inl e, (cache, db))
      | Inr b \<Rightarrow>
          (case spi_update_policy q i rate burst prio db of
             (Inl e, db) \<Rightarrow> (Inl (spi_error e), (cache, db))
           | (Inr u, db) \<Rightarrow> (require_policy_updated i u, (if u = Some True then None else cache, db))))"
  "disable_policy_impl q i (cache, db) =
     (case spi_disable_policy q i db of
        (Inl e, db) \<Rightarrow> (Inl (spi_error e), (cache, db))
      | (Inr u, db) \<Rightarrow> (require_policy_updated i u, (if u = Some True then None else cache, db)))"
proof -
  have up: "update_policy_impl q i rate burst prio (cache, db) =
     (case spi_update_policy q i rate burst prio db of
        (Inl e, db) \<Rightarrow> (Inl (spi_error e), (cache, db))
      | (Inr u, db) \<Rightarrow> (require_policy_updated i u, (if u = Some True then None else cache, db)))"
    if v: "validate_policy_budget_update rate burst = Inr b" for b
  proof -
    have "unat rate < 2 ^ 63" "unat burst < 2 ^ 63" "b = \<lparr>pu_wal_rate_bytes_per_sec = rate, pu_wal_burst_bytes = burst\<rparr>"
      using v validate_budget_ok [OF v] by (auto simp: validate_budget_Inr budget_ok_def)
    then show ?thesis
      by (auto simp: update_policy_impl_def v wal_bytes_to_i64_ok on_db_def require_policy_updated_def
          invalidated_def invalidate_backend_policy_cache_def split: sum.splits prod.splits)
  qed
  show "update_policy_impl q i rate burst prio (cache, db) =
     (case validate_policy_budget_update rate burst of
        Inl e \<Rightarrow> (Inl e, (cache, db))
      | Inr b \<Rightarrow>
          (case spi_update_policy q i rate burst prio db of
             (Inl e, db) \<Rightarrow> (Inl (spi_error e), (cache, db))
           | (Inr u, db) \<Rightarrow> (require_policy_updated i u, (if u = Some True then None else cache, db))))"
    by (cases "validate_policy_budget_update rate burst") (simp add: update_policy_impl_def, simp add: up)
qed (auto simp: set_policy_mode_impl_def disable_policy_impl_def on_db_def require_policy_updated_def
      invalidated_def invalidate_backend_policy_cache_def split: sum.splits prod.splits)

text \<open>
  C32: changing a policy. Without the privilege nothing happens. With it, a new mode or
  budget that is not valid never reaches the database; a valid one is written as given; and
  the backend's cached policies are dropped exactly when a row was changed, so that a
  successful change takes effect in this backend at the next statement.
\<close>

theorem change_policy_spec:
  "(\<not> authorized user Admin \<longrightarrow>
     snd (pwb_set_policy_mode user q i mode (cache, db)) = (cache, db)
   \<and> snd (pwb_update_policy user q i rate burst prio (cache, db)) = (cache, db)
   \<and> snd (pwb_disable_policy user q i (cache, db)) = (cache, db))
  \<and> (\<not> is_ok (validate_policy_budget_update rate burst) \<longrightarrow>
     snd (pwb_update_policy user q i rate burst prio (cache, db)) = (cache, db))
  \<and> (fst (pwb_set_policy_mode user q i mode (cache, db)) = Inr () \<longrightarrow>
      (\<exists>m db'. authorized user Admin \<and> budget_mode_parse_sql mode = Inr m
         \<and> spi_set_policy_mode q i (budget_mode_as_sql_str m) db = (Inr (Some True), db')
         \<and> snd (pwb_set_policy_mode user q i mode (cache, db)) = (None, db')))
  \<and> (fst (pwb_update_policy user q i rate burst prio (cache, db)) = Inr () \<longrightarrow>
      (\<exists>db'. authorized user Admin \<and> budget_ok rate burst
         \<and> spi_update_policy q i rate burst prio db = (Inr (Some True), db')
         \<and> snd (pwb_update_policy user q i rate burst prio (cache, db)) = (None, db')))
  \<and> (fst (pwb_disable_policy user q i (cache, db)) = Inr () \<longrightarrow>
      (\<exists>db'. authorized user Admin \<and> spi_disable_policy q i db = (Inr (Some True), db')
         \<and> snd (pwb_disable_policy user q i (cache, db)) = (None, db')))"
proof -
  have ok: "validate_policy_budget_update rate burst = Inr b \<Longrightarrow> budget_ok rate burst" for b
    using validate_budget_ok [of rate burst b] by (auto simp: validate_budget_Inr)
  note eqs = pwb_set_policy_mode_def pwb_update_policy_def pwb_disable_policy_def gated_eq
    unwrap_or_raise_def update_impl_eqs require_policy_updated_def validate_policy_mode_def
  have unauthorized: "\<not> authorized user Admin \<longrightarrow>
     snd (pwb_set_policy_mode user q i mode (cache, db)) = (cache, db)
   \<and> snd (pwb_update_policy user q i rate burst prio (cache, db)) = (cache, db)
   \<and> snd (pwb_disable_policy user q i (cache, db)) = (cache, db)"
    by (simp add: pwb_set_policy_mode_def pwb_update_policy_def pwb_disable_policy_def gated_eq)
  have invalid: "\<not> is_ok (validate_policy_budget_update rate burst) \<longrightarrow>
     snd (pwb_update_policy user q i rate burst prio (cache, db)) = (cache, db)"
    by (cases "validate_policy_budget_update rate burst") (auto simp: eqs)
  have mode: "fst (pwb_set_policy_mode user q i mode (cache, db)) = Inr () \<longrightarrow>
      (\<exists>m db'. authorized user Admin \<and> budget_mode_parse_sql mode = Inr m
         \<and> spi_set_policy_mode q i (budget_mode_as_sql_str m) db = (Inr (Some True), db')
         \<and> snd (pwb_set_policy_mode user q i mode (cache, db)) = (None, db'))"
    by (auto simp: eqs split: sum.splits prod.splits if_splits)
  have budget: "fst (pwb_update_policy user q i rate burst prio (cache, db)) = Inr () \<longrightarrow>
      (\<exists>db'. authorized user Admin \<and> budget_ok rate burst
         \<and> spi_update_policy q i rate burst prio db = (Inr (Some True), db')
         \<and> snd (pwb_update_policy user q i rate burst prio (cache, db)) = (None, db'))"
    by (auto simp: eqs ok split: sum.splits prod.splits if_splits)
  have disable: "fst (pwb_disable_policy user q i (cache, db)) = Inr () \<longrightarrow>
      (\<exists>db'. authorized user Admin \<and> spi_disable_policy q i db = (Inr (Some True), db')
         \<and> snd (pwb_disable_policy user q i (cache, db)) = (None, db'))"
    by (auto simp: eqs split: sum.splits prod.splits if_splits)
  from unauthorized invalid mode budget disable show ?thesis by blast
qed

theorem change_policy_spec_witness:
  "\<exists>m. budget_mode_parse_sql ''shadow'' = Inr m
    \<and> snd (pwb_set_policy_mode sample_superuser sample_policy_spi 1 ''shadow''
             (Some \<lparr>pc_refreshed_epoch_ms = 5, pc_policies = []\<rparr>, [insert_of sample_definition]))
        = (None, [insert_of sample_definition])"
proof -
  let ?cache = "Some \<lparr>pc_refreshed_epoch_ms = 5, pc_policies = []\<rparr>" and ?db = "[insert_of sample_definition]"
  have "authorized sample_superuser Admin" by (simp add: authorized_def sample_superuser_def)
  moreover have "budget_mode_parse_sql ''shadow'' = Inr Shadow" using parse_as_sql(1) [of Shadow] by simp
  ultimately have "fst (pwb_set_policy_mode sample_superuser sample_policy_spi 1 ''shadow'' (?cache, ?db)) = Inr ()"
    by (simp add: pwb_set_policy_mode_def gated_eq update_impl_eqs validate_policy_mode_def unwrap_or_raise_def
        require_policy_updated_def sample_policy_spi_def)
  with change_policy_spec [of sample_superuser sample_policy_spi 1 "''shadow''" ?cache ?db]
  show ?thesis by (auto simp: sample_policy_spi_def)
qed

section \<open>Looking a policy up\<close>

text \<open>What a row says about a scope, read as the cache reads it.\<close>

definition row_matches :: "durable_policy_row \<Rightarrow> scope_key \<Rightarrow> bool" where
  "row_matches row scope \<longleftrightarrow>
     scope_kind_parse_sql (dr_scope_kind row) = Inr (sk_kind scope)
   \<and> (normalize_scope_value (dr_scope_value row) = None
      \<or> normalize_scope_value (dr_scope_value row) = sk_debug_value scope)"

definition policy_of_row :: "effective_policy \<Rightarrow> durable_policy_row \<Rightarrow> bool" where
  "policy_of_row p row \<longleftrightarrow>
     ep_policy_id p = dr_policy_id row \<and> ep_enabled p = dr_enabled row
   \<and> budget_mode_parse_sql (dr_mode row) = Inr (ep_mode p)
   \<and> ep_wal_rate_bytes_per_sec p = dr_wal_rate_bytes_per_sec row
   \<and> ep_wal_burst_bytes p = dr_wal_burst_bytes row
   \<and> budget_ok (ep_wal_rate_bytes_per_sec p) (ep_wal_burst_bytes p)"

lemma cached_policy_of_row:
  assumes "cached_policy_of row = Inr c"
  shows "policy_of_row (cp_policy c) row" and "policy_matches_scope c scope \<longleftrightarrow> row_matches row scope"
proof -
  obtain b k m where b: "validate_policy_budget_update (dr_wal_rate_bytes_per_sec row) (dr_wal_burst_bytes row) = Inr b"
    and k: "scope_kind_parse_sql (dr_scope_kind row) = Inr k" and m: "budget_mode_parse_sql (dr_mode row) = Inr m"
    and c: "c = \<lparr>cp_scope_kind = k, cp_scope_value = normalize_scope_value (dr_scope_value row),
            cp_policy = \<lparr>ep_policy_id = dr_policy_id row, ep_enabled = dr_enabled row, ep_mode = m,
                         ep_wal_rate_bytes_per_sec = pu_wal_rate_bytes_per_sec b,
                         ep_wal_burst_bytes = pu_wal_burst_bytes b\<rparr>\<rparr>"
    using assms by (auto simp: cached_policy_of_def rbind_Inr_iff)
  show "policy_of_row (cp_policy c) row"
    using b validate_budget_ok [OF b] m by (auto simp: c policy_of_row_def validate_budget_Inr)
  show "policy_matches_scope c scope \<longleftrightarrow> row_matches row scope"
    by (auto simp: c policy_matches_scope_def row_matches_def k split: option.splits)
qed

definition first_match :: "durable_policy_row list \<Rightarrow> scope_key \<Rightarrow> effective_policy option \<Rightarrow> bool" where
  "first_match rows scope ans \<longleftrightarrow>
     (case ans of
        None \<Rightarrow> \<forall>row \<in> set rows. \<not> row_matches row scope
      | Some p \<Rightarrow> \<exists>i < length rows. row_matches (rows ! i) scope \<and> policy_of_row p (rows ! i)
          \<and> (\<forall>j < i. \<not> row_matches (rows ! j) scope))"

lemma find_policy_first:
  "load_policy_rows rows = Inr ps \<Longrightarrow> first_match rows scope (find_policy ps scope)"
proof (induction rows arbitrary: ps)
  case (Cons row rows)
  obtain c cs where c: "cached_policy_of row = Inr c" "load_policy_rows rows = Inr cs" "ps = c # cs"
    using Cons.prems by (auto simp: load_policy_rows_def rbind_Inr_iff)
  note row = cached_policy_of_row [OF c(1)]
  show ?case
  proof (cases "row_matches row scope")
    case True
    then show ?thesis using row by (auto simp: first_match_def c(3))
  next
    case False
    note ih = Cons.IH [OF c(2)]
    show ?thesis
    proof (cases "find_policy cs scope")
      case None
      then show ?thesis using ih False row(2) by (simp add: first_match_def c(3))
    next
      case (Some p)
      with ih obtain i where i: "i < length rows" "row_matches (rows ! i) scope" "policy_of_row p (rows ! i)"
        "\<forall>j < i. \<not> row_matches (rows ! j) scope" by (auto simp: first_match_def)
      then have "\<forall>j < Suc i. \<not> row_matches ((row # rows) ! j) scope"
        using False by (auto simp: less_Suc_eq_0_disj)
      with i Some False row(2) show ?thesis
        by (auto simp: first_match_def c(3) intro!: exI [of _ "Suc i"])
    qed
  qed
qed (simp add: first_match_def load_policy_rows_def)

definition cache_holds :: "policy_cache \<Rightarrow> durable_policy_row list \<Rightarrow> bool" where
  "cache_holds cache rows \<longleftrightarrow> load_policy_rows rows = Inr (pc_policies cache)"

lemma not_stale: "\<not> cache_is_stale c now \<longleftrightarrow> unat now < unat (pc_refreshed_epoch_ms c) + 1000"
  by (auto simp: cache_is_stale_def POLICY_CACHE_REFRESH_INTERVAL_MS_def word_le_nat_alt unat_sat_sub)

lemma lookup_fresh:
  "\<not> cache_is_stale c now \<Longrightarrow>
     effective_policy_for_scope store scope now (Some c, st) = (Inr (find_effective_policy c scope), (Some c, st))"
  by (simp add: effective_policy_for_scope_def should_reload_def)

lemma lookup_reload:
  assumes "should_reload cache now"
  shows "effective_policy_for_scope store scope now (cache, st) =
     (case load_enabled_policy_rows store st of
        (Inl e, st) \<Rightarrow> (Inl e, (cache, st))
      | (Inr rows, st) \<Rightarrow>
          (case load_policy_rows rows of
             Inl e \<Rightarrow> (Inl e, (cache, st))
           | Inr ps \<Rightarrow> (Inr (find_policy ps scope),
                         (Some \<lparr>pc_refreshed_epoch_ms = now, pc_policies = ps\<rparr>, st))))"
  using assms by (auto simp: effective_policy_for_scope_def load_policy_cache_from_def find_effective_policy_def
      split: prod.splits sum.splits)

text \<open>
  C30: which policy a statement gets. The answer is the first row, in the order of the
  store (highest priority first), that is for the statement's scope kind and for its value
  or for any value; it has a positive rate and a burst of at least the rate. The rows are
  those the backend read at most a second ago, or reads now. When the store or one of its
  rows is bad, the lookup fails with that error and the old cache stays.
\<close>

theorem policy_lookup_spec:
  assumes "\<And>c. cache = Some c \<Longrightarrow> cache_holds c old_rows"
  shows "case effective_policy_for_scope store scope now (cache, st) of
     (Inr ans, (cache', st')) \<Rightarrow>
        (\<exists>c rows. cache' = Some c \<and> cache_holds c rows \<and> first_match rows scope ans
          \<and> (cache = Some c \<and> rows = old_rows \<and> st' = st \<and> unat now < unat (pc_refreshed_epoch_ms c) + 1000
             \<or> load_enabled_policy_rows store st = (Inr rows, st') \<and> pc_refreshed_epoch_ms c = now))
   | (Inl e, (cache', st')) \<Rightarrow>
        cache' = cache \<and> should_reload cache now
        \<and> (load_enabled_policy_rows store st = (Inl e, st')
           \<or> (\<exists>rows. load_enabled_policy_rows store st = (Inr rows, st')
                \<and> (\<exists>row \<in> set rows. cached_policy_of row = Inl e)))"
proof (cases "should_reload cache now")
  case False
  then obtain c where c: "cache = Some c" "\<not> cache_is_stale c now"
    by (auto simp: should_reload_def split: option.splits)
  then show ?thesis
    using assms [OF c(1)] find_policy_first [of old_rows "pc_policies c" scope] lookup_fresh [OF c(2), of store scope st]
    by (auto simp: find_effective_policy_def cache_holds_def not_stale)
next
  case True
  obtain r st' where load: "load_enabled_policy_rows store st = (r, st')" by (meson surj_pair)
  show ?thesis
  proof (cases r)
    case (Inl e)
    then show ?thesis by (simp add: lookup_reload [OF True] load True)
  next
    case (Inr rows)
    show ?thesis
    proof (cases "load_policy_rows rows")
      case (Inl e)
      then show ?thesis
        using Inr rtraverse_Inl [of cached_policy_of rows e]
        by (simp add: lookup_reload [OF True] load True load_policy_rows_def)
    next
      case (Inr ps)
      then show ?thesis
        using \<open>r = Inr rows\<close> find_policy_first [OF Inr, of scope]
        by (auto simp: lookup_reload [OF True] load cache_holds_def)
    qed
  qed
qed

definition sample_rows :: "durable_policy_row list" where
  "sample_rows = [row_of_insert 1 (insert_of sample_definition)]"

theorem policy_lookup_spec_witness:
  "\<exists>c. fst (snd (effective_policy_for_scope memory_catalog_store
        (scope_key_with_debug_value Tenant 9 ''a'') 2000 (None, memory_with_rows sample_rows []))) = Some c
     \<and> pc_refreshed_epoch_ms c = 2000 \<and> cache_holds c sample_rows"
proof -
  let ?s = "scope_key_with_debug_value Tenant 9 ''a''" and ?mc = "memory_with_rows sample_rows []"
  have load: "load_enabled_policy_rows memory_catalog_store ?mc = (Inr sample_rows, ?mc)"
    by (simp add: memory_catalog_store_def memory_load_enabled_policy_rows_def memory_with_rows_def
        sample_rows_def row_of_insert_def insert_of_def sample_definition_def)
  have ok: "definition_ok sample_definition"
    using validate_definition_Inr(1) [OF sample_definition_valid] .
  have "cached_policy_of row \<noteq> Inl e" if "row \<in> set sample_rows" for row e
    using that cached_policy_of_insert [OF ok] by (simp add: sample_rows_def)
  then show ?thesis
    using policy_lookup_spec [where cache = None and old_rows = "[]" and store = memory_catalog_store and scope = ?s
        and now = 2000 and st = ?mc] load
    by (auto split: prod.splits sum.splits)
qed

end
