(* ===== verification/Pwb_Prediction.thy ===== *)
theory Pwb_Prediction
  imports Pwb_Restore Pwb_Settings Pwb_Scope Pwb_Policy
begin

text \<open>
  Predicting the log volume of a statement and learning from its outcome, \<^verbatim>\<open>src/profile.rs\<close>.
  What the server and the other backends contribute to one hook call is the record \<open>server\<close>:
  the settings, the names of the session, the readings of the clock and of the log counter,
  the catalog (whose work may change the segment) and what happens while a statement waits.
  Each place where a hook reads the clock has a reading of its own: the restore and the
  persistence of profiles, the record of an internal error, and the admission or the
  settlement itself.
  The lemmas give the prediction in every case, its bound, and what an observation teaches.
\<close>

section \<open>The server as seen by a hook call\<close>

record server =
  sv_gucs :: gucs
  sv_display :: "f64 \<Rightarrow> string"
  sv_names :: session_names
  sv_store :: "shmem durable_catalog_store"
  sv_wait :: wait_env
  sv_restore_clock :: epoch_millis
  sv_persist_clock :: epoch_millis
  sv_clock :: epoch_millis
  sv_error_clock :: epoch_millis
  sv_wal_bytes :: "wal_bytes option"

section \<open>Operations\<close>

definition PROFILE_PERSIST_INTERVAL_MS :: epoch_millis where "PROFILE_PERSIST_INTERVAL_MS = 60000"
definition PROFILE_RESTORE_STALE_MS :: epoch_millis where "PROFILE_RESTORE_STALE_MS = 60000"

record prediction_context =
  px_statement_class :: statement_class
  px_query_id :: "query_id option"
  px_scope_hash :: scope_hash

fun fallback_wal_bytes_for_class :: "statement_class \<Rightarrow> wal_bytes \<Rightarrow> wal_bytes \<Rightarrow> wal_bytes" where
  "fallback_wal_bytes_for_class ReadOnly default_write default_utility = 0"
| "fallback_wal_bytes_for_class Write default_write default_utility = default_write"
| "fallback_wal_bytes_for_class Utility default_write default_utility = default_utility"
| "fallback_wal_bytes_for_class Copy default_write default_utility = default_utility"
| "fallback_wal_bytes_for_class Unknown default_write default_utility = default_utility"

definition clamp_prediction :: "wal_bytes \<Rightarrow> wal_bytes \<Rightarrow> wal_bytes" where
  "clamp_prediction predicted max_prediction =
     (if predicted > max_prediction then max_prediction else predicted)"

definition load_catalog_profiles :: "server \<Rightarrow> shmem \<Rightarrow> query_profile_snapshot list pwb_result \<times> shmem" where
  "load_catalog_profiles v = load_profiles_from (sv_store v) (profile_cache_capacity (sv_gucs v))"

definition persist_catalog_profiles ::
  "server \<Rightarrow> query_profile_snapshot list \<Rightarrow> shmem \<Rightarrow> unit pwb_result \<times> shmem" where
  "persist_catalog_profiles v = persist_profiles_with (sv_store v)"

definition ensure_catalog_loaded :: "server \<Rightarrow> shmem \<Rightarrow> unit pwb_result \<times> shmem" where
  "ensure_catalog_loaded v =
     ensure_profiles_loaded (sv_restore_clock v) PROFILE_RESTORE_STALE_MS (load_catalog_profiles v)"

definition maybe_persist_profiles :: "server \<Rightarrow> epoch_millis \<Rightarrow> shmem \<Rightarrow> unit pwb_result \<times> shmem" where
  "maybe_persist_profiles v now_epoch_ms =
     persist_profiles_if_due now_epoch_ms PROFILE_PERSIST_INTERVAL_MS (persist_catalog_profiles v)"

definition lookup_prediction_profile ::
  "server \<Rightarrow> scope_hash \<Rightarrow> query_id option \<Rightarrow> shmem \<Rightarrow> query_wal_profile option pwb_result \<times> shmem" where
  "lookup_prediction_profile v scope_hash query_id s =
     (case query_id of
        None \<Rightarrow> (Inr None, s)
      | Some query_id \<Rightarrow>
          sbind (ensure_catalog_loaded v s) (\<lambda>_ s.
          sbind (lookup_scoped_or_global_query_profile scope_hash query_id s, s) (\<lambda>profile s.
            (Inr profile, snd (maybe_persist_profiles v (sv_persist_clock v) s)))))"

definition predict_fallback :: "server \<Rightarrow> statement_class \<Rightarrow> wal_bytes" where
  "predict_fallback v statement_class =
     clamp_prediction
       (fallback_wal_bytes_for_class statement_class
          (default_write_wal_bytes (sv_gucs v)) (default_utility_wal_bytes (sv_gucs v)))
       (max_prediction_bytes (sv_gucs v))"

definition predict_context :: "server \<Rightarrow> prediction_context \<Rightarrow> shmem \<Rightarrow> wal_bytes \<times> shmem" where
  "predict_context v context s =
     (if px_statement_class context = ReadOnly then (0, s)
      else if g_predictor (sv_gucs v) = ProfileEwma
      then (case lookup_prediction_profile v (px_scope_hash context) (px_query_id context) s of
              (Inr (Some profile), s) \<Rightarrow>
                (clamp_prediction (qp_ewma_wal_bytes profile) (max_prediction_bytes (sv_gucs v)), s)
            | (_, s) \<Rightarrow> (predict_fallback v (px_statement_class context), s))
      else (predict_fallback v (px_statement_class context), s))"

definition record_query_observation ::
  "server \<Rightarrow> scope_hash \<Rightarrow> query_id \<Rightarrow> wal_bytes \<Rightarrow> epoch_millis \<Rightarrow> shmem \<Rightarrow> unit pwb_result \<times> shmem" where
  "record_query_observation v scope_hash query_id actual_wal_bytes now_epoch_ms s =
     sbind (ensure_catalog_loaded v s) (\<lambda>_ s.
     sbind (profile_ewma_alpha_weights (sv_display v) (sv_gucs v), s) (\<lambda>ewma_weights s.
       upsert_scoped_and_global_query_profiles scope_hash query_id actual_wal_bytes now_epoch_ms ewma_weights s))"

definition flush_profiles :: "server \<Rightarrow> shmem \<Rightarrow> unit pwb_result \<times> shmem" where
  "flush_profiles v s =
     sbind (ensure_catalog_loaded v s) (\<lambda>_ s.
       persist_profiles_now (sv_clock v) (persist_catalog_profiles v) s)"

section \<open>The segment stays well formed\<close>

text \<open>
  What the catalog and the other backends may do to the segment during a statement: keep its
  invariant, and return profiles that are profiles.
\<close>

definition server_ok :: "server \<Rightarrow> bool" where
  "server_ok v \<longleftrightarrow> loads_ok (load_catalog_profiles v) \<and> writes_ok (persist_catalog_profiles v)
     \<and> (\<forall>s. segment_ok s \<longrightarrow> segment_ok (snd (load_enabled_policy_rows (sv_store v) s)))
     \<and> (\<forall>i wait s. segment_ok s \<longrightarrow> segment_ok (snd (sv_wait v i wait s)))"

lemma clamp_min: "clamp_prediction p m = min p m"
  by (auto simp: clamp_prediction_def min_def)

lemma alpha_weights_ok:
  "profile_ewma_alpha_weights display g = Inr w \<Longrightarrow> weights_ok w"
proof -
  assume w: "profile_ewma_alpha_weights display g = Inr w"
  show "weights_ok w"
  proof (cases "f64_le MIN_PROFILE_EWMA_ALPHA_VALUE (g_profile_ewma_alpha g)
      \<and> f64_le (g_profile_ewma_alpha g) MAX_PROFILE_EWMA_ALPHA_VALUE")
    case True
    then obtain n m e where f: "g_profile_ewma_alpha g = Finite n m e" by (auto simp: f64_le_def elim: is_finite.elims)
    have "w = \<lparr>ew_numerator = of_nat (min (max (alpha_numerator m e) 1) 1000000), ew_denominator = 1000000\<rparr>"
      using w alpha_weights_Finite [of n m e display] True by (simp add: profile_ewma_alpha_weights_def f)
    then show ?thesis using clamped_numerator [of "alpha_numerator m e"] by (simp add: weights_ok_def)
  qed (use w in \<open>auto simp: profile_ewma_alpha_weights_def alpha_weights_invalid\<close>)
qed

lemma ensure_catalog_ok:
  "server_ok v \<Longrightarrow> segment_ok s \<Longrightarrow> segment_ok (snd (ensure_catalog_loaded v s))"
  unfolding ensure_catalog_loaded_def server_ok_def by (intro ensure_loaded_cases(3)) simp_all

lemma maybe_persist_ok:
  "server_ok v \<Longrightarrow> segment_ok s \<Longrightarrow> segment_ok (snd (maybe_persist_profiles v now s))"
  unfolding maybe_persist_profiles_def server_ok_def by (intro persist_cases(3)) simp_all

lemma segment_lookup:
  "segment_ok s \<Longrightarrow> lookup_scoped_or_global_query_profile h q s =
     Inr (case profile_at (sm_profiles (sh_mem s)) (Some h, q) of
            Some p \<Rightarrow> Some p
          | None \<Rightarrow> profile_at (sm_profiles (sh_mem s)) (None, q))"
  by (simp add: lookup_scoped_or_global_query_profile_def with_locked_profiles_eq
      lookup_scoped_or_global_query_profile_locked_def lookup_profile_at split: option.split)

section \<open>Predictions\<close>

text \<open>The profile that a prediction uses, and the prediction it gives.\<close>

definition best_profile :: "shmem \<Rightarrow> scope_hash \<Rightarrow> query_id \<Rightarrow> query_wal_profile option" where
  "best_profile s h q =
     (case profile_at (sm_profiles (sh_mem s)) (Some h, q) of
        Some p \<Rightarrow> Some p
      | None \<Rightarrow> profile_at (sm_profiles (sh_mem s)) (None, q))"

definition learned_prediction :: "server \<Rightarrow> statement_class \<Rightarrow> query_wal_profile option \<Rightarrow> wal_bytes" where
  "learned_prediction v c p =
     (case p of
        None \<Rightarrow> predict_fallback v c
      | Some p \<Rightarrow> min (qp_ewma_wal_bytes p) (max_prediction_bytes (sv_gucs v)))"

lemma fallback_bounded: "predict_fallback v c \<le> max_prediction_bytes (sv_gucs v)"
  by (simp add: predict_fallback_def clamp_min)

lemma learned_bounded: "learned_prediction v c p \<le> max_prediction_bytes (sv_gucs v)"
  by (simp add: learned_prediction_def fallback_bounded split: option.split)

lemma predict_by_profile:
  assumes "server_ok v" and "segment_ok s"
    and "px_statement_class x \<noteq> ReadOnly" and "g_predictor (sv_gucs v) = ProfileEwma"
    and "px_query_id x = Some q"
  shows "predict_context v x s =
    (case ensure_catalog_loaded v s of
       (Inl e, t) \<Rightarrow> (predict_fallback v (px_statement_class x), t)
     | (Inr u, t) \<Rightarrow> (learned_prediction v (px_statement_class x) (best_profile t (px_scope_hash x) q),
                      snd (maybe_persist_profiles v (sv_persist_clock v) t)))"
proof -
  obtain r t where e: "ensure_catalog_loaded v s = (r, t)" by (meson surj_pair)
  have "segment_ok t" using ensure_catalog_ok [OF assms(1,2)] by (simp add: e)
  then show ?thesis
    using assms(3-5) segment_lookup [of t]
    by (cases r; cases "best_profile t (px_scope_hash x) q")
       (simp_all add: predict_context_def lookup_prediction_profile_def e learned_prediction_def
          best_profile_def clamp_min)
qed

lemma predict_without_profile:
  assumes "g_predictor (sv_gucs v) \<noteq> ProfileEwma \<or> px_query_id x = None"
  shows "predict_context v x s =
    (if px_statement_class x = ReadOnly then 0 else predict_fallback v (px_statement_class x), s)"
  using assms by (auto simp: predict_context_def lookup_prediction_profile_def)

lemma predict_ok:
  assumes "server_ok v" and "segment_ok s"
  shows "segment_ok (snd (predict_context v x s))"
    and "fst (predict_context v x s) \<le> max_prediction_bytes (sv_gucs v)"
proof -
  obtain r t where e: "ensure_catalog_loaded v s = (r, t)" by (meson surj_pair)
  have t: "segment_ok t" using ensure_catalog_ok [OF assms] by (simp add: e)
  consider "px_statement_class x = ReadOnly" | "g_predictor (sv_gucs v) \<noteq> ProfileEwma \<or> px_query_id x = None"
    | q where "px_statement_class x \<noteq> ReadOnly" "g_predictor (sv_gucs v) = ProfileEwma" "px_query_id x = Some q"
    by (cases "px_query_id x") auto
  then have "segment_ok (snd (predict_context v x s))
    \<and> fst (predict_context v x s) \<le> max_prediction_bytes (sv_gucs v)"
  proof cases
    case 1
    then show ?thesis using assms(2) by (simp add: predict_context_def)
  next
    case 2
    then show ?thesis using assms(2) by (simp add: predict_without_profile fallback_bounded)
  next
    case 3
    then show ?thesis
      using t maybe_persist_ok [OF assms(1) t] learned_bounded fallback_bounded
      by (cases r) (simp_all add: predict_by_profile [OF assms 3] e)
  qed
  then show "segment_ok (snd (predict_context v x s))"
    "fst (predict_context v x s) \<le> max_prediction_bytes (sv_gucs v)" by simp_all
qed

text \<open>
  C16: the prediction for a statement, in every case. A read-only statement is predicted to
  write nothing and touches nothing. With the statement-class predictor, or without a query
  id, the default of the class is used and nothing is touched. Otherwise the profiles are
  loaded first; if that fails the default is used, else the profile of the query in its
  scope, else its global profile, else the default. In every case the configured maximum
  bounds the prediction, and the invariant of the segment is kept.
\<close>

theorem prediction_spec:
  assumes "server_ok v" and "segment_ok s"
  shows "segment_ok (snd (predict_context v x s))
   \<and> fst (predict_context v x s) \<le> max_prediction_bytes (sv_gucs v)
   \<and> (px_statement_class x = ReadOnly \<longrightarrow> predict_context v x s = (0, s))
   \<and> (px_statement_class x \<noteq> ReadOnly \<and> (g_predictor (sv_gucs v) \<noteq> ProfileEwma \<or> px_query_id x = None)
        \<longrightarrow> predict_context v x s = (predict_fallback v (px_statement_class x), s))
   \<and> (px_statement_class x \<noteq> ReadOnly \<and> g_predictor (sv_gucs v) = ProfileEwma \<and> px_query_id x = Some q
        \<longrightarrow> (case ensure_catalog_loaded v s of
              (Inl e, t) \<Rightarrow> predict_context v x s = (predict_fallback v (px_statement_class x), t)
            | (Inr u, t) \<Rightarrow>
                fst (predict_context v x s)
                  = learned_prediction v (px_statement_class x) (best_profile t (px_scope_hash x) q)))"
  using predict_ok [OF assms] predict_without_profile [of v x s] predict_by_profile [OF assms, of x q]
  by (auto simp: predict_context_def split: prod.splits sum.splits)

section \<open>Learning\<close>

lemma profile_put_at: "profile_put full k p m m' \<Longrightarrow> m' k = Some p"
  by (auto simp: profile_put_def split: if_splits)

lemma profile_put_other: "profile_put full k p m m' \<Longrightarrow> k' \<noteq> k \<Longrightarrow> m' k' = m k' \<or> m' k' = None"
  by (auto simp: profile_put_def split: if_splits)

lemma observed_max:
  assumes "weights_ok w" and "\<And>p. m k = Some p \<Longrightarrow> profile_ok p"
  shows "a \<le> qp_max_wal_bytes (observed m k a t w)"
  by (cases "m k") (simp_all add: observed_def query_profile_new_def record_observation_def Let_def)

text \<open>What two observations leave for a lookup of the query in the scope.\<close>

lemma put_put_best:
  assumes "profile_put f1 (Some h, q) p m m1" and "profile_put f2 (None, q) (observed m1 (None, q) a t w) m1 m2"
  shows "(case m2 (Some h, q) of Some p' \<Rightarrow> Some p' | None \<Rightarrow> m2 (None, q))
    \<in> {Some p, Some (observed m (None, q) a t w), Some (query_profile_new a t)}"
proof -
  have "m1 (Some h, q) = Some p" using profile_put_at [OF assms(1)] .
  then have scoped: "m2 (Some h, q) = Some p \<or> m2 (Some h, q) = None"
    using profile_put_other [OF assms(2), of "(Some h, q)"] by auto
  have "m1 (None, q) = m (None, q) \<or> m1 (None, q) = None"
    using profile_put_other [OF assms(1), of "(None, q)"] by auto
  then have "observed m1 (None, q) a t w = observed m (None, q) a t w
    \<or> observed m1 (None, q) a t w = query_profile_new a t"
    by (auto simp: observed_def)
  with scoped profile_put_at [OF assms(2)] show ?thesis by auto
qed

lemma upsert_best:
  assumes s: "segment_ok s" and w: "weights_ok w" and ne: "sm_profiles (sh_mem s) \<noteq> []"
  shows "\<exists>s' p. upsert_scoped_and_global_query_profiles h q a t w s = (Inr (), s')
    \<and> segment_ok s' \<and> best_profile s' h q = Some p
    \<and> p \<in> {observed (profile_at (sm_profiles (sh_mem s))) (Some h, q) a t w,
           observed (profile_at (sm_profiles (sh_mem s))) (None, q) a t w, query_profile_new a t}"
proof -
  let ?ps = "sm_profiles (sh_mem s)"
  obtain st1 m where 1: "upsert_query_profile_locked (Some h) q a t w (header_of s, ?ps) = (Inr (), (st1, m))"
    "profiles_wf (st1, m)"
    "profile_put (profiles_full ?ps) (Some h, q) (observed (profile_at ?ps) (Some h, q) a t w) (profile_at ?ps) (profile_at m)"
    using upsert_spec [OF segment_profiles_wf [OF s] w ne] by blast
  have "m \<noteq> []"
    using place_keeps_array [of "Some h" q _ "(header_of s, ?ps)"] 1(1) ne
    by (metis upsert_place snd_conv length_0_conv)
  then obtain st2 ps2 where 2: "upsert_query_profile_locked None q a t w (st1, m) = (Inr (), (st2, ps2))"
    "profile_put (profiles_full m) (None, q) (observed (profile_at m) (None, q) a t w) (profile_at m) (profile_at ps2)"
    using upsert_spec [OF 1(2) w] by blast
  let ?st = "st2\<lparr>ss_profile_dirty_count := sat_add (ss_profile_dirty_count st2) 1\<rparr>"
  have "upsert_and_mark_dirty h q a t w (header_of s, ?ps) = (Inr (), (?st, ps2))"
    by (simp add: upsert_and_mark_dirty_def upsert_scoped_and_global_query_profiles_locked_def 1(1) 2(1))
  then obtain s' where u: "upsert_scoped_and_global_query_profiles h q a t w s = (Inr (), s')"
    "sm_profiles (sh_mem s') = ps2"
    by (simp add: upsert_scoped_and_global_query_profiles_def with_locked_profiles_eq [OF s])
  have "segment_ok s'" using segment_upsert [OF s w, of h q a t] by (simp add: u(1))
  moreover obtain p where "best_profile s' h q = Some p"
    "p \<in> {observed (profile_at ?ps) (Some h, q) a t w, observed (profile_at ?ps) (None, q) a t w, query_profile_new a t}"
    using put_put_best [OF 1(3) 2(2)] unfolding best_profile_def u(2) [symmetric] by blast
  ultimately show ?thesis using u(1) by blast
qed

text \<open>
  C17: learning. Once the profiles are loaded, recording that a statement wrote some bytes
  succeeds, and the next prediction of the same query in the same scope, by any backend,
  uses a profile that this observation produced: the scoped profile moved by it, the global
  one moved by it, or a fresh one that holds just the observation. The profile has seen a
  maximum of at least the observed bytes, and the prediction is its average, up to the
  configured maximum.
\<close>

theorem observation_teaches_prediction:
  assumes "segment_ok s" and "server_ok v" and "server_ok v'"
    and "sm_profiles (sh_mem s) \<noteq> []"
    and "\<not> restore_due (sv_restore_clock v) PROFILE_RESTORE_STALE_MS (header_of s)"
    and "profile_ewma_alpha_weights (sv_display v) (sv_gucs v) = Inr w"
    and "record_query_observation v h q a t s = (r, s')"
    and "\<not> restore_due (sv_restore_clock v') PROFILE_RESTORE_STALE_MS (header_of s')"
    and "g_predictor (sv_gucs v') = ProfileEwma" and "c \<noteq> ReadOnly"
  shows "r = Inr () \<and> segment_ok s' \<and>
    (\<exists>p \<in> {observed (profile_at (sm_profiles (sh_mem s))) (Some h, q) a t w,
           observed (profile_at (sm_profiles (sh_mem s))) (None, q) a t w, query_profile_new a t}.
       a \<le> qp_max_wal_bytes p
     \<and> fst (predict_context v' \<lparr>px_statement_class = c, px_query_id = Some q, px_scope_hash = h\<rparr> s')
         = min (qp_ewma_wal_bytes p) (max_prediction_bytes (sv_gucs v')))"
proof -
  have loaded: "ensure_catalog_loaded v s = (Inr (), s)"
    using assms(1,2,5) by (simp add: ensure_catalog_loaded_def server_ok_def ensure_loaded_cases(1))
  obtain s1 p where u: "upsert_scoped_and_global_query_profiles h q a t w s = (Inr (), s1)" "segment_ok s1"
    "best_profile s1 h q = Some p"
    "p \<in> {observed (profile_at (sm_profiles (sh_mem s))) (Some h, q) a t w,
           observed (profile_at (sm_profiles (sh_mem s))) (None, q) a t w, query_profile_new a t}"
    using upsert_best [OF assms(1) alpha_weights_ok [OF assms(6)] assms(4)] by blast
  have r: "r = Inr ()" "s' = s1"
    using assms(7) by (simp_all add: record_query_observation_def loaded assms(6) u(1))
  have "ensure_catalog_loaded v' s' = (Inr (), s')"
    using assms(3,8) u(2) r by (simp add: ensure_catalog_loaded_def server_ok_def ensure_loaded_cases(1))
  then have "fst (predict_context v' \<lparr>px_statement_class = c, px_query_id = Some q, px_scope_hash = h\<rparr> s')
      = min (qp_ewma_wal_bytes p) (max_prediction_bytes (sv_gucs v'))"
    using predict_by_profile [OF assms(3), where x = "\<lparr>px_statement_class = c, px_query_id = Some q, px_scope_hash = h\<rparr>"
        and s = s'] assms(9,10) u(2,3) r by (simp add: learned_prediction_def)
  moreover have "a \<le> qp_max_wal_bytes p"
    using u(4) observed_max [OF alpha_weights_ok [OF assms(6)] profile_at_ok [OF segment_profiles_wf [OF assms(1)]]]
    by (auto simp: query_profile_new_def)
  ultimately show ?thesis using u(2,4) r by blast
qed

text \<open>A server on the in-memory segment whose catalog is empty and idle.\<close>

definition idle_store :: "shmem durable_catalog_store" where
  "idle_store = \<lparr>load_enabled_policy_rows = (\<lambda>s. (Inr [], s)), load_profiles = (\<lambda>n s. (Inr [], s)),
     persist_profiles = (\<lambda>ps s. (Inr (), s)), delete_profiles = (\<lambda>s. (Inr (), s))\<rparr>"

definition idle_server :: server where
  "idle_server = \<lparr>sv_gucs = default_gucs, sv_display = (\<lambda>_. []),
     sv_names = \<lparr>sess_role_name = None, sess_database_name = Some ''db'', sess_application_name = None\<rparr>,
     sv_store = idle_store, sv_wait = (\<lambda>i wait s. (0, s)), sv_restore_clock = 1000, sv_persist_clock = 1000,
     sv_clock = 1000, sv_error_clock = 1000, sv_wal_bytes = Some 0\<rparr>"

lemma idle_server_ok: "server_ok idle_server"
  by (simp add: server_ok_def idle_server_def idle_store_def loads_ok_def writes_ok_def
      load_catalog_profiles_def persist_catalog_profiles_def load_profiles_from_def
      persist_profiles_with_def snapshots_ok_def)

lemma upsert_keeps_restore_state:
  assumes "segment_ok s" and "upsert_scoped_and_global_query_profiles h q a t w s = (Inr (), s')"
  shows "ss_profile_restore_state (header_of s') = ss_profile_restore_state (header_of s)"
proof -
  have place: "ss_profile_restore_state (fst (snd (place_profile h' q p reg))) = ss_profile_restore_state (fst reg)"
    for h' p and reg :: profile_region
    by (cases reg) (auto simp: place_profile_def Let_def count_new_profile_def split: option.splits)
  have upsert: "ss_profile_restore_state (fst (snd (upsert_query_profile_locked h' q a t w reg)))
      = ss_profile_restore_state (fst reg)" for h' and reg :: profile_region
    using empty_cache_error [of h' q a t w "fst reg"] place
    by (cases reg; cases "snd reg") (simp_all add: upsert_place)
  have mark: "ss_profile_restore_state (fst (snd (upsert_and_mark_dirty h q a t w reg))) = ss_profile_restore_state (fst reg)"
    for reg :: profile_region
    using upsert [of "Some h" reg] upsert [of None "snd (upsert_query_profile_locked (Some h) q a t w reg)"]
    by (auto simp: upsert_and_mark_dirty_def upsert_scoped_and_global_query_profiles_locked_def sbind_def
        split: prod.splits sum.splits)
  show ?thesis
    using assms(2) mark [of "(header_of s, sm_profiles (sh_mem s))"]
    by (auto simp: upsert_scoped_and_global_query_profiles_def with_locked_profiles_eq [OF assms(1)]
        split: prod.splits)
qed

definition loaded_shmem :: shmem where
  "loaded_shmem = set_header ((header_of started_shmem)
     \<lparr>ss_profile_restore_state := PROFILE_RESTORE_LOADED, ss_profile_restore_started_epoch_ms := 0\<rparr>) started_shmem"

lemma loaded_shmem_ok: "segment_ok loaded_shmem" "sm_profiles (sh_mem loaded_shmem) = sm_profiles (sh_mem started_shmem)"
    "ss_profile_restore_state (header_of loaded_shmem) = PROFILE_RESTORE_LOADED"
proof -
  show "segment_ok loaded_shmem"
    unfolding loaded_shmem_def using started_shmem_ok(1)
    by (intro set_header_ok) simp_all
qed (simp_all add: loaded_shmem_def set_header_def)

lemma loaded_not_due: "ss_profile_restore_state st = PROFILE_RESTORE_LOADED \<Longrightarrow> \<not> restore_due now stale st"
  by (simp add: restore_due_def restore_state_defs)

lemma default_weights: "\<exists>w. profile_ewma_alpha_weights display default_gucs = Inr w"
proof -
  have range: "f64_le MIN_PROFILE_EWMA_ALPHA_VALUE DEFAULT_PROFILE_EWMA_ALPHA_VALUE"
    "f64_le DEFAULT_PROFILE_EWMA_ALPHA_VALUE MAX_PROFILE_EWMA_ALPHA_VALUE"
    using default_gucs_in_range by (simp_all add: gucs_in_range_def default_gucs_def)
  then show ?thesis
    using alpha_weights_Finite [of False 1 "-1" display]
    by (simp add: profile_ewma_alpha_weights_def default_gucs_def DEFAULT_PROFILE_EWMA_ALPHA_VALUE_def)
qed

lemma idle_server_fields: "sv_gucs idle_server = default_gucs" "sv_display idle_server = (\<lambda>_. [])"
    "g_predictor default_gucs = ProfileEwma"
  by (simp_all add: idle_server_def default_gucs_def)

lemma default_predictions: "max_prediction_bytes default_gucs = 1073741824"
    "default_write_wal_bytes default_gucs = 16384"
  by (simp_all add: max_prediction_bytes_def default_write_wal_bytes_def default_gucs_def guc_values
      nonnegative_i32_to_wal_bytes_def)

theorem prediction_spec_witness:
  "predict_context idle_server \<lparr>px_statement_class = Write, px_query_id = None, px_scope_hash = 7\<rparr> started_shmem
    = (16384, started_shmem)"
  using prediction_spec [OF idle_server_ok started_shmem_ok(1),
      where x = "\<lparr>px_statement_class = Write, px_query_id = None, px_scope_hash = 7\<rparr>"]
  by (simp add: predict_fallback_def clamp_prediction_def idle_server_fields default_predictions)

theorem observation_teaches_prediction_witness:
  "\<exists>s'. record_query_observation idle_server 9 42 100 5 loaded_shmem = (Inr (), s')
    \<and> fst (predict_context idle_server \<lparr>px_statement_class = Write, px_query_id = Some 42, px_scope_hash = 9\<rparr> s') = 100"
proof -
  have ne: "sm_profiles (sh_mem loaded_shmem) \<noteq> []"
    using started_profiles_length by (auto simp: loaded_shmem_ok(2))
  have due: "\<not> restore_due (sv_restore_clock idle_server) PROFILE_RESTORE_STALE_MS (header_of loaded_shmem)"
    by (rule loaded_not_due) (rule loaded_shmem_ok(3))
  obtain w where w: "profile_ewma_alpha_weights (sv_display idle_server) (sv_gucs idle_server) = Inr w"
    using default_weights by (auto simp: idle_server_fields)
  obtain r s' where rec: "record_query_observation idle_server 9 42 100 5 loaded_shmem = (r, s')" by (meson surj_pair)
  have loaded: "ensure_catalog_loaded idle_server loaded_shmem = (Inr (), loaded_shmem)"
    using loaded_shmem_ok(1) idle_server_ok due
    by (simp add: ensure_catalog_loaded_def server_ok_def ensure_loaded_cases(1))
  obtain s1 where "upsert_scoped_and_global_query_profiles 9 42 100 5 w loaded_shmem = (Inr (), s1)"
    using upsert_best [OF loaded_shmem_ok(1) alpha_weights_ok [OF w] ne] by blast
  then have "ss_profile_restore_state (header_of s') = PROFILE_RESTORE_LOADED"
    using rec upsert_keeps_restore_state [OF loaded_shmem_ok(1)] loaded_shmem_ok(3)
    by (simp add: record_query_observation_def loaded w)
  then have due': "\<not> restore_due (sv_restore_clock idle_server) PROFILE_RESTORE_STALE_MS (header_of s')"
    by (rule loaded_not_due)
  have none: "observed (profile_at (sm_profiles (sh_mem loaded_shmem))) k 100 5 w = query_profile_new 100 5" for k
    by (simp add: loaded_shmem_ok(2) started_profiles observed_def)
  show ?thesis
    using observation_teaches_prediction [OF loaded_shmem_ok(1) idle_server_ok idle_server_ok ne due w rec due', of Write]
    by (simp add: none idle_server_fields default_predictions rec query_profile_new_def)
qed

end
