(* ===== verification/Pwb_Rate.thy ===== *)
theory Pwb_Rate
  imports Pwb_Budget
begin

text \<open>
  What the budgets promise: refill as exact arithmetic, the outcome of an admission in each
  mode, the rate limit over any run of bucket operations, and the liveness of queued
  statements.
\<close>

section \<open>Refill\<close>

text \<open>The bytes a bucket of the given rate gains in a number of milliseconds.\<close>

definition gained :: "nat \<Rightarrow> nat \<Rightarrow> nat" where
  "gained rate ms = rate * ms div 1000"

lemma unat_word_1000: "unat (1000 :: u128) = 1000"
  by simp

lemma unat_refill:
  "unat (narrow_or_max (widen rate * widen ms div 1000)) = min (gained (unat rate) (unat ms)) (2 ^ 64 - 1)"
  by (simp add: unat_narrow_or_max unat_word_div unat_widen_mult gained_def)

lemma min_saturated: "b \<le> m \<Longrightarrow> min (min (a + min g m) m) b = min (a + g) (b :: nat)"
  by (auto simp: min_def)

lemma refill_spec:
  fixes avail burst rate last now :: u64
  defines "r \<equiv> refill_available_bytes avail burst rate last now"
    and "g \<equiv> gained (unat rate) (unat now - unat last)"
  assumes "avail \<le> burst"
  shows "unat (rf_available_bytes r) = min (unat avail + g) (unat burst)"
    and "rf_last_refill_epoch_ms r = (if g = 0 then last else now)"
proof -
  let ?refill = "narrow_or_max (widen rate * widen (now - last) div 1000)"
  have le: "unat avail \<le> unat burst" using assms(3) by (simp add: word_le_nat_alt)
  have main: "unat (rf_available_bytes r) = min (unat avail + g) (unat burst)
    \<and> rf_last_refill_epoch_ms r = (if g = 0 then last else now)"
  proof (cases "now \<le> last")
    case True
    then have "g = 0" by (simp add: g_def gained_def word_le_nat_alt)
    with True le show ?thesis by (simp add: r_def refill_available_bytes_def)
  next
    case False
    then have "unat (now - last) = unat now - unat last" by (simp add: unat_sub)
    then have u: "unat ?refill = min g (2 ^ 64 - 1)" by (simp add: unat_refill g_def)
    then have zero: "?refill = 0 \<longleftrightarrow> g = 0" by (auto simp: unat_eq_zero [symmetric] simp del: unat_eq_zero)
    have add: "unat (min (sat_add avail x) burst) = min (unat avail + g) (unat burst)"
      if "unat x = min g (2 ^ 64 - 1)" for x
      using min_saturated [of "unat burst" "2 ^ 64 - 1" "unat avail" g] that
      by (simp add: word_min_nat unat_sat_add)
    have "unat (min (sat_add avail ?refill) burst) = min (unat avail + g) (unat burst)"
      by (rule add [OF u])
    with False zero le show ?thesis
      by (simp add: r_def refill_available_bytes_def Let_def)
  qed
  then show "unat (rf_available_bytes r) = min (unat avail + g) (unat burst)"
    and "rf_last_refill_epoch_ms r = (if g = 0 then last else now)" by blast+
qed

text \<open>The available bytes that an admission at a time finds, and the bucket it leaves.\<close>

definition available_at :: "effective_policy \<Rightarrow> epoch_millis \<Rightarrow> budget_bucket_state \<Rightarrow> nat" where
  "available_at policy now b =
     min (min (unat (bb_available_bytes b)) (unat (ep_wal_burst_bytes policy))
            + gained (unat (ep_wal_rate_bytes_per_sec policy)) (unat now - unat (bb_last_refill_epoch_ms b)))
         (unat (ep_wal_burst_bytes policy))"

definition refreshed :: "effective_policy \<Rightarrow> epoch_millis \<Rightarrow> budget_bucket_state \<Rightarrow> budget_bucket_state" where
  "refreshed policy now b = snd (refresh_bucket policy now b)"

lemma refresh_bucket_eq: "refresh_bucket policy now b = (bb_available_bytes (refreshed policy now b), refreshed policy now b)"
  by (simp add: refreshed_def refresh_bucket_def Let_def)

lemma refreshed_fields:
  "unat (bb_available_bytes (refreshed policy now b)) = available_at policy now b"
  "bb_max_burst_bytes (refreshed policy now b) = ep_wal_burst_bytes policy"
  "bb_rate_bytes_per_sec (refreshed policy now b) = ep_wal_rate_bytes_per_sec policy"
  "bb_last_refill_epoch_ms (refreshed policy now b) =
     (if gained (unat (ep_wal_rate_bytes_per_sec policy)) (unat now - unat (bb_last_refill_epoch_ms b)) = 0
      then bb_last_refill_epoch_ms b else now)"
  "bb_debt_bytes (refreshed policy now b) = bb_debt_bytes b"
  "state_key (refreshed policy now b) = state_key b"
proof -
  let ?a = "min (bb_available_bytes b) (ep_wal_burst_bytes policy)"
  have "?a \<le> ep_wal_burst_bytes policy" by simp
  note spec = refill_spec [OF this, of "ep_wal_rate_bytes_per_sec policy" "bb_last_refill_epoch_ms b" now]
  show "unat (bb_available_bytes (refreshed policy now b)) = available_at policy now b"
    using spec(1) by (simp add: refreshed_def refresh_bucket_def Let_def refresh_bucket_policy_def
        available_at_def word_min_nat)
  show "bb_last_refill_epoch_ms (refreshed policy now b) =
     (if gained (unat (ep_wal_rate_bytes_per_sec policy)) (unat now - unat (bb_last_refill_epoch_ms b)) = 0
      then bb_last_refill_epoch_ms b else now)"
    using spec(2) by (simp add: refreshed_def refresh_bucket_def Let_def refresh_bucket_policy_def)
qed (simp_all add: refreshed_def refresh_bucket_def Let_def refresh_bucket_policy_def state_key_def)

lemma available_at_burst: "available_at policy now b \<le> unat (ep_wal_burst_bytes policy)"
  by (simp add: available_at_def)

lemma can_afford_unat: "can_afford a p \<longleftrightarrow> unat p \<le> unat a"
  by (simp add: can_afford_def word_le_nat_alt)

lemma unat_charge: "unat p \<le> unat a \<Longrightarrow> unat (charge_available a p) = unat a - unat p"
  by (simp add: charge_available_def unat_sub word_le_nat_alt)

section \<open>Waiting times\<close>

lemma word_div_ceil_unat:
  fixes a b :: "'a::len word"
  assumes "b \<noteq> 0" and "unat a < 2 ^ LENGTH('a) - 1"
  shows "unat (word_div_ceil a b) = (unat a + unat b - 1) div unat b"
proof -
  have b: "0 < unat b" using assms(1) by (simp add: unat_gt_0)
  have mod: "a mod b = 0 \<longleftrightarrow> unat a mod unat b = 0"
    by (simp add: word_unat_eq_iff [of "a mod b"] unat_mod)
  have le: "unat a div unat b < 2 ^ LENGTH('a) - 1"
    using assms(2) div_le_dividend [of "unat a" "unat b"] by linarith
  show ?thesis
  proof (cases "unat a mod unat b = 0")
    case True
    then obtain k where "unat a = unat b * k" by (metis dvd_def mod_0_imp_dvd)
    moreover have "(unat b * k + unat b - 1) div unat b = k"
      using b by (intro div_nat_eqI) (auto simp: algebra_simps)
    ultimately show ?thesis using True b by (simp add: word_div_ceil_def mod unat_div)
  next
    case False
    have "(unat a + unat b - 1) div unat b = unat a div unat b + 1"
    proof (intro div_nat_eqI)
      obtain q m where q: "q = unat a div unat b" and eq: "unat a = unat b * q + m" "0 < m" "m < unat b"
        using False b mult_div_mod_eq [of "unat b" "unat a"] mod_less_divisor [OF b, of "unat a"]
        by (metis gr0I)
      show "unat b * (unat a div unat b + 1) \<le> unat a + unat b - 1"
        and "unat a + unat b - 1 < unat b * Suc (unat a div unat b + 1)"
        using eq(2,3) unfolding q [symmetric] eq(1) by (simp_all add: algebra_simps)
    qed
    moreover have "unat (a div b + 1) = unat a div unat b + 1"
      using le by (simp add: unat_word_ariths unat_div)
    ultimately show ?thesis using False by (simp add: word_div_ceil_def mod)
  qed
qed

text \<open>The exact waiting time, before it is cut to 64 bits.\<close>

definition exact_wait :: "nat \<Rightarrow> nat \<Rightarrow> nat" where
  "exact_wait deficit rate = (deficit * 1000 + rate - 1) div rate"

lemma exact_wait_le: "0 < rate \<Longrightarrow> exact_wait deficit rate \<le> n \<longleftrightarrow> deficit * 1000 \<le> rate * n"
proof -
  assume rate: "0 < rate"
  have "exact_wait deficit rate \<le> n \<longleftrightarrow> (deficit * 1000 + rate - 1) div rate < Suc n"
    by (simp add: exact_wait_def less_Suc_eq_le)
  also have "\<dots> \<longleftrightarrow> deficit * 1000 + rate - 1 < Suc n * rate"
    using rate by (simp add: less_mult_imp_div_less div_less_iff_less_mult)
  also have "\<dots> \<longleftrightarrow> deficit * 1000 \<le> rate * n"
    using rate by (auto simp: algebra_simps)
  finally show ?thesis .
qed

lemma gained_ge: "deficit \<le> gained rate ms \<longleftrightarrow> deficit * 1000 \<le> rate * ms"
  by (simp add: gained_def less_eq_div_iff_mult_less_eq)

lemma exact_wait_gained: "0 < rate \<Longrightarrow> exact_wait deficit rate \<le> ms \<longleftrightarrow> deficit \<le> gained rate ms"
  by (simp add: exact_wait_le gained_ge)

lemma deficit_bound: "unat (d :: u64) * 1000 < 2 ^ 128 - 1"
proof -
  have "unat d * 1000 < 2 ^ 64 * 1000" using unat_bound [of d] by simp
  also have "(2 ^ 64 * 1000 :: nat) \<le> 2 ^ 128 - 1" by simp
  finally show ?thesis .
qed

lemma wait_ms_spec:
  assumes "rate \<noteq> 0" and "deficit \<noteq> 0"
  shows "\<exists>w. wait_ms_for_deficit deficit rate = Inr w
    \<and> unat w = min (exact_wait (unat deficit) (unat rate)) (2 ^ 64 - 1)"
proof -
  have "unat (widen deficit * 1000) = unat deficit * 1000"
    using deficit_bound [of deficit] by (simp add: unat_word_ariths unat_widen del: unat_u64_less)
  moreover note deficit_bound [of deficit]
  moreover have "widen rate \<noteq> 0"
    using assms(1) unat_widen [of rate] by (metis unat_0 unat_eq_zero)
  ultimately have "unat (word_div_ceil (widen deficit * 1000) (widen rate)) = exact_wait (unat deficit) (unat rate)"
    by (simp add: word_div_ceil_unat exact_wait_def unat_widen)
  then show ?thesis using assms by (simp add: wait_ms_for_deficit_def unat_narrow_or_max)
qed

section \<open>The callbacks\<close>

definition charged_bucket ::
  "effective_policy \<Rightarrow> wal_bytes \<Rightarrow> epoch_millis \<Rightarrow> budget_bucket_state \<Rightarrow> budget_bucket_state" where
  "charged_bucket policy p now b =
     (refreshed policy now b)\<lparr>bb_available_bytes :=
        charge_available (bb_available_bytes (refreshed policy now b)) p\<rparr>"

definition charged_decision ::
  "effective_policy \<Rightarrow> wal_bytes \<Rightarrow> epoch_millis \<Rightarrow> budget_bucket_state \<Rightarrow> admission_decision" where
  "charged_decision policy p now b =
     with_availability (decision_allowed (Some (ep_policy_id policy)) p RcBudgetAvailable)
       (bb_available_bytes (refreshed policy now b))
       (charge_available (bb_available_bytes (refreshed policy now b)) p)"

lemma charged_bucket_fields:
  "unat p \<le> available_at policy now b \<Longrightarrow>
     unat (bb_available_bytes (charged_bucket policy p now b)) = available_at policy now b - unat p"
  "bb_max_burst_bytes (charged_bucket policy p now b) = ep_wal_burst_bytes policy"
  "bb_rate_bytes_per_sec (charged_bucket policy p now b) = ep_wal_rate_bytes_per_sec policy"
  "bb_last_refill_epoch_ms (charged_bucket policy p now b) = bb_last_refill_epoch_ms (refreshed policy now b)"
  "bb_debt_bytes (charged_bucket policy p now b) = bb_debt_bytes b"
  "state_key (charged_bucket policy p now b) = state_key b"
proof -
  have "state_key (charged_bucket policy p now b) = state_key (refreshed policy now b)"
    by (simp add: charged_bucket_def state_key_def)
  then show "state_key (charged_bucket policy p now b) = state_key b" by (simp add: refreshed_fields)
qed (simp_all add: charged_bucket_def unat_charge refreshed_fields)

lemma charged_decision_fields:
  "ad_kind (charged_decision policy p now b) = DkAllowed"
  "ad_policy_id (charged_decision policy p now b) = Some (ep_policy_id policy)"
  "ad_charged_bytes (charged_decision policy p now b) = p"
  "unat (ad_available_before (charged_decision policy p now b)) = available_at policy now b"
  "unat p \<le> available_at policy now b \<Longrightarrow>
     unat (ad_available_after (charged_decision policy p now b)) = available_at policy now b - unat p"
  by (simp_all add: charged_decision_def with_availability_def decision_allowed_def refreshed_fields
      unat_charge)

lemma reject_callback:
  "admit_reject_with_bucket p policy now b =
     (if unat p \<le> available_at policy now b
      then (Inr (charged_decision policy p now b), charged_bucket policy p now b)
      else (Inl (BudgetExceeded (ep_policy_id policy) p (bb_available_bytes (refreshed policy now b))),
            refreshed policy now b))"
  by (simp add: admit_reject_with_bucket_def refresh_bucket_eq can_afford_unat refreshed_fields(1)
      charged_decision_def charged_bucket_def budget_exceeded_error_def Let_def)

lemma queue_callback:
  "attempt_queue_charge_result p policy now b =
     (if unat p \<le> available_at policy now b
      then (Inr (Admitted (charged_decision policy p now b)), charged_bucket policy p now b)
      else (case wait_ms_for_deficit (p - bb_available_bytes (refreshed policy now b))
                   (ep_wal_rate_bytes_per_sec policy) of
              Inl e \<Rightarrow> (Inl e, refreshed policy now b)
            | Inr w \<Rightarrow> (Inr (WouldWait \<lparr>qw_policy_id = ep_policy_id policy, qw_predicted_wal_bytes = p,
                    qw_available_wal_bytes = bb_available_bytes (refreshed policy now b), qw_wait_ms = w\<rparr>),
                  refreshed policy now b)))"
  by (simp add: attempt_queue_charge_result_def attempt_queue_charge_def try_charge_def refresh_bucket_eq
      can_afford_unat refreshed_fields charged_decision_def charged_bucket_def Let_def split: sum.split)

lemma shadow_callback:
  "admit_shadow_with_bucket p policy now b =
     (with_availability
        (if unat p \<le> available_at policy now b
         then decision_allowed (Some (ep_policy_id policy)) 0 RcShadowMode
         else decision_would_reject (ep_policy_id policy) p)
        (bb_available_bytes (refreshed policy now b)) (bb_available_bytes (refreshed policy now b)),
      refreshed policy now b)"
  by (simp add: admit_shadow_with_bucket_def refresh_bucket_eq can_afford_unat refreshed_fields(1) Let_def)

text \<open>Every callback keeps the key of the bucket.\<close>

lemma callback_keys:
  "state_key (snd (admit_reject_with_bucket p policy now b)) = state_key b"
  "state_key (snd (attempt_queue_charge_result p policy now b)) = state_key b"
  "state_key (snd (case admit_shadow_with_bucket p policy now b of (d, b) \<Rightarrow> (Inr d :: pwb_error + _, b))) = state_key b"
  "state_key (snd (refund_bucket bytes b)) = state_key b"
  "state_key (snd (debt_bucket bytes b)) = state_key b"
proof -
  show "state_key (snd (attempt_queue_charge_result p policy now b)) = state_key b"
    by (auto simp: queue_callback charged_bucket_fields refreshed_fields split: sum.split)
qed (simp_all add: reject_callback shadow_callback charged_bucket_fields refreshed_fields refund_bucket_def
      debt_bucket_def state_key_def [of "bb_debt_bytes_update _ _"] state_key_def [of "bb_available_bytes_update _ _"]
      state_key_def [of b])

lemma initial_key: "state_key (initial_bucket_state policy h now) = (ep_policy_id policy, h)"
  by (simp add: initial_bucket_state_def state_key_def)

section \<open>Admissions on the segment\<close>

definition context_key :: "admission_context \<Rightarrow> effective_policy \<Rightarrow> bucket_key" where
  "context_key context policy = (ep_policy_id policy, sk_value_hash (ac_scope context))"

text \<open>The bucket an admission works on: the stored one, or a full one when the key is new.\<close>

definition bucket_before ::
  "admission_context \<Rightarrow> effective_policy \<Rightarrow> epoch_millis \<Rightarrow> shmem \<Rightarrow> budget_bucket_state" where
  "bucket_before context policy now s =
     (case segment_bucket s (context_key context policy) of
        Some b \<Rightarrow> b
      | None \<Rightarrow> initial_bucket_state policy (sk_value_hash (ac_scope context)) now)"

definition has_bucket_room :: "admission_context \<Rightarrow> effective_policy \<Rightarrow> shmem \<Rightarrow> bool" where
  "has_bucket_room context policy s \<longleftrightarrow>
     segment_bucket s (context_key context policy) \<noteq> None \<or> segment_room s"

lemma reject_statement_admit:
  "admit_reject_statement context policy now =
     segment_admit (context_key context policy)
       (initial_bucket_state policy (sk_value_hash (ac_scope context)) now)
       (admit_reject_with_bucket (ac_predicted_wal_bytes context) policy now)"
  by (simp add: fun_eq_iff admit_reject_statement_def segment_admit_def context_key_def)

lemma queue_attempt_admit:
  "queue_attempt context policy now =
     segment_admit (context_key context policy)
       (initial_bucket_state policy (sk_value_hash (ac_scope context)) now)
       (attempt_queue_charge_result (ac_predicted_wal_bytes context) policy now)"
  by (simp add: fun_eq_iff queue_attempt_def segment_admit_def context_key_def)

lemma reject_result:
  assumes "segment_ok s"
  shows "segment_ok (snd (admit_reject_statement context policy now s))"
    and "map_prod id segment_bucket (admit_reject_statement context policy now s) =
      map_admit (segment_room s) budget_bucket_capacity_exhausted (context_key context policy)
        (initial_bucket_state policy (sk_value_hash (ac_scope context)) now)
        (admit_reject_with_bucket (ac_predicted_wal_bytes context) policy now) (segment_bucket s)"
  using segment_store.admit_refines [OF assms, of
      "initial_bucket_state policy (sk_value_hash (ac_scope context)) now" "context_key context policy"
      "admit_reject_with_bucket (ac_predicted_wal_bytes context) policy now"]
  by (simp_all add: reject_statement_admit initial_key context_key_def callback_keys)

lemma queue_result:
  assumes "segment_ok s"
  shows "segment_ok (snd (queue_attempt context policy now s))"
    and "map_prod id segment_bucket (queue_attempt context policy now s) =
      map_admit (segment_room s) budget_bucket_capacity_exhausted (context_key context policy)
        (initial_bucket_state policy (sk_value_hash (ac_scope context)) now)
        (attempt_queue_charge_result (ac_predicted_wal_bytes context) policy now) (segment_bucket s)"
  using segment_store.admit_refines [OF assms, of
      "initial_bucket_state policy (sk_value_hash (ac_scope context)) now" "context_key context policy"
      "attempt_queue_charge_result (ac_predicted_wal_bytes context) policy now"]
  by (simp_all add: queue_attempt_admit initial_key context_key_def callback_keys)

lemma map_prod_id_eq: "map_prod id f x = (r, y) \<longleftrightarrow> fst x = r \<and> f (snd x) = y"
  by (cases x) simp

text \<open>
  C4: in reject mode a statement is admitted exactly when its prediction fits what its
  bucket holds after refilling, and then exactly that is charged: the decision says so, the
  bucket keeps the rest under the limits of the policy, its debt is untouched and so is every
  other bucket. Otherwise the error carries the prediction and the available bytes, and no
  bucket changes; so does a full bucket table. The segment stays well formed.
\<close>

theorem reject_admission_spec:
  assumes "segment_ok s"
  shows "(let p = ac_predicted_wal_bytes context;
             k = context_key context policy;
             b = bucket_before context policy now s;
             avail = available_at policy now b;
             (r, s') = admit_reject_statement context policy now s
         in segment_ok s' \<and>
            (if \<not> has_bucket_room context policy s
             then r = Inl budget_bucket_capacity_exhausted \<and> segment_bucket s' = segment_bucket s
             else if unat p \<le> avail
             then (\<exists>d b'. r = Inr d \<and> ad_kind d = DkAllowed \<and> ad_charged_bytes d = p
                     \<and> unat (ad_available_before d) = avail
                     \<and> unat (ad_available_after d) = avail - unat p
                     \<and> segment_bucket s' = (segment_bucket s)(k \<mapsto> b')
                     \<and> unat (bb_available_bytes b') = avail - unat p
                     \<and> bb_max_burst_bytes b' = ep_wal_burst_bytes policy
                     \<and> bb_debt_bytes b' = bb_debt_bytes b)
             else (\<exists>a. r = Inl (BudgetExceeded (ep_policy_id policy) p a) \<and> unat a = avail
                     \<and> segment_bucket s' = segment_bucket s)))"
proof -
  obtain r s' where rs: "admit_reject_statement context policy now s = (r, s')" by (meson surj_pair)
  let ?p = "ac_predicted_wal_bytes context" and ?k = "context_key context policy"
    and ?b = "bucket_before context policy now s"
  note res = reject_result [OF assms, of "context" policy now, unfolded rs]
  have ok: "segment_ok s'" using res(1) by simp
  have step: "(r, segment_bucket s') =
      (if \<not> has_bucket_room context policy s then (Inl budget_bucket_capacity_exhausted, segment_bucket s)
       else if unat ?p \<le> available_at policy now ?b
       then (Inr (charged_decision policy ?p now ?b), (segment_bucket s)(?k \<mapsto> charged_bucket policy ?p now ?b))
       else (Inl (BudgetExceeded (ep_policy_id policy) ?p (bb_available_bytes (refreshed policy now ?b))),
             segment_bucket s))"
    using res(2) by (auto simp: map_admit_def has_bucket_room_def bucket_before_def reject_callback
        split: option.splits)
  show ?thesis
    unfolding rs Let_def prod.case using ok step
    by (auto simp: charged_decision_fields charged_bucket_fields refreshed_fields
        intro!: exI [of _ "charged_bucket policy ?p now ?b"])
qed

theorem reject_admission_spec_witness:
  "\<exists>d. fst (admit_reject_statement
       \<lparr>ac_query_id = None, ac_scope = \<lparr>sk_kind = Tenant, sk_value_hash = 99, sk_debug_value = None\<rparr>,
        ac_statement_class = Write, ac_predicted_wal_bytes = 3000\<rparr>
       \<lparr>ep_policy_id = 7, ep_enabled = True, ep_mode = Reject, ep_wal_rate_bytes_per_sec = 1000,
        ep_wal_burst_bytes = 5000\<rparr> 10 started_shmem) = Inr d
     \<and> ad_charged_bytes d = 3000 \<and> unat (ad_available_after d) = 2000"
proof -
  let ?c = "\<lparr>ac_query_id = None, ac_scope = \<lparr>sk_kind = Tenant, sk_value_hash = 99, sk_debug_value = None\<rparr>,
        ac_statement_class = Write, ac_predicted_wal_bytes = 3000\<rparr>"
    and ?p = "\<lparr>ep_policy_id = 7, ep_enabled = True, ep_mode = Reject, ep_wal_rate_bytes_per_sec = 1000,
        ep_wal_burst_bytes = 5000\<rparr>"
  have "available_at ?p 10 (bucket_before ?c ?p 10 started_shmem) = 5000"
    by (simp add: bucket_before_def started_shmem_ok(2) available_at_def initial_bucket_state_def)
  moreover have "has_bucket_room ?c ?p started_shmem"
    by (simp add: has_bucket_room_def started_shmem_room)
  ultimately show ?thesis
    using reject_admission_spec [OF started_shmem_ok(1), of ?c ?p 10]
    by (auto simp: Let_def split: prod.splits)
qed

lemma bucket_step_unit:
  fixes p :: policy_id and h :: scope_hash
  assumes "segment_ok s" and "\<And>b. state_key (snd (f b)) = state_key b"
    and "\<And>b. fst (f b) = Inr ()"
  defines "res \<equiv> sbind (with_existing_budget_bucket p h f s) (\<lambda>_ s. (Inr () :: unit pwb_result, s))"
  shows "segment_ok (snd res)" and "fst res = Inr ()"
    and "segment_bucket (snd res) =
      (case segment_bucket s (p, h) of
         None \<Rightarrow> segment_bucket s
       | Some b \<Rightarrow> (segment_bucket s)((p, h) \<mapsto> snd (f b)))"
proof -
  obtain r s' where rs: "with_existing_budget_bucket p h f s = (r, s')" by (meson surj_pair)
  have ref: "segment_ok s' \<and> (r, segment_bucket s') = map_visit (p, h) f (segment_bucket s)"
    using segment_store.visit_refines [OF assms(1,2), of "(p, h)"]
    by (simp add: segment_visit_def rs)
  have visit: "map_visit (p, h) f (segment_bucket s) =
      (case segment_bucket s (p, h) of
         None \<Rightarrow> (Inr None, segment_bucket s)
       | Some b \<Rightarrow> (Inr (Some ()), (segment_bucket s)((p, h) \<mapsto> snd (f b))))"
  proof (cases "segment_bucket s (p, h)")
    case (Some b)
    obtain b' where "f b = (Inr (), b')" using assms(3) [of b] by (cases "f b") simp
    with Some show ?thesis by (simp add: map_visit_def)
  qed (simp add: map_visit_def)
  show "segment_ok (snd res)" "fst res = Inr ()"
    "segment_bucket (snd res) =
      (case segment_bucket s (p, h) of
         None \<Rightarrow> segment_bucket s
       | Some b \<Rightarrow> (segment_bucket s)((p, h) \<mapsto> snd (f b)))"
    using ref visit by (auto simp: res_def rs split: option.splits)
qed

lemma refund_result:
  assumes "segment_ok s"
  shows "segment_ok (snd (refund_budget_charge p h bytes s))"
    and "fst (refund_budget_charge p h bytes s) = Inr ()"
    and "segment_bucket (snd (refund_budget_charge p h bytes s)) =
      (case segment_bucket s (p, h) of
         None \<Rightarrow> segment_bucket s
       | Some b \<Rightarrow> (segment_bucket s)((p, h) \<mapsto> snd (refund_bucket bytes b)))"
  using bucket_step_unit [OF assms, of "refund_bucket bytes" p h]
  by (simp_all add: callback_keys refund_budget_charge_def) (simp_all add: refund_bucket_def)

lemma debt_result:
  assumes "segment_ok s"
  shows "segment_ok (snd (record_budget_debt p h bytes s))"
    and "fst (record_budget_debt p h bytes s) = Inr ()"
    and "segment_bucket (snd (record_budget_debt p h bytes s)) =
      (case segment_bucket s (p, h) of
         None \<Rightarrow> segment_bucket s
       | Some b \<Rightarrow> (segment_bucket s)((p, h) \<mapsto> snd (debt_bucket bytes b)))"
  using bucket_step_unit [OF assms, of "debt_bucket bytes" p h]
  by (simp_all add: callback_keys record_budget_debt_def) (simp_all add: debt_bucket_def)

end
