(* ===== verification/Pwb_Limit.thy ===== *)
theory Pwb_Limit
  imports Pwb_Rate
begin

text \<open>
  The rate limit. A run is any sequence of operations on the buckets by any backends; the
  bytes charged to one bucket over the run are bounded by its burst, what its rate yields in
  the time span, and the refunds. The proof is a potential argument: the credit of a bucket
  is its available bytes plus what it can still gain until the end of the span.
\<close>

section \<open>Runs of bucket operations\<close>

datatype budget_op =
    OpReject admission_context effective_policy epoch_millis
  | OpQueue admission_context effective_policy epoch_millis
  | OpShadow admission_context effective_policy epoch_millis
  | OpRefund policy_id scope_hash wal_bytes
  | OpDebt policy_id scope_hash wal_bytes

fun op_key :: "budget_op \<Rightarrow> bucket_key" where
  "op_key (OpReject c policy now) = context_key c policy"
| "op_key (OpQueue c policy now) = context_key c policy"
| "op_key (OpShadow c policy now) = context_key c policy"
| "op_key (OpRefund p h bytes) = (p, h)"
| "op_key (OpDebt p h bytes) = (p, h)"

definition charged_by :: "admission_decision pwb_result \<Rightarrow> nat" where
  "charged_by r =
     (case r of Inl _ \<Rightarrow> 0 | Inr d \<Rightarrow> if ad_kind d = DkAllowed then unat (ad_charged_bytes d) else 0)"

text \<open>One operation: the bytes it charged and the segment after it.\<close>

fun budget_step :: "budget_op \<Rightarrow> shmem \<Rightarrow> nat \<times> shmem" where
  "budget_step (OpReject c policy now) s =
     (case admit_reject_statement c policy now s of (r, s) \<Rightarrow> (charged_by r, s))"
| "budget_step (OpQueue c policy now) s =
     (case queue_attempt c policy now s of
        (Inr (Admitted d), s) \<Rightarrow> (charged_by (Inr d), s)
      | (_, s) \<Rightarrow> (0, s))"
| "budget_step (OpShadow c policy now) s =
     (case admit_shadow_statement c policy now s of (r, s) \<Rightarrow> (charged_by r, s))"
| "budget_step (OpRefund p h bytes) s = (0, snd (refund_budget_charge p h bytes s))"
| "budget_step (OpDebt p h bytes) s = (0, snd (record_budget_debt p h bytes s))"

fun run_budget :: "budget_op list \<Rightarrow> shmem \<Rightarrow> shmem" where
  "run_budget [] s = s"
| "run_budget (op # ops) s = run_budget ops (snd (budget_step op s))"

fun charged_to :: "bucket_key \<Rightarrow> budget_op list \<Rightarrow> shmem \<Rightarrow> nat" where
  "charged_to k [] s = 0"
| "charged_to k (op # ops) s =
     (if op_key op = k then fst (budget_step op s) else 0) + charged_to k ops (snd (budget_step op s))"

fun refund_of :: "bucket_key \<Rightarrow> budget_op \<Rightarrow> nat" where
  "refund_of k (OpRefund p h bytes) = (if (p, h) = k then unat bytes else 0)"
| "refund_of k _ = 0"

definition refunded_to :: "bucket_key \<Rightarrow> budget_op list \<Rightarrow> nat" where
  "refunded_to k ops = sum_list (map (refund_of k) ops)"

text \<open>
  The operations on a bucket use its policy, of the given rate and burst, at times in the
  span from \<open>t0\<close> to \<open>t\<close>; operations on other buckets are arbitrary.
\<close>

definition policy_in :: "nat \<Rightarrow> nat \<Rightarrow> nat \<Rightarrow> nat \<Rightarrow> effective_policy \<Rightarrow> epoch_millis \<Rightarrow> bool" where
  "policy_in rate burst t0 t policy now \<longleftrightarrow>
     unat (ep_wal_rate_bytes_per_sec policy) = rate \<and> unat (ep_wal_burst_bytes policy) = burst
   \<and> t0 \<le> unat now \<and> unat now \<le> t"

fun op_within :: "bucket_key \<Rightarrow> nat \<Rightarrow> nat \<Rightarrow> nat \<Rightarrow> nat \<Rightarrow> budget_op \<Rightarrow> bool" where
  "op_within k rate burst t0 t (OpReject c policy now) = (context_key c policy = k \<longrightarrow> policy_in rate burst t0 t policy now)"
| "op_within k rate burst t0 t (OpQueue c policy now) = (context_key c policy = k \<longrightarrow> policy_in rate burst t0 t policy now)"
| "op_within k rate burst t0 t (OpShadow c policy now) = (context_key c policy = k \<longrightarrow> policy_in rate burst t0 t policy now)"
| "op_within k rate burst t0 t _ = True"

section \<open>Credit\<close>

definition bucket_credit :: "nat \<Rightarrow> nat \<Rightarrow> nat \<Rightarrow> budget_bucket_state \<Rightarrow> nat" where
  "bucket_credit rate burst t b =
     1000 * min (unat (bb_available_bytes b)) burst + rate * (t - unat (bb_last_refill_epoch_ms b))"

definition store_credit :: "nat \<Rightarrow> nat \<Rightarrow> nat \<Rightarrow> nat \<Rightarrow> budget_bucket_state option \<Rightarrow> nat" where
  "store_credit rate burst t0 t b =
     (case b of
        None \<Rightarrow> 1000 * burst + rate * (t - t0)
      | Some b \<Rightarrow> bucket_credit rate burst t b)"

lemma gained_times: "1000 * gained rate ms \<le> rate * ms"
  by (simp add: gained_def)

lemma refreshed_credit:
  assumes "policy_in rate burst t0 t policy now"
  shows "1000 * available_at policy now b + rate * (t - unat (bb_last_refill_epoch_ms (refreshed policy now b)))
    \<le> bucket_credit rate burst t b"
proof -
  let ?last = "unat (bb_last_refill_epoch_ms b)" and ?a = "min (unat (bb_available_bytes b)) burst"
  let ?g = "gained rate (unat now - ?last)"
  have p: "unat (ep_wal_rate_bytes_per_sec policy) = rate" "unat (ep_wal_burst_bytes policy) = burst"
    "unat now \<le> t" using assms by (simp_all add: policy_in_def)
  have avail: "available_at policy now b \<le> ?a + ?g" by (simp add: available_at_def p)
  show ?thesis
  proof (cases "?g = 0")
    case True
    then show ?thesis using avail by (simp add: refreshed_fields p bucket_credit_def)
  next
    case False
    then have lt: "?last < unat now" by (cases "?last < unat now") (auto simp: gained_def)
    have "rate * (unat now - ?last) + rate * (t - unat now) = rate * (t - ?last)"
      using lt p(3) by (simp flip: distrib_left)
    then have "1000 * available_at policy now b + rate * (t - unat now) \<le> 1000 * ?a + rate * (t - ?last)"
      using avail gained_times [of rate "unat now - ?last"] by linarith
    then show ?thesis using False by (simp add: refreshed_fields p bucket_credit_def)
  qed
qed

lemma refreshed_bucket_credit:
  assumes "policy_in rate burst t0 t policy now"
  shows "bucket_credit rate burst t (refreshed policy now b) \<le> bucket_credit rate burst t b"
proof -
  have "min (available_at policy now b) burst = available_at policy now b"
    using available_at_burst [of policy now b] assms by (simp add: policy_in_def)
  with refreshed_credit [OF assms, of b] show ?thesis
    by (simp add: bucket_credit_def refreshed_fields(1))
qed

lemma charged_bucket_credit:
  assumes "policy_in rate burst t0 t policy now" and "unat p \<le> available_at policy now b"
  shows "1000 * unat p + bucket_credit rate burst t (charged_bucket policy p now b) \<le> bucket_credit rate burst t b"
proof -
  have "min (available_at policy now b - unat p) burst = available_at policy now b - unat p"
    using available_at_burst [of policy now b] assms(1) by (simp add: policy_in_def)
  then have "1000 * unat p + bucket_credit rate burst t (charged_bucket policy p now b)
      = 1000 * available_at policy now b + rate * (t - unat (bb_last_refill_epoch_ms (refreshed policy now b)))"
    using assms(2) by (simp add: bucket_credit_def charged_bucket_fields)
  then show ?thesis using refreshed_credit [OF assms(1), of b] by simp
qed

lemma initial_credit:
  assumes "policy_in rate burst t0 t policy now"
  shows "bucket_credit rate burst t (initial_bucket_state policy h now) \<le> store_credit rate burst t0 t None"
  using assms by (auto simp: bucket_credit_def store_credit_def initial_bucket_state_def policy_in_def
      intro!: mult_left_mono)

lemma before_credit:
  assumes "policy_in rate burst t0 t policy now"
  shows "bucket_credit rate burst t (case m of Some b \<Rightarrow> b | None \<Rightarrow> initial_bucket_state policy h now)
    \<le> store_credit rate burst t0 t m"
  using initial_credit [OF assms] by (cases m) (simp_all add: store_credit_def)

section \<open>One step\<close>

text \<open>The charge of a step on its own bucket is paid from the credit.\<close>

definition pays ::
  "bucket_key \<Rightarrow> nat \<Rightarrow> nat \<Rightarrow> nat \<Rightarrow> nat \<Rightarrow> budget_op \<Rightarrow> shmem \<Rightarrow> nat \<times> shmem \<Rightarrow> bool" where
  "pays k rate burst t0 t op s cs \<longleftrightarrow>
     segment_ok (snd cs) \<and>
     (if op_key op = k then 1000 * fst cs else 0) + store_credit rate burst t0 t (segment_bucket (snd cs) k)
       \<le> store_credit rate burst t0 t (segment_bucket s k) + 1000 * refund_of k op"

lemma admit_pays:
  assumes ok: "segment_ok s'"
    and step: "(r, segment_bucket s') = map_admit room full k' i f (segment_bucket s)"
    and key: "op_key op = k'"
    and spend: "k' = k \<Longrightarrow> (\<exists>b'. segment_bucket s' k = Some b'
        \<and> 1000 * c + store_credit rate burst t0 t (Some b') \<le> store_credit rate burst t0 t (segment_bucket s k))
      \<or> segment_bucket s' k = segment_bucket s k \<and> c = 0"
  shows "pays k rate burst t0 t op s (c, s')"
proof (cases "k' = k")
  case False
  then have "segment_bucket s' k = segment_bucket s k"
    using step by (auto simp: map_admit_def split: if_splits prod.splits sum.splits)
  with False ok key show ?thesis by (simp add: pays_def)
next
  case True
  from spend [OF True] ok key show ?thesis by (auto simp: pays_def)
qed

lemma reject_pays:
  assumes s: "segment_ok s" and w: "op_within k rate burst t0 t (OpReject c policy now)"
  shows "pays k rate burst t0 t (OpReject c policy now) s (budget_step (OpReject c policy now) s)"
proof -
  obtain r s' where rs: "admit_reject_statement c policy now s = (r, s')" by (meson surj_pair)
  let ?p = "ac_predicted_wal_bytes c" and ?b = "bucket_before c policy now s"
  note res = reject_result [OF s, of c policy now, unfolded rs, simplified]
  have "pays k rate burst t0 t (OpReject c policy now) s (charged_by r, s')"
  proof (rule admit_pays [OF res(1) res(2)])
    assume k: "context_key c policy = k"
    then have pol: "policy_in rate burst t0 t policy now" using w by simp
    have before: "bucket_credit rate burst t ?b \<le> store_credit rate burst t0 t (segment_bucket s k)"
      using before_credit [OF pol] by (simp add: bucket_before_def k)
    show "(\<exists>b'. segment_bucket s' k = Some b' \<and> 1000 * charged_by r + store_credit rate burst t0 t (Some b')
          \<le> store_credit rate burst t0 t (segment_bucket s k))
      \<or> segment_bucket s' k = segment_bucket s k \<and> charged_by r = 0"
    proof (cases "has_bucket_room c policy s \<and> unat ?p \<le> available_at policy now ?b")
      case True
      then have "r = Inr (charged_decision policy ?p now ?b)"
        "segment_bucket s' k = Some (charged_bucket policy ?p now ?b)"
        using res(2) by (auto simp: map_admit_def has_bucket_room_def bucket_before_def reject_callback k
            split: option.splits)
      then show ?thesis
        using charged_bucket_credit [OF pol, of ?p ?b] before True
        by (simp add: charged_by_def charged_decision_fields store_credit_def)
    next
      case False
      then have "segment_bucket s' = segment_bucket s \<and> charged_by r = 0"
        using res(2) by (auto simp: map_admit_def has_bucket_room_def bucket_before_def reject_callback k
            charged_by_def split: option.splits if_splits)
      then show ?thesis by simp
    qed
  qed simp
  then show ?thesis by (simp add: rs)
qed

lemma queue_pays:
  assumes s: "segment_ok s" and w: "op_within k rate burst t0 t (OpQueue c policy now)"
  shows "pays k rate burst t0 t (OpQueue c policy now) s (budget_step (OpQueue c policy now) s)"
proof -
  obtain r s' where rs: "queue_attempt c policy now s = (r, s')" by (meson surj_pair)
  let ?p = "ac_predicted_wal_bytes c" and ?b = "bucket_before c policy now s"
  let ?c = "case r of Inr (Admitted d) \<Rightarrow> charged_by (Inr d) | _ \<Rightarrow> 0"
  note res = queue_result [OF s, of c policy now, unfolded rs, simplified]
  have "pays k rate burst t0 t (OpQueue c policy now) s (?c, s')"
  proof (rule admit_pays [OF res(1) res(2)])
    assume k: "context_key c policy = k"
    then have pol: "policy_in rate burst t0 t policy now" using w by simp
    have before: "bucket_credit rate burst t ?b \<le> store_credit rate burst t0 t (segment_bucket s k)"
      using before_credit [OF pol] by (simp add: bucket_before_def k)
    have "(r, segment_bucket s') = (if \<not> has_bucket_room c policy s
        then (Inl budget_bucket_capacity_exhausted, segment_bucket s)
        else case attempt_queue_charge_result ?p policy now ?b of
          (Inl e, _) \<Rightarrow> (Inl e, segment_bucket s)
        | (Inr r, v) \<Rightarrow> (Inr r, (segment_bucket s)(k \<mapsto> v)))"
      using res(2) by (auto simp: map_admit_def has_bucket_room_def bucket_before_def k)
    then consider "r = Inr (Admitted (charged_decision policy ?p now ?b))"
        "segment_bucket s' k = Some (charged_bucket policy ?p now ?b)" "unat ?p \<le> available_at policy now ?b"
      | "?c = 0" "segment_bucket s' k = Some (refreshed policy now ?b)"
      | "?c = 0" "segment_bucket s' = segment_bucket s"
      by (auto simp: queue_callback split: if_splits sum.splits)
    then show "(\<exists>b'. segment_bucket s' k = Some b' \<and> 1000 * ?c + store_credit rate burst t0 t (Some b')
          \<le> store_credit rate burst t0 t (segment_bucket s k))
      \<or> segment_bucket s' k = segment_bucket s k \<and> ?c = 0"
    proof cases
      case 1
      then show ?thesis
        using charged_bucket_credit [OF pol 1(3)] before
        by (simp add: charged_by_def charged_decision_fields store_credit_def)
    next
      case 2
      then show ?thesis
        using refreshed_bucket_credit [OF pol, of ?b] before by (simp add: store_credit_def)
    qed simp
  qed simp
  then show ?thesis by (auto simp: rs split: sum.splits charge_attempt.splits)
qed

text \<open>Shadow mode refreshes an existing bucket and never charges or rejects.\<close>

definition shadow_decision ::
  "effective_policy \<Rightarrow> wal_bytes \<Rightarrow> epoch_millis \<Rightarrow> budget_bucket_state \<Rightarrow> admission_decision" where
  "shadow_decision policy p now b = fst (admit_shadow_with_bucket p policy now b)"

lemma shadow_decision_fields:
  "ad_kind (shadow_decision policy p now b) =
     (if unat p \<le> available_at policy now b then DkAllowed else DkWouldReject)"
  "charged_by (Inr (shadow_decision policy p now b)) = 0"
  by (simp_all add: shadow_decision_def shadow_callback with_availability_def decision_allowed_def
      decision_would_reject_def charged_by_def)

lemma shadow_result:
  assumes s: "segment_ok s"
  shows "segment_ok (snd (admit_shadow_statement c policy now s))"
    and "fst (admit_shadow_statement c policy now s)
      = Inr (shadow_decision policy (ac_predicted_wal_bytes c) now (bucket_before c policy now s))"
    and "segment_bucket (snd (admit_shadow_statement c policy now s)) =
      (case segment_bucket s (context_key c policy) of
         None \<Rightarrow> segment_bucket s
       | Some b \<Rightarrow> (segment_bucket s)(context_key c policy \<mapsto> refreshed policy now b))"
proof -
  let ?f = "\<lambda>b. case admit_shadow_with_bucket (ac_predicted_wal_bytes c) policy now b of
      (d, b) \<Rightarrow> (Inr d :: admission_decision pwb_result, b)"
  obtain r s' where rs: "with_existing_budget_bucket (ep_policy_id policy) (sk_value_hash (ac_scope c)) ?f s = (r, s')"
    by (meson surj_pair)
  have ref: "segment_ok s' \<and> (r, segment_bucket s') = map_visit (context_key c policy) ?f (segment_bucket s)"
    using segment_store.visit_refines [OF s, of ?f "context_key c policy"]
    by (simp add: segment_visit_def context_key_def rs callback_keys)
  have f: "?f b = (Inr (shadow_decision policy (ac_predicted_wal_bytes c) now b), refreshed policy now b)" for b
    by (simp add: shadow_decision_def shadow_callback)
  have eq: "admit_shadow_statement c policy now s = sbind (r, s') (\<lambda>found s. case found of
        None \<Rightarrow> (Inr (admit_shadow_with_ephemeral_bucket c policy now), s) | Some d \<Rightarrow> (Inr d, s))"
    by (simp add: admit_shadow_statement_def segment_available [OF s] rs)
  show "segment_ok (snd (admit_shadow_statement c policy now s))"
    "fst (admit_shadow_statement c policy now s)
      = Inr (shadow_decision policy (ac_predicted_wal_bytes c) now (bucket_before c policy now s))"
    "segment_bucket (snd (admit_shadow_statement c policy now s)) =
      (case segment_bucket s (context_key c policy) of
         None \<Rightarrow> segment_bucket s
       | Some b \<Rightarrow> (segment_bucket s)(context_key c policy \<mapsto> refreshed policy now b))"
    using ref unfolding map_visit_def f eq
    by (cases "segment_bucket s (context_key c policy)";
        simp add: bucket_before_def admit_shadow_with_ephemeral_bucket_def shadow_decision_def)+
qed

lemma shadow_pays:
  assumes s: "segment_ok s" and w: "op_within k rate burst t0 t (OpShadow c policy now)"
  shows "pays k rate burst t0 t (OpShadow c policy now) s (budget_step (OpShadow c policy now) s)"
proof -
  obtain r s' where rs: "admit_shadow_statement c policy now s = (r, s')" by (meson surj_pair)
  note res = shadow_result [OF s, of c policy now, unfolded rs, simplified]
  have zero: "charged_by r = 0" by (simp only: res(2) shadow_decision_fields(2))
  have "store_credit rate burst t0 t (segment_bucket s' k) \<le> store_credit rate burst t0 t (segment_bucket s k)"
  proof (cases "context_key c policy = k")
    case True
    then have pol: "policy_in rate burst t0 t policy now" using w by simp
    show ?thesis
      using refreshed_bucket_credit [OF pol] True
      by (cases "segment_bucket s k") (simp_all add: res(3) store_credit_def)
  next
    case False
    then show ?thesis by (cases "segment_bucket s (context_key c policy)") (simp_all add: res(3))
  qed
  with zero res(1) show ?thesis by (simp add: rs pays_def)
qed

lemma refund_credit:
  "bucket_credit rate burst t (snd (refund_bucket bytes b)) \<le> bucket_credit rate burst t b + 1000 * unat bytes"
proof -
  let ?b = "snd (refund_bucket bytes b)"
  have "unat (bb_available_bytes ?b) =
      min (min (unat (bb_available_bytes b) + unat bytes) (2 ^ 64 - 1)) (unat (bb_max_burst_bytes b))"
    by (simp add: refund_bucket_def word_min_nat unat_sat_add)
  then have "unat (bb_available_bytes ?b) \<le> unat (bb_available_bytes b) + unat bytes" by linarith
  then have "min (unat (bb_available_bytes ?b)) burst \<le> min (unat (bb_available_bytes b)) burst + unat bytes"
    by linarith
  moreover have "bb_last_refill_epoch_ms ?b = bb_last_refill_epoch_ms b" by (simp add: refund_bucket_def)
  ultimately show ?thesis by (simp add: bucket_credit_def)
qed

lemma step_pays:
  assumes "segment_ok s" and "op_within k rate burst t0 t op"
  shows "pays k rate burst t0 t op s (budget_step op s)"
proof (cases op)
  case (OpRefund p h bytes)
  note res = refund_result [OF assms(1), of p h bytes]
  show ?thesis
    using res(1,3) refund_credit [of rate burst t bytes]
    by (auto simp: OpRefund pays_def store_credit_def split: option.split)
next
  case (OpDebt p h bytes)
  note res = debt_result [OF assms(1), of p h bytes]
  have "bucket_credit rate burst t (snd (debt_bucket bytes b)) = bucket_credit rate burst t b" for b
    by (simp add: bucket_credit_def debt_bucket_def)
  then show ?thesis
    using res(1,3) by (auto simp: OpDebt pays_def store_credit_def split: option.split)
next
  case (OpReject c policy now)
  show ?thesis using assms(2) unfolding OpReject by (rule reject_pays [OF assms(1)])
next
  case (OpQueue c policy now)
  show ?thesis using assms(2) unfolding OpQueue by (rule queue_pays [OF assms(1)])
next
  case (OpShadow c policy now)
  show ?thesis using assms(2) unfolding OpShadow by (rule shadow_pays [OF assms(1)])
qed

lemma run_pays:
  assumes "segment_ok s" and "list_all (op_within k rate burst t0 t) ops"
  shows "1000 * charged_to k ops s + store_credit rate burst t0 t (segment_bucket (run_budget ops s) k)
      \<le> store_credit rate burst t0 t (segment_bucket s k) + 1000 * refunded_to k ops
    \<and> segment_ok (run_budget ops s)"
  using assms
proof (induction ops arbitrary: s)
  case (Cons op ops)
  have p: "pays k rate burst t0 t op s (budget_step op s)" using Cons.prems by (intro step_pays) simp_all
  then have ok: "segment_ok (snd (budget_step op s))" by (simp add: pays_def)
  from Cons.IH [OF ok] Cons.prems(2) p show ?case
    by (auto simp: pays_def refunded_to_def split: if_splits)
qed (simp add: refunded_to_def)

section \<open>The rate limit\<close>

text \<open>
  C2: the rate limit. Over any sequence of admissions, refunds and debts by any backends,
  the bytes charged to one bucket (a policy and a scope), whose admissions use the policy's
  rate and burst at times between \<open>t0\<close> and \<open>t\<close>, are at most what the bucket held
  at the start (its burst, if it did not exist), plus what the rate yields until \<open>t\<close> since the
  last refill (since \<open>t0\<close>, if it did not exist), plus the refunds: no interleaving, clock that
  steps back, or rounding lets a scope exceed it.
\<close>

theorem token_bucket_rate_limit:
  assumes "segment_ok s" and "list_all (op_within k rate burst t0 t) ops"
  shows "1000 * charged_to k ops s \<le>
     (case segment_bucket s k of
        None \<Rightarrow> 1000 * burst + rate * (t - t0)
      | Some b \<Rightarrow> 1000 * min (unat (bb_available_bytes b)) burst
                   + rate * (t - unat (bb_last_refill_epoch_ms b)))
     + 1000 * refunded_to k ops"
  using run_pays [OF assms] by (simp add: store_credit_def bucket_credit_def split: option.splits)

definition sample_policy :: "budget_mode \<Rightarrow> effective_policy" where
  "sample_policy mode =
     \<lparr>ep_policy_id = 7, ep_enabled = True, ep_mode = mode, ep_wal_rate_bytes_per_sec = 1000,
      ep_wal_burst_bytes = 5000\<rparr>"

definition sample_context :: "wal_bytes \<Rightarrow> admission_context" where
  "sample_context predicted =
     \<lparr>ac_query_id = None, ac_scope = \<lparr>sk_kind = Tenant, sk_value_hash = 99, sk_debug_value = None\<rparr>,
      ac_statement_class = Write, ac_predicted_wal_bytes = predicted\<rparr>"

theorem token_bucket_rate_limit_witness:
  "1000 * charged_to (7, 99)
     [OpReject (sample_context 4000) (sample_policy Reject) 5,
      OpQueue (sample_context 4000) (sample_policy Queue) 10] started_shmem \<le> 1000 * 5000 + 1000 * (10 - 5)"
  using token_bucket_rate_limit [OF started_shmem_ok(1), of "(7, 99)" 1000 5000 5 10
      "[OpReject (sample_context 4000) (sample_policy Reject) 5,
        OpQueue (sample_context 4000) (sample_policy Queue) 10]"]
  by (simp add: started_shmem_ok(2) refunded_to_def policy_in_def sample_policy_def)

end
