(* ===== verification/Pwb_Queue.thy ===== *)
theory Pwb_Queue
  imports Pwb_Limit
begin

text \<open>
  Queued statements, and the modes that never charge: the waiting time a queued statement is
  given is exact, a statement whose bucket nobody else uses is admitted after one wait, an
  impossible one is refused at once, and the sleep of \<^verbatim>\<open>src/time.rs\<close> adds up to the wait.
  With other statements that always come first a queued one may starve.
\<close>

section \<open>One attempt\<close>

lemma queue_attempt_cases:
  fixes now :: epoch_millis
  assumes "segment_ok s" and "has_bucket_room c policy s"
  defines "b \<equiv> bucket_before c policy now s" and "p \<equiv> ac_predicted_wal_bytes c"
  shows "segment_ok (snd (queue_attempt c policy now s))"
    and "unat p \<le> available_at policy now b \<Longrightarrow>
      fst (queue_attempt c policy now s) = Inr (Admitted (charged_decision policy p now b))
      \<and> segment_bucket (snd (queue_attempt c policy now s))
          = (segment_bucket s)(context_key c policy \<mapsto> charged_bucket policy p now b)"
    and "\<not> unat p \<le> available_at policy now b \<Longrightarrow>
      (case wait_ms_for_deficit (p - bb_available_bytes (refreshed policy now b)) (ep_wal_rate_bytes_per_sec policy) of
         Inl e \<Rightarrow> fst (queue_attempt c policy now s) = Inl e
           \<and> segment_bucket (snd (queue_attempt c policy now s)) = segment_bucket s
       | Inr w \<Rightarrow> fst (queue_attempt c policy now s) = Inr (WouldWait
             \<lparr>qw_policy_id = ep_policy_id policy, qw_predicted_wal_bytes = p,
              qw_available_wal_bytes = bb_available_bytes (refreshed policy now b), qw_wait_ms = w\<rparr>)
           \<and> segment_bucket (snd (queue_attempt c policy now s))
               = (segment_bucket s)(context_key c policy \<mapsto> refreshed policy now b))"
proof -
  obtain r s' where rs: "queue_attempt c policy now s = (r, s')" by (meson surj_pair)
  note res = queue_result [OF assms(1), of c policy now, unfolded rs, simplified]
  show "segment_ok (snd (queue_attempt c policy now s))" using res(1) by (simp add: rs)
  have step: "(r, segment_bucket s') = (case attempt_queue_charge_result p policy now b of
          (Inl e, _) \<Rightarrow> (Inl e, segment_bucket s)
        | (Inr r, v) \<Rightarrow> (Inr r, (segment_bucket s)(context_key c policy \<mapsto> v)))"
    using res(2) assms(2) by (auto simp: map_admit_def has_bucket_room_def bucket_before_def b_def p_def)
  show "unat p \<le> available_at policy now b \<Longrightarrow>
      fst (queue_attempt c policy now s) = Inr (Admitted (charged_decision policy p now b))
      \<and> segment_bucket (snd (queue_attempt c policy now s))
          = (segment_bucket s)(context_key c policy \<mapsto> charged_bucket policy p now b)"
    using step by (simp add: rs queue_callback)
  show "\<not> unat p \<le> available_at policy now b \<Longrightarrow>
      (case wait_ms_for_deficit (p - bb_available_bytes (refreshed policy now b)) (ep_wal_rate_bytes_per_sec policy) of
         Inl e \<Rightarrow> fst (queue_attempt c policy now s) = Inl e
           \<and> segment_bucket (snd (queue_attempt c policy now s)) = segment_bucket s
       | Inr w \<Rightarrow> fst (queue_attempt c policy now s) = Inr (WouldWait
             \<lparr>qw_policy_id = ep_policy_id policy, qw_predicted_wal_bytes = p,
              qw_available_wal_bytes = bb_available_bytes (refreshed policy now b), qw_wait_ms = w\<rparr>)
           \<and> segment_bucket (snd (queue_attempt c policy now s))
               = (segment_bucket s)(context_key c policy \<mapsto> refreshed policy now b))"
    using step by (simp add: rs queue_callback split: sum.splits)
qed

lemma not_afford_unat:
  assumes "\<not> unat p \<le> available_at policy now b"
  shows "unat (p - bb_available_bytes (refreshed policy now b)) = unat p - available_at policy now b"
    and "p - bb_available_bytes (refreshed policy now b) \<noteq> 0"
proof -
  have u: "unat (bb_available_bytes (refreshed policy now b)) = available_at policy now b"
    by (rule refreshed_fields)
  then have "bb_available_bytes (refreshed policy now b) \<le> p" using assms by (simp add: word_le_nat_alt)
  then show *: "unat (p - bb_available_bytes (refreshed policy now b)) = unat p - available_at policy now b"
    by (simp add: unat_sub u)
  then show "p - bb_available_bytes (refreshed policy now b) \<noteq> 0" using assms by auto
qed

text \<open>When a bucket that was refreshed at one time affords a prediction at another.\<close>

lemma refreshed_available:
  "available_at policy now' (refreshed policy now b) =
     min (available_at policy now b + gained (unat (ep_wal_rate_bytes_per_sec policy))
            (unat now' - unat (bb_last_refill_epoch_ms (refreshed policy now b))))
         (unat (ep_wal_burst_bytes policy))"
  using available_at_burst [of policy now b]
  by (simp add: available_at_def [of policy now'] refreshed_fields(1))

lemma refreshed_affords:
  assumes "\<not> unat p \<le> available_at policy now b" and "p \<le> ep_wal_burst_bytes policy"
    and "ep_wal_rate_bytes_per_sec policy \<noteq> 0"
  shows "unat p \<le> available_at policy now' (refreshed policy now b) \<longleftrightarrow>
    exact_wait (unat p - available_at policy now b) (unat (ep_wal_rate_bytes_per_sec policy))
      \<le> unat now' - unat (bb_last_refill_epoch_ms (refreshed policy now b))"
proof -
  have rate: "0 < unat (ep_wal_rate_bytes_per_sec policy)" using assms(3) by (simp add: unat_gt_0)
  have "unat p \<le> unat (ep_wal_burst_bytes policy)" using assms(2) by (simp add: word_le_nat_alt)
  then show ?thesis
    unfolding refreshed_available exact_wait_gained [OF rate] using assms(1) by linarith
qed

section \<open>Properties\<close>


text \<open>
  What a statement may assume of the others while it waits for the first time: the segment
  stays well formed, its own bucket is left alone, and the clock advances by the wait (or to
  its last value).
\<close>

definition undisturbed :: "bucket_key \<Rightarrow> epoch_millis \<Rightarrow> wait_env \<Rightarrow> bool" where
  "undisturbed k now env \<longleftrightarrow>
     (\<forall>w s. segment_ok s \<longrightarrow>
        segment_ok (snd (env 0 w s)) \<and> segment_bucket (snd (env 0 w s)) k = segment_bucket s k
      \<and> sat_add now w \<le> fst (env 0 w s))"

lemma exact_wait_mono: "a \<le> b \<Longrightarrow> exact_wait a rate \<le> exact_wait b rate"
  by (simp add: exact_wait_def div_le_mono)

lemma queue_first_or_second:
  assumes s: "segment_ok s" and room: "has_bucket_room c policy s"
    and burst: "ac_predicted_wal_bytes c \<le> ep_wal_burst_bytes policy"
    and rate: "ep_wal_rate_bytes_per_sec policy \<noteq> 0"
    and last: "bb_last_refill_epoch_ms (bucket_before c policy now s) \<le> now"
    and clock: "unat now + exact_wait (unat (ep_wal_burst_bytes policy)) (unat (ep_wal_rate_bytes_per_sec policy)) < 2 ^ 64"
    and env: "undisturbed (context_key c policy) now env"
  shows "\<exists>d s'. admit_queue_with_retry (queue_attempt c policy) env 0 now s = Some (Inr d, s')
    \<and> segment_ok s' \<and> ad_kind d = DkAllowed \<and> ad_charged_bytes d = ac_predicted_wal_bytes c"
proof -
  let ?p = "ac_predicted_wal_bytes c" and ?b = "bucket_before c policy now s" and ?k = "context_key c policy"
  let ?rb = "refreshed policy now ?b"
  note att = queue_attempt_cases [OF s room, of now]
  obtain r1 s1 where r1: "queue_attempt c policy now s = (r1, s1)" by (meson surj_pair)
  show ?thesis
  proof (cases "unat ?p \<le> available_at policy now ?b")
    case True
    then show ?thesis
      using att(1,2) r1 by (subst admit_queue_with_retry.simps) (auto simp: charged_decision_fields)
  next
    case na: False
    from wait_ms_spec [OF rate not_afford_unat(2) [OF na]] obtain w where
      w: "wait_ms_for_deficit (?p - bb_available_bytes ?rb) (ep_wal_rate_bytes_per_sec policy) = Inr w"
        "unat w = min (exact_wait (unat ?p - available_at policy now ?b) (unat (ep_wal_rate_bytes_per_sec policy)))
           (2 ^ 64 - 1)" using not_afford_unat(1) [OF na] by auto
    have ok1: "segment_ok s1" using att(1) r1 by simp
    have b1: "segment_bucket s1 ?k = Some ?rb" using att(3) na w(1) r1 by simp
    obtain now2 s2 where 2: "env 0 w s1 = (now2, s2)" by (meson surj_pair)
    have env2: "segment_ok s2" "segment_bucket s2 ?k = Some ?rb" "sat_add now w \<le> now2"
      using env ok1 b1 2 unfolding undisturbed_def by (metis fst_conv snd_conv)+
    have "exact_wait (unat ?p - available_at policy now ?b) (unat (ep_wal_rate_bytes_per_sec policy))
        \<le> exact_wait (unat (ep_wal_burst_bytes policy)) (unat (ep_wal_rate_bytes_per_sec policy))"
      using burst by (intro exact_wait_mono) (simp add: word_le_nat_alt)
    with clock have wait: "unat w = exact_wait (unat ?p - available_at policy now ?b) (unat (ep_wal_rate_bytes_per_sec policy))"
      and sum: "unat now + unat w < 2 ^ 64"
      using w(2) by linarith+
    have "unat (sat_add now w) = unat now + unat w" using sum by (simp add: unat_sat_add)
    then have now2: "unat now + unat w \<le> unat now2" using env2(3) by (simp add: word_le_nat_alt)
    have "unat (bb_last_refill_epoch_ms ?rb) \<le> unat now"
      using last by (simp add: refreshed_fields word_le_nat_alt)
    then have "unat w \<le> unat now2 - unat (bb_last_refill_epoch_ms ?rb)" using now2 by linarith
    then have afford: "unat ?p \<le> available_at policy now2 ?rb"
      using refreshed_affords [OF na burst rate] wait by simp
    have room2: "has_bucket_room c policy s2" by (simp add: has_bucket_room_def env2(2))
    have before2: "bucket_before c policy now2 s2 = ?rb" by (simp add: bucket_before_def env2(2))
    note att2 = queue_attempt_cases [OF env2(1) room2, of now2, unfolded before2]
    obtain r3 s3 where r3: "queue_attempt c policy now2 s2 = (r3, s3)" by (meson surj_pair)
    have second: "admit_queue_with_retry (queue_attempt c policy) env (Suc 0) now2 s2
        = Some (Inr (charged_decision policy ?p now2 ?rb), s3)"
      using att2(2) [OF afford] r3 by (subst admit_queue_with_retry.simps) simp
    have "admit_queue_with_retry (queue_attempt c policy) env 0 now s
        = admit_queue_with_retry (queue_attempt c policy) env (Suc 0) now2 s2"
      using att(3) na w(1) r1 2 by (subst admit_queue_with_retry.simps) simp
    then show ?thesis using second att2(1) r3 by (simp add: charged_decision_fields)
  qed
qed

text \<open>
  C5: a queued statement is not starved by its own wait: when its prediction fits the burst,
  the rate is not zero, its bucket exists or there is room for it, the clock is past the
  epoch and not behind the bucket, and the bucket is left alone while it waits, then the
  admission returns, the statement is allowed, and it is charged its prediction. A prediction
  above the burst is refused at once and without touching the segment.
\<close>

theorem queue_admission_progress:
  assumes "segment_ok s" and "ep_enabled policy" and "ep_mode policy = Queue"
    and "has_bucket_room c policy s" and "ep_wal_rate_bytes_per_sec policy \<noteq> 0"
    and "bb_last_refill_epoch_ms (bucket_before c policy now s) \<le> now"
    and "unat now + exact_wait (unat (ep_wal_burst_bytes policy)) (unat (ep_wal_rate_bytes_per_sec policy)) < 2 ^ 64"
    and "undisturbed (context_key c policy) now env"
  shows "if ac_predicted_wal_bytes c \<le> ep_wal_burst_bytes policy
    then \<exists>d s'. admit_statement c policy env now s = Some (Inr d, s') \<and> segment_ok s'
           \<and> ad_kind d = DkAllowed \<and> ad_charged_bytes d = ac_predicted_wal_bytes c
    else admit_statement c policy env now s = Some
           (Inl (BudgetExceeded (ep_policy_id policy) (ac_predicted_wal_bytes c) (ep_wal_burst_bytes policy)), s)"
proof -
  have queue: "admit_statement c policy env now s = admit_queue_statement c policy env now s"
    using assms(2,3) by (simp add: admit_statement_def)
  show ?thesis
  proof (cases "ac_predicted_wal_bytes c \<le> ep_wal_burst_bytes policy")
    case True
    then show ?thesis
      using queue_first_or_second [OF assms(1,4) True assms(5-8)]
      by (simp add: queue admit_queue_statement_def not_less)
  next
    case False
    then show ?thesis by (simp add: queue admit_queue_statement_def budget_exceeded_error_def not_le)
  qed
qed

text \<open>
  C8: a policy that is disabled, off, in observe mode or in shadow mode never charges and
  never fails: the statement is allowed, or, only in shadow mode and only when it does not
  fit the bucket, marked as one that would be rejected. No bucket is created; at most the
  existing bucket of the statement is refilled.
\<close>

theorem modes_without_charge:
  assumes "segment_ok s" and "\<not> ep_enabled policy \<or> ep_mode policy \<in> {Off, Observe, Shadow}"
  shows "\<exists>d s'. admit_statement c policy env now s = Some (Inr d, s') \<and> segment_ok s'
    \<and> charged_by (Inr d) = 0
    \<and> ad_kind d = (if ep_enabled policy \<and> ep_mode policy = Shadow
          \<and> \<not> unat (ac_predicted_wal_bytes c) \<le> available_at policy now (bucket_before c policy now s)
        then DkWouldReject else DkAllowed)
    \<and> (\<forall>k. segment_bucket s' k = segment_bucket s k
        \<or> k = context_key c policy \<and> segment_bucket s' k = map_option (refreshed policy now) (segment_bucket s k))"
proof (cases "ep_enabled policy \<and> ep_mode policy = Shadow")
  case True
  obtain r s' where rs: "admit_shadow_statement c policy now s = (r, s')" by (meson surj_pair)
  note res = shadow_result [OF assms(1), of c policy now, unfolded rs, simplified]
  have eq: "admit_statement c policy env now s = Some (r, s')" using True by (simp add: admit_statement_def rs)
  show ?thesis
    unfolding eq res(2) using res(1,3) True shadow_decision_fields(2) [of policy "ac_predicted_wal_bytes c" now]
    by (auto simp: shadow_decision_fields(1) split: option.splits)
next
  case False
  then have "admit_statement c policy env now s = Some (Inr (non_charging_admission (ep_policy_id policy)
      (if ep_enabled policy \<and> ep_mode policy \<noteq> Off then RcObserveMode else RcPolicyDisabled)), s)"
    using assms(2) by (auto simp: admit_statement_def)
  with assms(1) False show ?thesis
    by (auto simp: non_charging_admission_def decision_allowed_def charged_by_def)
qed

lemma refund_charged_bucket:
  assumes "unat p \<le> available_at policy now b"
  shows "snd (refund_bucket p (charged_bucket policy p now b)) = refreshed policy now b"
proof -
  let ?a = "bb_available_bytes (refreshed policy now b)"
  have u: "unat ?a = available_at policy now b" by (rule refreshed_fields)
  then have undo: "charge_available ?a p + p = ?a" by (simp add: charge_available_def)
  have "unat (charge_available ?a p) + unat p < 2 ^ 64"
    using assms u unat_bound [of ?a] by (simp add: unat_charge)
  then have "sat_add (charge_available ?a p) p = ?a" by (simp add: sat_add_def undo)
  moreover have "?a \<le> ep_wal_burst_bytes policy"
    using available_at_burst [of policy now b] u by (simp add: word_le_nat_alt)
  ultimately show ?thesis
    by (simp add: refund_bucket_def charged_bucket_def refreshed_fields(2) min_absorb1)
qed

text \<open>
  Refunding what an admission charged restores the bucket: after the refund its bucket
  is exactly the bucket refilled at the time of the admission, as if nothing had been
  charged, and every other bucket is as before.
\<close>

lemma refund_restores_charge:
  assumes "segment_ok s" and "admit_reject_statement c policy now s = (Inr d, s1)"
  shows "segment_bucket (snd (refund_charged_bytes (ep_policy_id policy) (sk_value_hash (ac_scope c))
        (ad_charged_bytes d) s1))
    = (segment_bucket s)(context_key c policy \<mapsto> refreshed policy now (bucket_before c policy now s))"
proof -
  let ?p = "ac_predicted_wal_bytes c" and ?b = "bucket_before c policy now s" and ?k = "context_key c policy"
  note res = reject_result [OF assms(1), of c policy now, unfolded assms(2), simplified]
  have afford: "unat ?p \<le> available_at policy now ?b"
    and d: "d = charged_decision policy ?p now ?b"
    and b: "segment_bucket s1 = (segment_bucket s)(?k \<mapsto> charged_bucket policy ?p now ?b)"
    using res(2) by (auto simp: map_admit_def bucket_before_def reject_callback split: if_splits option.splits)
  have k: "segment_bucket s1 (ep_policy_id policy, sk_value_hash (ac_scope c)) = Some (charged_bucket policy ?p now ?b)"
    by (simp add: b context_key_def)
  show ?thesis
    using refund_result(3) [OF res(1), of "ep_policy_id policy" "sk_value_hash (ac_scope c)" ?p] k
      refund_charged_bucket [OF afford]
    by (simp add: refund_charged_bytes_def d charged_decision_fields b) (simp add: context_key_def)
qed

section \<open>The sleep\<close>

lemma sleep_chunks_struct:
  "\<exists>cs. sleep_chunks w = concat (map (\<lambda>c. [ProcessInterrupts, SleepChunk c]) cs)
    \<and> sum_list (map unat cs) = unat w \<and> (\<forall>c \<in> set cs. 0 < c \<and> c \<le> SLEEP_CHUNK_MS)"
proof (induction w rule: sleep_chunks.induct)
  case (1 w)
  show ?case
  proof (cases "w = 0")
    case True
    then show ?thesis by (intro exI [of _ "[]"]) (simp add: sleep_chunks.simps)
  next
    case False
    let ?c = "min w SLEEP_CHUNK_MS"
    from 1 [OF False refl] obtain cs where cs:
      "sleep_chunks (w - ?c) = concat (map (\<lambda>c. [ProcessInterrupts, SleepChunk c]) cs)"
      "sum_list (map unat cs) = unat (w - ?c)" "\<forall>c \<in> set cs. 0 < c \<and> c \<le> SLEEP_CHUNK_MS" by blast
    have "unat ?c + unat (w - ?c) = unat w" by (simp add: unat_sub word_le_nat_alt word_min_nat)
    moreover have "0 < ?c" using False by (simp add: SLEEP_CHUNK_MS_def word_neq_0_conv)
    ultimately show ?thesis
      using cs False by (intro exI [of _ "?c # cs"]) (simp add: sleep_chunks.simps [of w] Let_def)
  qed
qed


section \<open>A concrete segment\<close>

text \<open>The segment after 4000 of 5000 bytes have been charged at time 10.\<close>

definition used_shmem :: shmem where
  "used_shmem = snd (admit_reject_statement (sample_context 4000) (sample_policy Reject) 10 started_shmem)"

lemma sample_key: "context_key (sample_context p) (sample_policy m) = (7, 99)"
  by (simp add: context_key_def sample_context_def sample_policy_def)

lemma sample_available:
  "available_at (sample_policy m) now b =
     min (min (unat (bb_available_bytes b)) 5000 + (unat now - unat (bb_last_refill_epoch_ms b))) 5000"
  by (simp add: available_at_def sample_policy_def gained_def)

lemma sample_initial: "unat (bb_available_bytes (initial_bucket_state (sample_policy m) h now)) = 5000"
    "bb_last_refill_epoch_ms (initial_bucket_state (sample_policy m) h now) = now"
  by (simp_all add: initial_bucket_state_def sample_policy_def)

lemma used_shmem_reject:
  "\<exists>d. admit_reject_statement (sample_context 4000) (sample_policy Reject) 10 started_shmem = (Inr d, used_shmem)"
  "segment_ok used_shmem"
  "\<exists>b. segment_bucket used_shmem = [(7, 99) \<mapsto> b] \<and> unat (bb_available_bytes b) = 1000
     \<and> bb_last_refill_epoch_ms b = 10"
proof -
  let ?c = "sample_context 4000" and ?pol = "sample_policy Reject"
  let ?b = "initial_bucket_state ?pol 99 10"
  have p: "ac_predicted_wal_bytes ?c = 4000" "sk_value_hash (ac_scope ?c) = 99"
    by (simp_all add: sample_context_def)
  note res = reject_result [OF started_shmem_ok(1), of ?c ?pol 10]
  have afford: "available_at ?pol 10 ?b = 5000" by (simp add: sample_available sample_initial)
  have step: "map_prod id segment_bucket (admit_reject_statement ?c ?pol 10 started_shmem)
      = (Inr (charged_decision ?pol 4000 10 ?b), [(7, 99) \<mapsto> charged_bucket ?pol 4000 10 ?b])"
    using res(2) by (simp add: started_shmem_ok(2) started_shmem_room map_admit_def p reject_callback
        afford sample_key)
  then show "\<exists>d. admit_reject_statement ?c ?pol 10 started_shmem = (Inr d, used_shmem)"
    by (cases "admit_reject_statement ?c ?pol 10 started_shmem") (auto simp: used_shmem_def)
  show "segment_ok used_shmem" using res(1) by (simp add: used_shmem_def)
  have "segment_bucket used_shmem = [(7, 99) \<mapsto> charged_bucket ?pol 4000 10 ?b]"
    using step by (cases "admit_reject_statement ?c ?pol 10 started_shmem") (simp add: used_shmem_def)
  moreover have "unat (bb_available_bytes (charged_bucket ?pol 4000 10 ?b)) = 1000"
    by (simp add: charged_bucket_fields(1) afford)
  moreover have "bb_last_refill_epoch_ms (charged_bucket ?pol 4000 10 ?b) = 10"
    by (simp add: charged_bucket_fields(4) refreshed_fields(4) sample_initial gained_def)
  ultimately show "\<exists>b. segment_bucket used_shmem = [(7, 99) \<mapsto> b] \<and> unat (bb_available_bytes b) = 1000
     \<and> bb_last_refill_epoch_ms b = 10" by blast
qed

lemma used_shmem_queue:
  "\<exists>w s'. queue_attempt (sample_context 2000) (sample_policy Queue) 10 used_shmem = (Inr (WouldWait w), s')
     \<and> qw_wait_ms w = 1000"
proof -
  let ?c = "sample_context 2000" and ?pol = "sample_policy Queue"
  obtain b where b: "segment_bucket used_shmem = [(7, 99) \<mapsto> b]" "unat (bb_available_bytes b) = 1000"
    "bb_last_refill_epoch_ms b = 10" using used_shmem_reject(3) by blast
  have before: "bucket_before ?c ?pol 10 used_shmem = b" by (simp add: bucket_before_def sample_key b(1))
  have avail: "available_at ?pol 10 b = 1000" by (simp add: sample_available b)
  have p: "ac_predicted_wal_bytes ?c = 2000" by (simp add: sample_context_def)
  have na: "\<not> unat (2000 :: u64) \<le> available_at ?pol 10 b" by (simp add: avail)
  have rate: "ep_wal_rate_bytes_per_sec ?pol = 1000" by (simp add: sample_policy_def)
  have room: "has_bucket_room ?c ?pol used_shmem" by (simp add: has_bucket_room_def sample_key b(1))
  have d: "unat (2000 - bb_available_bytes (refreshed ?pol 10 b)) = 1000"
    using not_afford_unat(1) [OF na] by (simp add: avail)
  have "(1000 :: u64) \<noteq> 0" by simp
  from wait_ms_spec [OF this not_afford_unat(2) [OF na]] obtain w where
    w: "wait_ms_for_deficit (2000 - bb_available_bytes (refreshed ?pol 10 b)) 1000 = Inr w" "unat w = 1000"
    by (auto simp: d exact_wait_def)
  have "w = 1000" using w(2) by (simp add: word_unat_eq_iff)
  then show ?thesis
    using queue_attempt_cases(3) [OF used_shmem_reject(2) room, of 10, unfolded before p rate, OF na] w(1)
    by (cases "queue_attempt ?c ?pol 10 used_shmem") auto
qed


theorem queue_admission_progress_witness:
  "\<exists>d s'. admit_statement (sample_context 2000) (sample_policy Queue) (\<lambda>i w s. (sat_add 10 w, s)) 10 used_shmem
      = Some (Inr d, s') \<and> ad_charged_bytes d = 2000"
proof -
  obtain b where b: "segment_bucket used_shmem = [(7, 99) \<mapsto> b]" "bb_last_refill_epoch_ms b = 10"
    using used_shmem_reject(3) by blast
  have pol: "ep_enabled (sample_policy Queue)" "ep_mode (sample_policy Queue) = Queue"
    "ep_wal_rate_bytes_per_sec (sample_policy Queue) = 1000" "ep_wal_burst_bytes (sample_policy Queue) = 5000"
    by (simp_all add: sample_policy_def)
  have room: "has_bucket_room (sample_context 2000) (sample_policy Queue) used_shmem"
    by (simp add: has_bucket_room_def sample_key b(1))
  have env: "undisturbed (context_key (sample_context 2000) (sample_policy Queue)) 10 (\<lambda>i w s. (sat_add 10 w, s))"
    by (simp add: undisturbed_def)
  show ?thesis
    using queue_admission_progress [OF used_shmem_reject(2) pol(1,2) room _ _ _ env]
    by (auto simp: pol bucket_before_def sample_key b exact_wait_def) (auto simp: sample_context_def)
qed

theorem modes_without_charge_witness:
  "\<exists>d s'. admit_statement (sample_context 2000) (sample_policy Shadow) (\<lambda>i w s. (w, s)) 10 used_shmem
      = Some (Inr d, s') \<and> charged_by (Inr d) = 0"
  using modes_without_charge [OF used_shmem_reject(2), of "sample_policy Shadow" "sample_context 2000"
      "\<lambda>i w s. (w, s)" 10]
  by (auto simp: sample_policy_def)

lemma refund_restores_charge_witness:
  "\<exists>d. fst (admit_reject_statement (sample_context 4000) (sample_policy Reject) 10 started_shmem) = Inr d
    \<and> segment_bucket (snd (refund_charged_bytes 7 99 (ad_charged_bytes d) used_shmem))
      = [(7, 99) \<mapsto> refreshed (sample_policy Reject) 10 (initial_bucket_state (sample_policy Reject) 99 10)]"
proof -
  obtain d where d: "admit_reject_statement (sample_context 4000) (sample_policy Reject) 10 started_shmem
      = (Inr d, used_shmem)" using used_shmem_reject(1) by blast
  have "bucket_before (sample_context 4000) (sample_policy Reject) 10 started_shmem
      = initial_bucket_state (sample_policy Reject) 99 10"
    by (simp add: bucket_before_def started_shmem_ok(2) sample_context_def)
  then show ?thesis
    using refund_restores_charge [OF started_shmem_ok(1) d]
    by (simp add: d started_shmem_ok(2) sample_key) (simp add: sample_context_def sample_policy_def)
qed

section \<open>Starvation\<close>

lemma waits_forever:
  assumes step: "\<And>n now s. P now s \<Longrightarrow> \<exists>w s1. attempt now s = (Inr (WouldWait w), s1)
      \<and> P (fst (env n (qw_wait_ms w) s1)) (snd (env n (qw_wait_ms w) s1))"
    and "P now s"
  shows "admit_queue_with_retry attempt env n now s = None"
proof -
  let ?Q = "\<lambda>a e n now s y. a = attempt \<longrightarrow> e = env \<longrightarrow> P now s \<longrightarrow> False"
  have False if run: "admit_queue_with_retry attempt env n now s = Some y" for y
  proof -
    have "?Q attempt env n now s y"
    proof (rule admit_queue_with_retry.raw_induct [of ?Q, OF _ run], intro impI)
      fix retry a e n now s y
      assume IH: "\<And>a e n now s y. retry a e n now s = Some y \<Longrightarrow> ?Q a e n now s y"
        and a: "a = attempt" "e = env" and p: "P now s"
        and body: "(case a now s of (Inl e, s) \<Rightarrow> Some (Inl e, s)
          | (Inr (Admitted d), s) \<Rightarrow> Some (Inr d, s)
          | (Inr (WouldWait w), s) \<Rightarrow> (case e n (qw_wait_ms w) s of (now, s) \<Rightarrow> retry a e (Suc n) now s)
          | (Inr (Failed e), s) \<Rightarrow> Some (Inl e, s)) = Some y"
      obtain w s1 where w: "attempt now s = (Inr (WouldWait w), s1)"
        "P (fst (env n (qw_wait_ms w) s1)) (snd (env n (qw_wait_ms w) s1))" using step [OF p] by blast
      then have "retry attempt env (Suc n) (fst (env n (qw_wait_ms w) s1)) (snd (env n (qw_wait_ms w) s1)) = Some y"
        using body by (simp add: a split: prod.splits)
      from IH [OF this] w(2) show False by blast
    qed
    with assms(2) show ?thesis by blast
  qed
  then show ?thesis by (meson option.exhaust)
qed

text \<open>
  Another backend that takes the whole bucket just before each retry: the clock advances by
  the wait that the statement was given, counted from the last refill of the bucket, and a
  statement in reject mode that fits exactly is admitted first.
\<close>

definition thief :: wait_env where
  "thief n wait s =
     (case segment_bucket s (7, 99) of
        None \<Rightarrow> (wait, s)
      | Some b \<Rightarrow>
          let now = sat_add (bb_last_refill_epoch_ms b) wait
          in (now, snd (admit_reject_statement
                (sample_context (bb_available_bytes (refreshed (sample_policy Reject) now b))) (sample_policy Reject) now s)))"

definition bucket_emptied :: "epoch_millis \<Rightarrow> shmem \<Rightarrow> bool" where
  "bucket_emptied now s \<longleftrightarrow> segment_ok s
     \<and> (\<exists>b. segment_bucket s (7, 99) = Some b \<and> unat (bb_available_bytes b) = 0 \<and> bb_last_refill_epoch_ms b = now)"

lemma emptied_by_charge:
  fixes s :: shmem
  assumes "segment_ok s" and "has_bucket_room (sample_context p) (sample_policy Reject) s"
    and "unat p = available_at (sample_policy Reject) now b"
    and b: "b = bucket_before (sample_context p) (sample_policy Reject) now s" and le: "bb_last_refill_epoch_ms b \<le> now"
  shows "bucket_emptied now (snd (admit_reject_statement (sample_context p) (sample_policy Reject) now s))"
proof -
  let ?c = "sample_context p" and ?pol = "sample_policy Reject"
  obtain r s' where rs: "admit_reject_statement ?c ?pol now s = (r, s')" by (meson surj_pair)
  have pre: "ac_predicted_wal_bytes ?c = p" by (simp add: sample_context_def)
  note res = reject_result [OF assms(1), of ?c ?pol now, unfolded rs]
  have "segment_bucket s' = (segment_bucket s)((7, 99) \<mapsto> charged_bucket ?pol p now b)"
    using res(2) assms(2,3)
    by (auto simp: map_admit_def has_bucket_room_def bucket_before_def sample_key pre reject_callback b
        split: option.splits if_splits)
  moreover have "unat (bb_available_bytes (charged_bucket ?pol p now b)) = 0"
    using charged_bucket_fields(1) [of p ?pol now b] assms(3) by simp
  moreover have "bb_last_refill_epoch_ms (charged_bucket ?pol p now b) = now"
    using le by (auto simp: charged_bucket_fields refreshed_fields sample_policy_def gained_def word_le_nat_alt
        word_unat_eq_iff)
  ultimately show ?thesis using res(1) by (auto simp: bucket_emptied_def rs)
qed

lemma started_emptied: "bucket_emptied 10 (snd (admit_reject_statement (sample_context 5000) (sample_policy Reject) 10 started_shmem))"
  by (rule emptied_by_charge [OF started_shmem_ok(1) _ _ refl])
    (simp_all add: has_bucket_room_def started_shmem_room bucket_before_def started_shmem_ok(2)
      sample_available sample_initial)

text \<open>
  A queued statement may starve: although it is never refused, its prediction fits the burst
  and each wait lasts as long as it was told, smaller statements of other backends that come
  first every time keep it waiting forever.
\<close>

lemma queue_may_starve:
  "bucket_emptied now s \<Longrightarrow> admit_statement (sample_context 2000) (sample_policy Queue) thief now s = None"
proof -
  assume start: "bucket_emptied now s"
  have "admit_queue_with_retry (queue_attempt (sample_context 2000) (sample_policy Queue)) thief 0 now s = None"
  proof (rule waits_forever [where P = bucket_emptied, OF _ start])
    fix n now s
    assume d: "bucket_emptied now s"
    let ?c = "sample_context 2000" and ?pol = "sample_policy Queue"
    obtain b where ok: "segment_ok s" and b: "segment_bucket s (7, 99) = Some b" "unat (bb_available_bytes b) = 0"
      "bb_last_refill_epoch_ms b = now" using d by (auto simp: bucket_emptied_def)
    have room: "has_bucket_room ?c ?pol s" by (simp add: has_bucket_room_def sample_key b(1))
    have before: "bucket_before ?c ?pol now s = b" by (simp add: bucket_before_def sample_key b(1))
    have p: "ac_predicted_wal_bytes ?c = 2000" by (simp add: sample_context_def)
    have rate: "ep_wal_rate_bytes_per_sec ?pol = 1000" by (simp add: sample_policy_def)
    have na: "\<not> unat (2000 :: u64) \<le> available_at ?pol now b" by (simp add: sample_available b)
    obtain w where w: "wait_ms_for_deficit (2000 - bb_available_bytes (refreshed ?pol now b)) 1000 = Inr w"
      using wait_ms_spec [of 1000 "2000 - bb_available_bytes (refreshed ?pol now b)"] not_afford_unat(2) [OF na] by auto
    note att = queue_attempt_cases [OF ok room, of now, unfolded before p rate]
    obtain q s1 where q: "queue_attempt ?c ?pol now s = (Inr (WouldWait q), s1)" "qw_wait_ms q = w" "segment_ok s1"
      "segment_bucket s1 (7, 99) = Some (refreshed ?pol now b)"
      using att(1) att(3) [OF na] w
      by (cases "queue_attempt ?c ?pol now s") (auto simp: sample_key)
    let ?rb = "refreshed ?pol now b" and ?rej = "sample_policy Reject"
    let ?now = "sat_add (bb_last_refill_epoch_ms ?rb) w"
    let ?take = "bb_available_bytes (refreshed ?rej ?now ?rb)"
    have le: "bb_last_refill_epoch_ms ?rb \<le> ?now" by (simp add: word_le_nat_alt unat_sat_add)
    have before1: "bucket_before (sample_context ?take) ?rej ?now s1 = ?rb"
      by (simp add: bucket_before_def sample_key q(4))
    have room1: "has_bucket_room (sample_context ?take) ?rej s1" by (simp add: has_bucket_room_def sample_key q(4))
    have "bucket_emptied ?now (snd (admit_reject_statement (sample_context ?take) ?rej ?now s1))"
      by (rule emptied_by_charge [OF q(3) room1 refreshed_fields(1) before1 [symmetric] le])
    then show "\<exists>w s1. queue_attempt ?c ?pol now s = (Inr (WouldWait w), s1)
        \<and> bucket_emptied (fst (thief n (qw_wait_ms w) s1)) (snd (thief n (qw_wait_ms w) s1))"
      using q by (auto simp: thief_def Let_def)
  qed
  moreover have "ep_enabled (sample_policy Queue)" "ep_mode (sample_policy Queue) = Queue"
    "\<not> ac_predicted_wal_bytes (sample_context 2000) > ep_wal_burst_bytes (sample_policy Queue)"
    by (simp_all add: sample_policy_def sample_context_def)
  ultimately show ?thesis by (simp add: admit_statement_def admit_queue_statement_def)
qed

end
