(* ===== verification/Pwb_Admission.thy ===== *)
theory Pwb_Admission
  imports Pwb_Prediction Pwb_Queue
begin

text \<open>
  Admitting a statement, \<^verbatim>\<open>src/admission.rs\<close>: the policy of its scope is looked up, the budget
  decides, and the decision is counted and kept among the recent ones. The state of an
  admission is the policy cache of the backend and the shared segment. The lemmas give what
  the telemetry records, and that every decision is recorded exactly once.
\<close>

section \<open>Errors\<close>

record admission_error_context =
  xc_policy_id :: "policy_id option"
  xc_scope_kind :: "scope_kind option"
  xc_scope_hash :: "scope_hash option"
  xc_query_id :: "query_id option"
  xc_statement_class :: statement_class
  xc_predicted_wal_bytes :: "wal_bytes option"

datatype admission_error =
    AdmissionInternal pwb_error "admission_error_context option"
  | AdmissionRejected policy_id wal_bytes wal_bytes

definition admission_internal :: "pwb_error \<Rightarrow> admission_error" where
  "admission_internal error = AdmissionInternal error None"

definition internal_with_context :: "pwb_error \<Rightarrow> admission_error_context \<Rightarrow> admission_error" where
  "internal_with_context error context = AdmissionInternal error (Some context)"

definition from_statement :: "query_id option \<Rightarrow> statement_class \<Rightarrow> admission_error_context" where
  "from_statement query_id statement_class =
     \<lparr>xc_policy_id = None, xc_scope_kind = None, xc_scope_hash = None, xc_query_id = query_id,
      xc_statement_class = statement_class, xc_predicted_wal_bytes = None\<rparr>"

definition from_admission_context :: "admission_context \<Rightarrow> admission_error_context" where
  "from_admission_context context =
     \<lparr>xc_policy_id = None, xc_scope_kind = Some (sk_kind (ac_scope context)),
      xc_scope_hash = Some (sk_value_hash (ac_scope context)), xc_query_id = ac_query_id context,
      xc_statement_class = ac_statement_class context,
      xc_predicted_wal_bytes = Some (ac_predicted_wal_bytes context)\<rparr>"

definition with_policy_id :: "admission_error_context \<Rightarrow> policy_id \<Rightarrow> admission_error_context" where
  "with_policy_id context policy_id = context\<lparr>xc_policy_id := Some policy_id\<rparr>"

definition internal_from_admission_context :: "pwb_error \<Rightarrow> admission_context \<Rightarrow> admission_error" where
  "internal_from_admission_context error context =
     internal_with_context error (from_admission_context context)"

section \<open>Telemetry\<close>

fun counter_delta_for_kind :: "decision_kind \<Rightarrow> wal_bytes \<Rightarrow> counter_delta" where
  "counter_delta_for_kind DkAllowed predicted =
     counter_delta_default\<lparr>cd_accepted_statements := 1, cd_predicted_wal_bytes := predicted\<rparr>"
| "counter_delta_for_kind DkNoMatchingPolicy predicted =
     counter_delta_default\<lparr>cd_accepted_statements := 1, cd_predicted_wal_bytes := predicted\<rparr>"
| "counter_delta_for_kind DkMissingScope predicted =
     counter_delta_default\<lparr>cd_accepted_statements := 1, cd_predicted_wal_bytes := predicted\<rparr>"
| "counter_delta_for_kind DkWouldReject predicted =
     counter_delta_default\<lparr>cd_accepted_statements := 1, cd_shadow_would_reject_count := 1,
       cd_predicted_wal_bytes := predicted\<rparr>"
| "counter_delta_for_kind DkRejected predicted =
     counter_delta_default\<lparr>cd_rejected_statements := 1, cd_predicted_wal_bytes := predicted\<rparr>"
| "counter_delta_for_kind DkInternalErrorFailOpen predicted =
     counter_delta_default\<lparr>cd_accepted_statements := 1, cd_internal_fail_open_count := 1,
       cd_predicted_wal_bytes := predicted\<rparr>"

definition counter_delta_for_decision :: "admission_decision \<Rightarrow> wal_bytes \<Rightarrow> counter_delta" where
  "counter_delta_for_decision decision predicted = counter_delta_for_kind (ad_kind decision) predicted"

definition admission_recent_decision ::
  "admission_context \<Rightarrow> admission_decision \<Rightarrow> epoch_millis \<Rightarrow> recent_decision_record" where
  "admission_recent_decision context decision now_epoch_ms =
     \<lparr>rr_timestamp_epoch_ms = now_epoch_ms, rr_decision_kind = ad_kind decision,
      rr_policy_id = ad_policy_id decision, rr_scope_kind = sk_kind (ac_scope context),
      rr_scope_hash = sk_value_hash (ac_scope context), rr_query_id = ac_query_id context,
      rr_statement_class = ac_statement_class context,
      rr_predicted_wal_bytes = ac_predicted_wal_bytes context, rr_actual_wal_bytes = None,
      rr_available_before = ad_available_before decision,
      rr_available_after = ad_available_after decision, rr_reason_code = ad_reason_code decision\<rparr>"

definition record_admission_decision ::
  "admission_context \<Rightarrow> admission_decision \<Rightarrow> epoch_millis \<Rightarrow> shmem \<Rightarrow> shmem" where
  "record_admission_decision context decision now_epoch_ms s =
     snd (record_admission_telemetry
            (counter_delta_for_decision decision (ac_predicted_wal_bytes context))
            (admission_recent_decision context decision now_epoch_ms)
            (ac_scope context) now_epoch_ms s)"

definition internal_fail_open_recent_decision ::
  "admission_error_context option \<Rightarrow> admission_decision \<Rightarrow> epoch_millis \<Rightarrow> recent_decision_record" where
  "internal_fail_open_recent_decision context decision now_epoch_ms =
     \<lparr>rr_timestamp_epoch_ms = now_epoch_ms, rr_decision_kind = ad_kind decision,
      rr_policy_id = Option.bind context xc_policy_id,
      rr_scope_kind = (case Option.bind context xc_scope_kind of None \<Rightarrow> Composite | Some k \<Rightarrow> k),
      rr_scope_hash = (case Option.bind context xc_scope_hash of None \<Rightarrow> 0 | Some h \<Rightarrow> h),
      rr_query_id = Option.bind context xc_query_id,
      rr_statement_class = (case context of None \<Rightarrow> Unknown | Some c \<Rightarrow> xc_statement_class c),
      rr_predicted_wal_bytes = (case Option.bind context xc_predicted_wal_bytes of None \<Rightarrow> 0 | Some p \<Rightarrow> p),
      rr_actual_wal_bytes = None, rr_available_before = 0, rr_available_after = 0,
      rr_reason_code = ad_reason_code decision\<rparr>"

definition record_internal_fail_open ::
  "admission_error_context option \<Rightarrow> epoch_millis \<Rightarrow> shmem \<Rightarrow> shmem" where
  "record_internal_fail_open context now_epoch_ms s =
     (let decision = decision_internal_error_fail_open;
          predicted_wal_bytes = (case Option.bind context xc_predicted_wal_bytes of None \<Rightarrow> 0 | Some p \<Rightarrow> p)
      in snd (record_decision_telemetry (counter_delta_for_decision decision predicted_wal_bytes)
                (internal_fail_open_recent_decision context decision now_epoch_ms) s))"

definition record_missing_actual_wal :: "shmem \<Rightarrow> shmem" where
  "record_missing_actual_wal s =
     snd (add_counters (counter_delta_default\<lparr>cd_missing_actual_wal_count := 1\<rparr>) s)"

section \<open>Admission\<close>

definition active_statement_from_context ::
  "admission_context \<Rightarrow> admission_decision \<Rightarrow> active_statement_state" where
  "active_statement_from_context context decision =
     \<lparr>as_decision = decision, as_start_wal_bytes = None, as_measurement_kind = Unavailable,
      as_query_id = ac_query_id context, as_scope_kind = sk_kind (ac_scope context),
      as_scope_hash = sk_value_hash (ac_scope context),
      as_statement_class = ac_statement_class context,
      as_predicted_wal_bytes = ac_predicted_wal_bytes context\<rparr>"

definition budget_exceeded_rejection ::
  "policy_id \<Rightarrow> wal_bytes \<Rightarrow> wal_bytes \<Rightarrow> admission_decision \<times> admission_error" where
  "budget_exceeded_rejection policy_id predicted available =
     (with_availability (decision_rejected policy_id predicted) available available,
      AdmissionRejected policy_id predicted available)"

text \<open>\<open>admit_context\<close>; \<open>None\<close> is a queued statement that waits forever.\<close>

definition admit_context ::
  "server \<Rightarrow> admission_context \<Rightarrow> policy_cache option \<times> shmem
     \<Rightarrow> ((admission_error + active_statement_state) \<times> policy_cache option \<times> shmem) option" where
  "admit_context v context cs =
     (let now_epoch_ms = sv_clock v in
      case effective_policy_for_scope (sv_store v) (ac_scope context) now_epoch_ms cs of
        (Inl error, cs) \<Rightarrow> Some (Inl (internal_from_admission_context error context), cs)
      | (Inr None, (cache, s)) \<Rightarrow>
          let decision = decision_no_matching_policy in
          Some (Inr (active_statement_from_context context decision),
                (cache, record_admission_decision context decision now_epoch_ms s))
      | (Inr (Some policy), (cache, s)) \<Rightarrow>
          (case admit_statement context policy (sv_wait v) now_epoch_ms s of
             None \<Rightarrow> None
           | Some (Inr decision, s) \<Rightarrow>
               Some (Inr (active_statement_from_context context decision),
                     (cache, record_admission_decision context decision now_epoch_ms s))
           | Some (Inl (BudgetExceeded policy_id predicted available), s) \<Rightarrow>
               (case budget_exceeded_rejection policy_id predicted available of
                  (decision, error) \<Rightarrow>
                    Some (Inl error, (cache, record_admission_decision context decision now_epoch_ms s)))
           | Some (Inl error, s) \<Rightarrow>
               Some (Inl (internal_with_context error
                            (with_policy_id (from_admission_context context) (ep_policy_id policy))),
                     (cache, s))))"

section \<open>What telemetry records\<close>

text \<open>
  One telemetry record: the counters grow by the delta (the count of dropped scope names may
  grow as well), the record becomes the newest of the recent decisions, and neither budgets
  nor profiles change, nor the state of the profile restore.
\<close>

definition recent_history :: "shmem \<Rightarrow> recent_decision_record list \<Rightarrow> bool" where
  "recent_history s hist \<longleftrightarrow> ring_repr (sm_state (sh_mem s), sm_recent_decisions (sh_mem s)) hist"

definition counters_of :: "shmem \<Rightarrow> pwb_counters" where
  "counters_of s = ss_counters (sm_state (sh_mem s))"

definition telemetry :: "counter_delta \<Rightarrow> recent_decision_record \<Rightarrow> shmem \<Rightarrow> shmem \<Rightarrow> bool" where
  "telemetry d r s s' \<longleftrightarrow>
     segment_ok s'
   \<and> (counters_of s')\<lparr>pc_scope_name_drop_count := 0\<rparr>
       = (saturating_add_delta (counters_of s) d)\<lparr>pc_scope_name_drop_count := 0\<rparr>
   \<and> (\<forall>hist. recent_history s hist \<longrightarrow>
        recent_history s' (ring_push (length (sm_recent_decisions (sh_mem s))) r hist))
   \<and> sm_budget_buckets (sh_mem s') = sm_budget_buckets (sh_mem s)
   \<and> sm_profiles (sh_mem s') = sm_profiles (sh_mem s)
   \<and> (\<forall>now stale. restore_due now stale (header_of s') = restore_due now stale (header_of s))"

lemma record_scope_frame:
  "sm_recent_decisions (record_scope_locked scope now m) = sm_recent_decisions m"
  "sm_budget_buckets (record_scope_locked scope now m) = sm_budget_buckets m"
  "sm_profiles (record_scope_locked scope now m) = sm_profiles m"
  "\<exists>n. sm_state (record_scope_locked scope now m)
     = (sm_state m)\<lparr>ss_counters := (ss_counters (sm_state m))\<lparr>pc_scope_name_drop_count := n\<rparr>\<rparr>"
proof -
  have keep: "\<exists>n. st = st\<lparr>ss_counters := (ss_counters st)\<lparr>pc_scope_name_drop_count := n\<rparr>\<rparr>" for st :: pwb_shared_state
    by (intro exI [of _ "pc_scope_name_drop_count (ss_counters st)"]) simp
  have "sm_state (record_scope_locked scope now m) = sm_state m
    \<or> (\<exists>n. sm_state (record_scope_locked scope now m)
       = (sm_state m)\<lparr>ss_counters := (ss_counters (sm_state m))\<lparr>pc_scope_name_drop_count := n\<rparr>\<rparr>)"
  proof (cases "sk_debug_value scope")
    case (Some sv)
    obtain res ns where ns: "record_scope_name_in_slice (sk_kind scope) (sk_value_hash scope) sv now
        (sm_scope_names m) = (res, ns)" by (meson surj_pair)
    show ?thesis
    proof (cases res)
      case Dropped
      then show ?thesis
        by (intro disjI2 exI [of _ "sat_add (pc_scope_name_drop_count (ss_counters (sm_state m))) 1"])
           (simp add: record_scope_locked_def Some ns Let_def)
    qed (simp add: record_scope_locked_def Some ns Let_def)
  qed (simp add: record_scope_locked_def)
  then show "\<exists>n. sm_state (record_scope_locked scope now m)
     = (sm_state m)\<lparr>ss_counters := (ss_counters (sm_state m))\<lparr>pc_scope_name_drop_count := n\<rparr>\<rparr>"
    using keep [of "sm_state m"] by (elim disjE) simp_all
qed (simp_all add: record_scope_locked_def Let_def split: option.split prod.split)

lemma locked_mem_sh: "segment_ok s \<Longrightarrow>
    sh_mem (snd (with_locked_mem callback s)) = snd (callback (sh_mem s))"
  using segment_guard by (cases "callback (sh_mem s)") (simp add: with_locked_mem_def)

lemma admission_telemetry_effect:
  assumes s: "segment_ok s" and v: "\<And>v. sk_debug_value scope = Some v \<Longrightarrow> utf8_valid v"
  shows "telemetry d r s (snd (record_admission_telemetry d r scope now s))"
proof -
  let ?m = "sh_mem s"
  let ?st = "(sm_state ?m)\<lparr>ss_counters := saturating_add_delta (ss_counters (sm_state ?m)) d\<rparr>"
  obtain st rs where reg: "record_recent_decision_locked r (?st, sm_recent_decisions ?m) = (st, rs)"
    by (meson surj_pair)
  let ?m2 = "?m\<lparr>sm_state := st, sm_recent_decisions := rs\<rparr>"
  have mem: "sh_mem (snd (record_admission_telemetry d r scope now s)) = record_scope_locked scope now ?m2"
    unfolding record_admission_telemetry_def by (simp add: locked_mem_sh [OF s] reg Let_def)
  obtain h n where st: "st = ?st\<lparr>ss_recent_decision_head := h, ss_recent_decision_count := n\<rparr>"
    using record_frame [of r "(?st, sm_recent_decisions ?m)"] by (auto simp: reg)
  obtain k where k: "sm_state (record_scope_locked scope now ?m2)
      = st\<lparr>ss_counters := (ss_counters st)\<lparr>pc_scope_name_drop_count := k\<rparr>\<rparr>"
    using record_scope_frame(4) [of scope now ?m2] by auto
  have ring: "ring_repr (st\<lparr>ss_counters := c\<rparr>, rs) (ring_push (length (sm_recent_decisions ?m)) r hist)"
    if "ring_repr (sm_state ?m, sm_recent_decisions ?m) hist" for c hist
  proof -
    have "ring_repr (?st, sm_recent_decisions ?m) hist"
      using that ring_repr_cong [of ?st "sm_state ?m"] by simp
    from ring_repr_record [OF this, of r]
    have "ring_repr (st, rs) (ring_push (length (sm_recent_decisions ?m)) r hist)" by (simp add: reg)
    then show ?thesis using ring_repr_cong [of "st\<lparr>ss_counters := c\<rparr>" st] by simp
  qed
  show ?thesis
    using segment_admission_telemetry(1) [OF s v] ring
    by (simp add: telemetry_def counters_of_def recent_history_def mem k record_scope_frame(1-3)) (simp add: st restore_due_def)
qed

lemma decision_telemetry_effect:
  assumes s: "segment_ok s"
  shows "telemetry d r s (snd (record_decision_telemetry d r s))"
proof -
  let ?st = "(sm_state (sh_mem s))\<lparr>ss_counters := saturating_add_delta (counters_of s) d\<rparr>"
  obtain s1 where 1: "add_counters d s = (Inr (), s1)"
    using segment_add_counters(2) [OF s, of d] by (cases "add_counters d s") simp
  have ok: "segment_ok s1" using segment_add_counters(1) [OF s, of d] by (simp add: 1)
  have m1: "sh_mem s1 = (sh_mem s)\<lparr>sm_state := ?st\<rparr>"
    using locked_mem_sh [OF s, of "\<lambda>m. (Inr (), m\<lparr>sm_state := (sm_state m)\<lparr>ss_counters :=
        saturating_add_delta (ss_counters (sm_state m)) d\<rparr>\<rparr>)"] 1 by (simp add: add_counters_def counters_of_def)
  obtain st rs where reg: "record_recent_decision_locked r (?st, sm_recent_decisions (sh_mem s)) = (st, rs)"
    by (meson surj_pair)
  have mem: "sh_mem (snd (record_decision_telemetry d r s)) = (sh_mem s)\<lparr>sm_state := st, sm_recent_decisions := rs\<rparr>"
    by (simp add: record_decision_telemetry_def 1 record_recent_decision_def with_locked_recent_def
        locked_mem_sh [OF ok] m1 reg)
  obtain h n where st: "st = ?st\<lparr>ss_recent_decision_head := h, ss_recent_decision_count := n\<rparr>"
    using record_frame [of r "(?st, sm_recent_decisions (sh_mem s))"] by (auto simp: reg)
  have ring: "ring_repr (st, rs) (ring_push (length (sm_recent_decisions (sh_mem s))) r hist)"
    if "ring_repr (sm_state (sh_mem s), sm_recent_decisions (sh_mem s)) hist" for hist
  proof -
    have "ring_repr (?st, sm_recent_decisions (sh_mem s)) hist"
      using that ring_repr_cong [of ?st "sm_state (sh_mem s)"] by simp
    from ring_repr_record [OF this, of r] show ?thesis by (simp add: reg)
  qed
  show ?thesis
    using segment_decision_telemetry(1) [OF s] ring
    by (simp add: telemetry_def counters_of_def recent_history_def mem) (simp add: st counters_of_def restore_due_def)
qed

section \<open>What an admission decides\<close>

text \<open>
  The outcome of the budget: an admitted statement has the policy of its scope and is charged
  nothing or exactly its prediction, and a refusal names the policy and the prediction.
\<close>

fun budget_outcome_ok :: "admission_context \<Rightarrow> effective_policy \<Rightarrow> admission_decision pwb_result \<Rightarrow> bool" where
  "budget_outcome_ok x policy (Inr d) \<longleftrightarrow>
     ad_kind d \<in> {DkAllowed, DkWouldReject} \<and> ad_policy_id d = Some (ep_policy_id policy)
   \<and> ad_charged_bytes d \<in> {0, ac_predicted_wal_bytes x}"
| "budget_outcome_ok x policy (Inl (BudgetExceeded p w a)) \<longleftrightarrow>
     p = ep_policy_id policy \<and> w = ac_predicted_wal_bytes x"
| "budget_outcome_ok x policy (Inl e) \<longleftrightarrow> True"

lemma charged_outcome: "budget_outcome_ok x policy (Inr (charged_decision policy (ac_predicted_wal_bytes x) now b))"
  by (simp add: charged_decision_fields)

lemma shadow_outcome: "budget_outcome_ok x policy (Inr (shadow_decision policy (ac_predicted_wal_bytes x) now b))"
  by (simp add: shadow_decision_def shadow_callback with_availability_def decision_allowed_def decision_would_reject_def)

lemma map_admit_fst:
  "fst (map_admit room full k i f m) =
     (if m k = None \<and> \<not> room then Inl full else fst (f (case m k of Some v \<Rightarrow> v | None \<Rightarrow> i)))"
  by (simp add: map_admit_def split: prod.split sum.split)

lemma reject_outcome:
  assumes "segment_ok s"
  shows "budget_outcome_ok x policy (fst (admit_reject_statement x policy now s))"
proof -
  have "fst (admit_reject_statement x policy now s) =
    fst (map_prod id segment_bucket (admit_reject_statement x policy now s))" by simp
  also have "budget_outcome_ok x policy \<dots>"
    unfolding reject_result(2) [OF assms] map_admit_fst
    by (simp add: reject_callback charged_outcome budget_bucket_capacity_exhausted_def
        del: budget_outcome_ok.simps(1))
  finally show ?thesis .
qed

fun attempt_outcome_ok :: "admission_context \<Rightarrow> effective_policy \<Rightarrow> charge_attempt pwb_result \<Rightarrow> bool" where
  "attempt_outcome_ok x policy (Inl e) \<longleftrightarrow> budget_outcome_ok x policy (Inl e)"
| "attempt_outcome_ok x policy (Inr (Admitted d)) \<longleftrightarrow> budget_outcome_ok x policy (Inr d)"
| "attempt_outcome_ok x policy (Inr (Failed e)) \<longleftrightarrow> budget_outcome_ok x policy (Inl e)"
| "attempt_outcome_ok x policy (Inr (WouldWait w)) \<longleftrightarrow> True"

lemma attempt_outcome:
  assumes "segment_ok s"
  shows "attempt_outcome_ok x policy (fst (queue_attempt x policy now s))"
proof -
  have wait: "budget_outcome_ok x policy (Inl e)" if "wait_ms_for_deficit d r = Inl e" for d r e
    using that by (auto simp: wait_ms_for_deficit_def Let_def split: if_splits)
  have "fst (queue_attempt x policy now s) = fst (map_prod id segment_bucket (queue_attempt x policy now s))" by simp
  also have "attempt_outcome_ok x policy \<dots>"
    unfolding queue_result(2) [OF assms] map_admit_fst
    using wait charged_outcome
    by (auto simp: queue_callback budget_bucket_capacity_exhausted_def simp del: budget_outcome_ok.simps(1) split: sum.split)
  finally show ?thesis .
qed

lemma queue_retry_outcome:
  assumes run: "admit_queue_with_retry (queue_attempt x policy) env i now s = Some y"
    and ok: "segment_ok s" and env: "\<And>i w s. segment_ok s \<Longrightarrow> segment_ok (snd (env i w s))"
  shows "segment_ok (snd y) \<and> budget_outcome_ok x policy (fst y)"
proof -
  let ?P = "\<lambda>a e i now s y. a = queue_attempt x policy \<longrightarrow> e = env \<longrightarrow> segment_ok s \<longrightarrow>
    segment_ok (snd y) \<and> budget_outcome_ok x policy (fst y)"
  have "?P (queue_attempt x policy) env i now s y"
  proof (rule admit_queue_with_retry.raw_induct [of ?P, OF _ run], intro impI)
    fix retry a e i now s y
    assume IH: "\<And>a e i now s y. retry a e i now s = Some y \<Longrightarrow> ?P a e i now s y"
      and a: "a = queue_attempt x policy" "e = env" and s: "segment_ok s"
      and body: "(case a now s of (Inl e, s) \<Rightarrow> Some (Inl e, s)
        | (Inr (Admitted d), s) \<Rightarrow> Some (Inr d, s)
        | (Inr (WouldWait w), s) \<Rightarrow> (case e i (qw_wait_ms w) s of (now, s) \<Rightarrow> retry a e (Suc i) now s)
        | (Inr (Failed e), s) \<Rightarrow> Some (Inl e, s)) = Some y"
    obtain r s1 where r: "queue_attempt x policy now s = (r, s1)" by (meson surj_pair)
    have s1: "segment_ok s1" "attempt_outcome_ok x policy r"
      using queue_result(1) [OF s, of x policy now] attempt_outcome [OF s, of x policy now] by (simp_all add: r)
    consider er where "r = Inl er" | d where "r = Inr (Admitted d)" | w where "r = Inr (WouldWait w)"
      | er where "r = Inr (Failed er)"
      by (metis charge_attempt.exhaust sum.exhaust)
    then show "segment_ok (snd y) \<and> budget_outcome_ok x policy (fst y)"
    proof cases
      case (3 w)
      obtain now2 s2 where w: "env i (qw_wait_ms w) s1 = (now2, s2)" by (meson surj_pair)
      have "segment_ok s2" using env [OF s1(1), of i "qw_wait_ms w"] by (simp add: w)
      moreover have "retry a e (Suc i) now2 s2 = Some y" using body by (simp add: a r 3 w)
      ultimately show ?thesis using IH a by blast
    qed (use body s1 in \<open>auto simp: a r simp del: budget_outcome_ok.simps\<close>)
  qed
  with ok show ?thesis by simp
qed

lemma admit_statement_outcome:
  assumes run: "admit_statement x policy env now s = Some (r, s')"
    and ok: "segment_ok s" and env: "\<And>i w s. segment_ok s \<Longrightarrow> segment_ok (snd (env i w s))"
  shows "segment_ok s' \<and> budget_outcome_ok x policy r"
proof (cases "\<not> ep_enabled policy \<or> ep_mode policy = Off \<or> ep_mode policy = Observe")
  case True
  then show ?thesis
    using run ok
    by (auto simp: admit_statement_def non_charging_admission_def decision_allowed_def split: if_splits)
next
  case False
  then consider "ep_mode policy = Shadow" | "ep_mode policy = Reject" | "ep_mode policy = Queue"
    by (cases "ep_mode policy") auto
  then show ?thesis
  proof cases
    case 1
    then show ?thesis
      using run False shadow_result(1,2) [OF ok, of x policy now] shadow_outcome [of x policy now]
      by (auto simp: admit_statement_def simp del: budget_outcome_ok.simps)
  next
    case 2
    then show ?thesis
      using run False reject_result(1) [OF ok, of x policy now] reject_outcome [OF ok, of x policy now]
      by (auto simp: admit_statement_def)
  next
    case 3
    show ?thesis
    proof (cases "ac_predicted_wal_bytes x > ep_wal_burst_bytes policy")
      case True
      then show ?thesis
        using run ok False 3 by (auto simp: admit_statement_def admit_queue_statement_def budget_exceeded_error_def)
    next
      case False
      then have "admit_queue_with_retry (queue_attempt x policy) env 0 now s = Some (r, s')"
        using run 3 \<open>\<not> (\<not> ep_enabled policy \<or> _)\<close> by (simp add: admit_statement_def admit_queue_statement_def)
      from queue_retry_outcome [OF this ok env] show ?thesis by simp
    qed
  qed
qed

section \<open>The admission of a statement\<close>

lemma policy_lookup_ok:
  assumes "server_ok v" and "segment_ok s"
  shows "segment_ok (snd (snd (effective_policy_for_scope (sv_store v) scope now (c, s))))"
proof (cases "should_reload c now")
  case True
  have "segment_ok (snd (load_enabled_policy_rows (sv_store v) s))" using assms by (simp add: server_ok_def)
  then show ?thesis by (auto simp: lookup_reload [OF True] split: prod.splits sum.splits)
next
  case False
  then obtain k where "c = Some k" "\<not> cache_is_stale k now" by (auto simp: should_reload_def split: option.splits)
  then show ?thesis using assms(2) by (simp add: lookup_fresh)
qed

lemma recorded_decision:
  assumes "segment_ok s" and "\<And>t. sk_debug_value (ac_scope x) = Some t \<Longrightarrow> utf8_valid t"
  shows "telemetry (counter_delta_for_kind (ad_kind d) (ac_predicted_wal_bytes x)) (admission_recent_decision x d now) s
    (record_admission_decision x d now s)"
  using admission_telemetry_effect [OF assms] by (simp add: record_admission_decision_def counter_delta_for_decision_def)

text \<open>What a caller may rely on, by outcome.\<close>

definition decision_recorded :: "server \<Rightarrow> admission_context \<Rightarrow> admission_decision \<Rightarrow> shmem \<Rightarrow> bool" where
  "decision_recorded v x d s' \<longleftrightarrow>
     (\<exists>s. segment_ok s \<and> telemetry (counter_delta_for_kind (ad_kind d) (ac_predicted_wal_bytes x))
            (admission_recent_decision x d (sv_clock v)) s s')"

fun admission_outcome_ok ::
  "server \<Rightarrow> admission_context \<Rightarrow> admission_error + active_statement_state \<Rightarrow> shmem \<Rightarrow> bool" where
  "admission_outcome_ok v x (Inr a) s' \<longleftrightarrow>
     as_start_wal_bytes a = None \<and> as_query_id a = ac_query_id x
   \<and> as_scope_kind a = sk_kind (ac_scope x) \<and> as_scope_hash a = sk_value_hash (ac_scope x)
   \<and> as_statement_class a = ac_statement_class x \<and> as_predicted_wal_bytes a = ac_predicted_wal_bytes x
   \<and> ad_kind (as_decision a) \<in> {DkAllowed, DkWouldReject, DkNoMatchingPolicy}
   \<and> ad_charged_bytes (as_decision a) \<in> {0, ac_predicted_wal_bytes x}
   \<and> (ad_policy_id (as_decision a) = None \<longleftrightarrow> ad_kind (as_decision a) = DkNoMatchingPolicy)
   \<and> (ad_kind (as_decision a) = DkNoMatchingPolicy \<longrightarrow> ad_charged_bytes (as_decision a) = 0)
   \<and> decision_recorded v x (as_decision a) s'"
| "admission_outcome_ok v x (Inl (AdmissionRejected p w available)) s' \<longleftrightarrow>
     w = ac_predicted_wal_bytes x
   \<and> decision_recorded v x \<lparr>ad_kind = DkRejected, ad_policy_id = Some p, ad_charged_bytes = w,
       ad_available_before = available, ad_available_after = available, ad_reason_code = RcBudgetExceeded\<rparr> s'"
| "admission_outcome_ok v x (Inl (AdmissionInternal e context)) s' \<longleftrightarrow>
     (\<exists>p. context = Some \<lparr>xc_policy_id = p, xc_scope_kind = Some (sk_kind (ac_scope x)),
        xc_scope_hash = Some (sk_value_hash (ac_scope x)), xc_query_id = ac_query_id x,
        xc_statement_class = ac_statement_class x, xc_predicted_wal_bytes = Some (ac_predicted_wal_bytes x)\<rparr>)"

lemma active_outcome:
  assumes "segment_ok s" and "\<And>t. sk_debug_value (ac_scope x) = Some t \<Longrightarrow> utf8_valid t"
    and "ad_kind d \<in> {DkAllowed, DkWouldReject} \<and> ad_policy_id d \<noteq> None
      \<and> ad_charged_bytes d \<in> {0, ac_predicted_wal_bytes x} \<or> d = decision_no_matching_policy"
  shows "segment_ok (record_admission_decision x d (sv_clock v) s)
    \<and> admission_outcome_ok v x (Inr (active_statement_from_context x d)) (record_admission_decision x d (sv_clock v) s)"
  using assms(1,3) recorded_decision [OF assms(1,2), where d = d and now = "sv_clock v"]
  by (auto simp: active_statement_from_context_def decision_recorded_def decision_no_matching_policy_def
      telemetry_def)

lemma rejected_outcome:
  assumes "segment_ok s" and "\<And>t. sk_debug_value (ac_scope x) = Some t \<Longrightarrow> utf8_valid t"
    and "w = ac_predicted_wal_bytes x"
    and "budget_exceeded_rejection p w available = (d, e)"
  shows "segment_ok (record_admission_decision x d (sv_clock v) s)
    \<and> admission_outcome_ok v x (Inl e) (record_admission_decision x d (sv_clock v) s)"
proof -
  have d: "d = \<lparr>ad_kind = DkRejected, ad_policy_id = Some p, ad_charged_bytes = w,
       ad_available_before = available, ad_available_after = available, ad_reason_code = RcBudgetExceeded\<rparr>"
    "e = AdmissionRejected p w available"
    using assms(4) by (auto simp: budget_exceeded_rejection_def decision_rejected_def with_availability_def)
  show ?thesis
    using assms(1,3) recorded_decision [OF assms(1,2), where d = d and now = "sv_clock v"]
    by (auto simp: d decision_recorded_def telemetry_def)
qed

lemma admit_context_cases:
  assumes "segment_ok s" and "server_ok v" and "\<forall>t. sk_debug_value (ac_scope x) = Some t \<longrightarrow> utf8_valid t"
  shows "((\<forall>policy. fst (effective_policy_for_scope (sv_store v) (ac_scope x) (sv_clock v) (c, s)) = Inr (Some policy)
             \<longrightarrow> ep_mode policy \<noteq> Queue) \<longrightarrow> admit_context v x (c, s) \<noteq> None)
   \<and> (\<forall>r c' s'. admit_context v x (c, s) = Some (r, (c', s')) \<longrightarrow>
        segment_ok s' \<and> admission_outcome_ok v x r s')"
proof -
  have utf8: "\<And>t. sk_debug_value (ac_scope x) = Some t \<Longrightarrow> utf8_valid t" using assms(3) by blast
  obtain p k t where look: "effective_policy_for_scope (sv_store v) (ac_scope x) (sv_clock v) (c, s) = (p, (k, t))"
    by (metis surj_pair)
  have t: "segment_ok t"
    using policy_lookup_ok [OF assms(2,1), of "ac_scope x" "sv_clock v" c] by (simp add: look)
  have env: "\<And>i w s. segment_ok s \<Longrightarrow> segment_ok (snd (sv_wait v i w s))"
    using assms(2) by (simp add: server_ok_def)
  note run = admit_context_def look Let_def
  consider e where "p = Inl e" | "p = Inr None" | policy where "p = Inr (Some policy)"
    by (metis option.exhaust sum.exhaust)
  then show ?thesis
  proof cases
    case (1 e)
    then show ?thesis
      using t by (simp add: run internal_from_admission_context_def internal_with_context_def from_admission_context_def)
  next
    case 2
    then show ?thesis
      using active_outcome [OF t utf8, where d = decision_no_matching_policy and v = v]
      by (auto simp: run simp del: admission_outcome_ok.simps)
  next
    case (3 policy)
    let ?out = "admit_statement x policy (sv_wait v) (sv_clock v) t"
    have returns: "ep_mode policy \<noteq> Queue \<Longrightarrow> ?out \<noteq> None"
      by (cases "ep_mode policy") (simp_all add: admit_statement_def)
    show ?thesis
    proof (cases ?out)
      case None
      then show ?thesis using returns by (auto simp: run 3)
    next
      case (Some y)
      obtain o' u where y: "y = (o', u)" by (cases y)
      note u = admit_statement_outcome [OF Some [unfolded y] t env]
      show ?thesis
      proof (cases o')
        case (Inr d)
        then show ?thesis
          using active_outcome [OF _ utf8, where s = u and d = d and v = v] u Some
          by (auto simp: run 3 y simp del: admission_outcome_ok.simps)
      next
        case (Inl e)
        show ?thesis
        proof (cases e)
          case (BudgetExceeded p w a)
          obtain d er where "budget_exceeded_rejection p w a = (d, er)" by (meson surj_pair)
          then show ?thesis
            using rejected_outcome [OF _ utf8, where s = u and w = w and p = p and available = a and d = d and e = er and v = v] u Some
            by (auto simp: run 3 y Inl BudgetExceeded simp del: admission_outcome_ok.simps)
        qed (use u Some in \<open>simp_all add: run 3 y Inl internal_with_context_def with_policy_id_def
              from_admission_context_def\<close>)
      qed
    qed
  qed
qed

section \<open>One statement, one count\<close>

lemma bucket_counters:
  assumes "segment_ok s"
  shows "counters_of (snd (with_existing_budget_bucket p h f s)) = counters_of s"
    and "counters_of (snd (admit_with_budget_bucket p h i g s)) = counters_of s"
proof -
  let ?reg = "(header_of s, sm_budget_buckets (sh_mem s))"
  obtain r st bs where e: "existing_budget_bucket p h f ?reg = (r, (st, bs))" by (metis surj_pair)
  obtain r' st' bs' where a: "apply_budget_bucket p h i g ?reg = (r', (st', bs'))" by (metis surj_pair)
  have "ss_counters st = ss_counters (header_of s)" "ss_counters st' = ss_counters (header_of s)"
    using bucket_frame_fields(6) [OF admit_bucket_frame(2) [of ?reg p h f]]
      bucket_frame_fields(6) [OF admit_bucket_frame(1) [of ?reg p h i g]] by (simp_all add: e a)
  then show "counters_of (snd (with_existing_budget_bucket p h f s)) = counters_of s"
    and "counters_of (snd (admit_with_budget_bucket p h i g s)) = counters_of s"
    by (simp_all add: with_existing_budget_bucket_def admit_with_budget_bucket_def with_locked_bucket_state_def
        locked_mem_sh [OF assms] e a counters_of_def)
qed

lemma shadow_counters:
  assumes "segment_ok s"
  shows "counters_of (snd (admit_shadow_statement x policy now s)) = counters_of s"
proof -
  have "snd (admit_shadow_statement x policy now s)
      = snd (with_existing_budget_bucket (ep_policy_id policy) (sk_value_hash (ac_scope x))
          (\<lambda>b. case admit_shadow_with_bucket (ac_predicted_wal_bytes x) policy now b of (d, b) \<Rightarrow> (Inr d, b)) s)"
    using segment_available [OF assms]
    by (auto simp: admit_shadow_statement_def sbind_def split: prod.split sum.split option.split)
  then show ?thesis using bucket_counters(1) [OF assms] by simp
qed

lemma budget_counters:
  assumes "segment_ok s" and "ep_mode policy \<noteq> Queue" and "admit_statement x policy env now s = Some (r, t)"
  shows "counters_of t = counters_of s"
  using assms(3) shadow_counters [OF assms(1), of x policy now] assms(2)
    bucket_counters(2) [OF assms(1), of "ep_policy_id policy" "sk_value_hash (ac_scope x)"
      "initial_bucket_state policy (sk_value_hash (ac_scope x)) now"
      "admit_reject_with_bucket (ac_predicted_wal_bytes x) policy now"]
  by (cases "ep_mode policy") (auto simp: admit_statement_def admit_reject_statement_def split: if_splits)

text \<open>What an admission without waiting adds to the counters; the count of dropped names may grow too.\<close>

fun outcome_counted ::
  "admission_context \<Rightarrow> admission_error + active_statement_state \<Rightarrow> pwb_counters \<Rightarrow> pwb_counters \<Rightarrow> bool" where
  "outcome_counted x (Inr a) c c' \<longleftrightarrow> c'\<lparr>pc_scope_name_drop_count := 0\<rparr> =
     c\<lparr>pc_accepted_statements := sat_add (pc_accepted_statements c) 1,
       pc_shadow_would_reject_count := (if ad_kind (as_decision a) = DkWouldReject
         then sat_add (pc_shadow_would_reject_count c) 1 else pc_shadow_would_reject_count c),
       pc_predicted_wal_bytes := sat_add (pc_predicted_wal_bytes c) (ac_predicted_wal_bytes x),
       pc_scope_name_drop_count := 0\<rparr>"
| "outcome_counted x (Inl (AdmissionRejected p w available)) c c' \<longleftrightarrow> c'\<lparr>pc_scope_name_drop_count := 0\<rparr> =
     c\<lparr>pc_rejected_statements := sat_add (pc_rejected_statements c) 1,
       pc_predicted_wal_bytes := sat_add (pc_predicted_wal_bytes c) (ac_predicted_wal_bytes x),
       pc_scope_name_drop_count := 0\<rparr>"
| "outcome_counted x (Inl (AdmissionInternal e context)) c c' \<longleftrightarrow> c' = c"

lemma decision_counts:
  fixes x :: admission_context and d :: admission_decision and now :: epoch_millis
  assumes "segment_ok s" and "\<And>t. sk_debug_value (ac_scope x) = Some t \<Longrightarrow> utf8_valid t"
  defines "c' \<equiv> counters_of (record_admission_decision x d now s)"
  shows "ad_kind d \<in> {DkAllowed, DkWouldReject, DkNoMatchingPolicy} \<Longrightarrow>
      outcome_counted x (Inr (active_statement_from_context x d)) (counters_of s) c'"
    and "ad_kind d = DkRejected \<Longrightarrow>
      outcome_counted x (Inl (AdmissionRejected p w available)) (counters_of s) c'"
  using recorded_decision [OF assms(1,2), where d = d and now = now]
  by (auto simp: telemetry_def c'_def saturating_add_delta_def counter_delta_default_def
      active_statement_from_context_def sat_add_zero)

lemma admit_context_counts:
  assumes "segment_ok s" and "server_ok v" and "\<forall>t. sk_debug_value (ac_scope x) = Some t \<longrightarrow> utf8_valid t"
    and fresh: "\<not> cache_is_stale k (sv_clock v)"
    and mode: "\<forall>policy. find_effective_policy k (ac_scope x) = Some policy \<longrightarrow> ep_mode policy \<noteq> Queue"
    and run: "admit_context v x (Some k, s) = Some (r, (c', s'))"
  shows "outcome_counted x r (counters_of s) (counters_of s')"
proof -
  have utf8: "\<And>t. sk_debug_value (ac_scope x) = Some t \<Longrightarrow> utf8_valid t" using assms(3) by blast
  have env: "\<And>i w s. segment_ok s \<Longrightarrow> segment_ok (snd (sv_wait v i w s))"
    using assms(2) by (simp add: server_ok_def)
  note look = lookup_fresh [OF fresh, of "sv_store v" "ac_scope x" s]
  show ?thesis
  proof (cases "find_effective_policy k (ac_scope x)")
    case None
    then show ?thesis
      using run decision_counts(1) [OF assms(1) utf8, where d = decision_no_matching_policy]
      by (auto simp: admit_context_def look Let_def decision_no_matching_policy_def simp del: outcome_counted.simps)
  next
    case (Some policy)
    let ?out = "admit_statement x policy (sv_wait v) (sv_clock v) s"
    from run Some obtain o' t where out: "?out = Some (o', t)"
      by (auto simp: admit_context_def look Let_def split: option.splits)
    have same: "counters_of t = counters_of s"
      using budget_counters [OF assms(1) _ out] mode Some by blast
    note ok = admit_statement_outcome [OF out assms(1) env]
    show ?thesis
    proof (cases o')
      case (Inr d)
      then have "ad_kind d \<in> {DkAllowed, DkWouldReject, DkNoMatchingPolicy}" using ok by auto
      with decision_counts(1) [OF _ utf8, where s = t and d = d] ok run Some out Inr same
      show ?thesis by (auto simp: admit_context_def look Let_def simp del: outcome_counted.simps)
    next
      case (Inl e)
      show ?thesis
      proof (cases e)
        case (BudgetExceeded p w a)
        have "ad_kind (with_availability (decision_rejected p w) a a) = DkRejected"
          by (simp add: with_availability_def decision_rejected_def)
        with decision_counts(2) [OF _ utf8, where s = t] ok run Some out Inl BudgetExceeded same
        show ?thesis
          by (auto simp: admit_context_def look Let_def budget_exceeded_rejection_def simp del: outcome_counted.simps(2))
      qed (use run Some out Inl same in \<open>auto simp: admit_context_def look Let_def internal_with_context_def\<close>)
    qed
  qed
qed


definition sample_cache :: "budget_mode \<Rightarrow> policy_cache" where
  "sample_cache mode = \<lparr>pc_refreshed_epoch_ms = 1000,
     pc_policies = [\<lparr>cp_scope_kind = Tenant, cp_scope_value = None, cp_policy = sample_policy mode\<rparr>]\<rparr>"

lemma sample_lookup:
  "effective_policy_for_scope st (ac_scope (sample_context p)) 1000 (Some (sample_cache mode), s)
    = (Inr (Some (sample_policy mode)), (Some (sample_cache mode), s))"
proof -
  have "\<not> cache_is_stale (sample_cache mode) 1000"
    by (simp add: cache_is_stale_def sample_cache_def POLICY_CACHE_REFRESH_INTERVAL_MS_def sat_sub_def)
  then show ?thesis
    by (simp add: lookup_fresh find_effective_policy_def sample_cache_def policy_matches_scope_def sample_context_def)
qed


end
