(* ===== verification/Pwb_Reconcile.thy ===== *)
theory Pwb_Reconcile
  imports Pwb_Admission
begin

text \<open>
  Settling a statement when it ends, \<^verbatim>\<open>src/reconcile.rs\<close>: the log it really wrote is read from
  the counter of the backend, recorded, learned from, and the difference to its charge is
  refunded or becomes debt; an aborted statement gets its charge back. The lemmas give the
  net effect on the budget: every byte that was written is accounted for once.
\<close>

section \<open>Operations\<close>

datatype budget_reconciliation_t = ReconcileNone | ReconcileRefund wal_bytes | ReconcileDebt wal_bytes

record charged_statement =
  cs_policy_id :: "policy_id option"
  cs_scope_hash :: scope_hash
  cs_charged_bytes :: wal_bytes
  cs_query_id :: "query_id option"
  cs_is_allowed :: bool

definition from_active :: "active_statement_state \<Rightarrow> charged_statement" where
  "from_active statement =
     \<lparr>cs_policy_id = ad_policy_id (as_decision statement), cs_scope_hash = as_scope_hash statement,
      cs_charged_bytes = ad_charged_bytes (as_decision statement), cs_query_id = as_query_id statement,
      cs_is_allowed = (ad_kind (as_decision statement) = DkAllowed)\<rparr>"

definition charged_policy_id :: "charged_statement \<Rightarrow> policy_id option" where
  "charged_policy_id charge =
     (if \<not> cs_is_allowed charge \<or> cs_charged_bytes charge = 0 then None else cs_policy_id charge)"

text \<open>
  \<open>current_backend_wal_bytes\<close> is \<^const>\<open>sv_wal_bytes\<close>: the counter of the backend, or
  nothing on a server version that has none.
\<close>

definition capture_start :: "server \<Rightarrow> active_statement_state \<Rightarrow> active_statement_state" where
  "capture_start v statement =
     (case sv_wal_bytes v of
        Some wal_bytes \<Rightarrow> statement\<lparr>as_start_wal_bytes := Some wal_bytes, as_measurement_kind := ExactBackend\<rparr>
      | None \<Rightarrow> statement\<lparr>as_start_wal_bytes := None, as_measurement_kind := Unavailable\<rparr>)"

definition wal_delta :: "wal_bytes \<Rightarrow> wal_bytes \<Rightarrow> wal_bytes" where
  "wal_delta start end_bytes = sat_sub end_bytes start"

definition prediction_error :: "wal_bytes \<Rightarrow> wal_bytes \<Rightarrow> wal_bytes" where
  "prediction_error predicted actual = abs_diff predicted actual"

definition exact_reconciliation_debt_bytes :: "charged_statement \<Rightarrow> wal_bytes \<Rightarrow> wal_bytes" where
  "exact_reconciliation_debt_bytes charge actual_wal_bytes = sat_sub actual_wal_bytes (cs_charged_bytes charge)"

definition budget_reconciliation :: "charged_statement \<Rightarrow> wal_bytes \<Rightarrow> budget_reconciliation_t" where
  "budget_reconciliation charge actual_wal_bytes =
     (if actual_wal_bytes < cs_charged_bytes charge
      then ReconcileRefund (cs_charged_bytes charge - actual_wal_bytes)
      else if actual_wal_bytes > cs_charged_bytes charge
      then ReconcileDebt (actual_wal_bytes - cs_charged_bytes charge)
      else ReconcileNone)"

definition reconcile_budget :: "charged_statement \<Rightarrow> wal_bytes \<Rightarrow> shmem \<Rightarrow> unit pwb_result \<times> shmem" where
  "reconcile_budget charge actual_wal_bytes s =
     (case charged_policy_id charge of
        None \<Rightarrow> (Inr (), s)
      | Some policy_id \<Rightarrow>
          (case budget_reconciliation charge actual_wal_bytes of
             ReconcileNone \<Rightarrow> (Inr (), s)
           | ReconcileRefund refund_bytes \<Rightarrow>
               sbind (refund_charged_bytes policy_id (cs_scope_hash charge) refund_bytes s) (\<lambda>_ s. (Inr (), s))
           | ReconcileDebt debt_bytes \<Rightarrow>
               sbind (record_underprediction_debt policy_id (cs_scope_hash charge) debt_bytes s) (\<lambda>_ s. (Inr (), s))))"

definition record_reconciliation_result :: "unit pwb_result \<times> shmem \<Rightarrow> shmem" where
  "record_reconciliation_result rs =
     (case rs of
        (Inl e, s) \<Rightarrow> snd (add_counters (counter_delta_default\<lparr>cd_internal_fail_open_count := 1\<rparr>) s)
      | (Inr u, s) \<Rightarrow> s)"

definition completed_delta :: "active_statement_state \<Rightarrow> wal_bytes \<Rightarrow> wal_bytes \<Rightarrow> counter_delta" where
  "completed_delta statement actual_wal_bytes debt_bytes =
     counter_delta_default\<lparr>cd_actual_wal_bytes := actual_wal_bytes,
       cd_absolute_prediction_error := prediction_error (as_predicted_wal_bytes statement) actual_wal_bytes,
       cd_scope_debt_bytes := debt_bytes\<rparr>"

definition completed_recent_decision ::
  "active_statement_state \<Rightarrow> wal_bytes \<Rightarrow> epoch_millis \<Rightarrow> recent_decision_record" where
  "completed_recent_decision statement actual_wal_bytes now_epoch_ms =
     \<lparr>rr_timestamp_epoch_ms = now_epoch_ms, rr_decision_kind = ad_kind (as_decision statement),
      rr_policy_id = ad_policy_id (as_decision statement), rr_scope_kind = as_scope_kind statement,
      rr_scope_hash = as_scope_hash statement, rr_query_id = as_query_id statement,
      rr_statement_class = as_statement_class statement,
      rr_predicted_wal_bytes = as_predicted_wal_bytes statement,
      rr_actual_wal_bytes = Some actual_wal_bytes,
      rr_available_before = ad_available_before (as_decision statement),
      rr_available_after = ad_available_after (as_decision statement),
      rr_reason_code = ad_reason_code (as_decision statement)\<rparr>"

definition reconcile_completed_statement :: "server \<Rightarrow> active_statement_state \<Rightarrow> shmem \<Rightarrow> shmem" where
  "reconcile_completed_statement v statement s =
     (case (as_start_wal_bytes statement, sv_wal_bytes v) of
        (Some start_wal_bytes, Some end_wal_bytes) \<Rightarrow>
          let actual_wal_bytes = wal_delta start_wal_bytes end_wal_bytes;
              now_epoch_ms = sv_clock v;
              charge = from_active statement;
              debt_bytes = (if charged_policy_id charge \<noteq> None
                            then exact_reconciliation_debt_bytes charge actual_wal_bytes else 0);
              s = record_reconciliation_result (record_decision_telemetry
                    (completed_delta statement actual_wal_bytes debt_bytes)
                    (completed_recent_decision statement actual_wal_bytes now_epoch_ms) s);
              s = (case cs_query_id charge of
                     None \<Rightarrow> s
                   | Some query_id \<Rightarrow> record_reconciliation_result (record_query_observation v
                         (cs_scope_hash charge) query_id actual_wal_bytes now_epoch_ms s))
          in if charged_policy_id charge \<noteq> None
             then record_reconciliation_result (reconcile_budget charge actual_wal_bytes s)
             else s
      | _ \<Rightarrow> record_missing_actual_wal s)"

definition record_aborted_statement :: "active_statement_state \<Rightarrow> shmem \<Rightarrow> unit pwb_result \<times> shmem" where
  "record_aborted_statement statement s =
     (let charge = from_active statement in
      case charged_policy_id charge of
        None \<Rightarrow> (Inr (), s)
      | Some policy_id \<Rightarrow>
          let result = sbind (refund_charged_bytes policy_id (cs_scope_hash charge) (cs_charged_bytes charge) s)
                 (\<lambda>_ s. add_counters (counter_delta_default\<lparr>cd_aborted_after_charge_count := 1\<rparr>) s)
          in (fst result, record_reconciliation_result result))"

section \<open>Budgets under the bookkeeping\<close>

lemma segment_bucket_cong:
  "sm_budget_buckets (sh_mem s') = sm_budget_buckets (sh_mem s) \<Longrightarrow> segment_bucket s' = segment_bucket s"
  unfolding segment_bucket_def by (metis bucket_at_snd snd_conv)

lemma telemetry_buckets: "telemetry d r s s' \<Longrightarrow> segment_bucket s' = segment_bucket s"
  by (rule segment_bucket_cong) (simp add: telemetry_def)

lemma counters_effect:
  assumes "segment_ok s"
  shows "segment_ok (snd (add_counters d s))"
    and "segment_bucket (snd (add_counters d s)) = segment_bucket s"
    and "counters_of (snd (add_counters d s)) = saturating_add_delta (counters_of s) d"
    and "header_of (snd (add_counters d s)) = (header_of s)\<lparr>ss_counters := saturating_add_delta (counters_of s) d\<rparr>"
    and "sm_profiles (sh_mem (snd (add_counters d s))) = sm_profiles (sh_mem s)"
proof -
  have mem: "sh_mem (snd (add_counters d s))
      = (sh_mem s)\<lparr>sm_state := (header_of s)\<lparr>ss_counters := saturating_add_delta (counters_of s) d\<rparr>\<rparr>"
    by (simp add: add_counters_def locked_mem_sh [OF assms] counters_of_def)
  show "segment_ok (snd (add_counters d s))" by (rule segment_add_counters(1) [OF assms])
  show "segment_bucket (snd (add_counters d s)) = segment_bucket s" by (rule segment_bucket_cong) (simp add: mem)
qed (simp_all add: add_counters_def locked_mem_sh [OF assms] counters_of_def)

lemma result_effect:
  assumes "segment_ok (snd rs)"
  shows "segment_ok (record_reconciliation_result rs)"
    and "segment_bucket (record_reconciliation_result rs) = segment_bucket (snd rs)"
    and "fst rs = Inr () \<Longrightarrow> record_reconciliation_result rs = snd rs"
  using assms counters_effect(1,2)
  by (cases rs; cases "fst rs"; simp add: record_reconciliation_result_def)+

lemma observing_ok:
  assumes "server_ok v" and "segment_ok s"
  shows "segment_ok (snd (record_query_observation v h q a t s))"
    and "\<not> restore_due (sv_restore_clock v) PROFILE_RESTORE_STALE_MS (header_of s) \<Longrightarrow>
      segment_bucket (snd (record_query_observation v h q a t s)) = segment_bucket s"
proof -
  obtain r s1 where e: "ensure_catalog_loaded v s = (r, s1)" by (meson surj_pair)
  have s1: "segment_ok s1" using ensure_catalog_ok [OF assms] by (simp add: e)
  have frame: "segment_bucket (snd (upsert_scoped_and_global_query_profiles h q a t w s)) = segment_bucket s" for w
    using assms(2) by (intro segment_bucket_cong)
      (simp add: upsert_scoped_and_global_query_profiles_def with_locked_profiles_eq split: prod.split)
  show "segment_ok (snd (record_query_observation v h q a t s))"
    using s1 segment_upsert [OF s1] alpha_weights_ok
    by (auto simp: record_query_observation_def e sbind_def split: sum.splits)
  assume "\<not> restore_due (sv_restore_clock v) PROFILE_RESTORE_STALE_MS (header_of s)"
  then have "ensure_catalog_loaded v s = (Inr (), s)"
    using assms by (simp add: ensure_catalog_loaded_def server_ok_def ensure_loaded_cases(1))
  then show "segment_bucket (snd (record_query_observation v h q a t s)) = segment_bucket s"
    using frame by (auto simp: record_query_observation_def sbind_def split: sum.splits)
qed

section \<open>Settling a charge\<close>

text \<open>What settling does to the bucket of a charged statement.\<close>

definition settled :: "wal_bytes \<Rightarrow> wal_bytes \<Rightarrow> budget_bucket_state \<Rightarrow> budget_bucket_state" where
  "settled charged actual b =
     (if actual < charged then snd (refund_bucket (charged - actual) b)
      else if actual > charged then snd (debt_bucket (actual - charged) b)
      else b)"

definition on_bucket ::
  "charged_statement \<Rightarrow> (budget_bucket_state \<Rightarrow> budget_bucket_state) \<Rightarrow> shmem \<Rightarrow> bucket_key \<rightharpoonup> budget_bucket_state" where
  "on_bucket charge f s =
     (case charged_policy_id charge of
        None \<Rightarrow> segment_bucket s
      | Some p \<Rightarrow>
          (case segment_bucket s (p, cs_scope_hash charge) of
             None \<Rightarrow> segment_bucket s
           | Some b \<Rightarrow> (segment_bucket s)((p, cs_scope_hash charge) \<mapsto> f b)))"

lemma on_bucket_cong: "segment_bucket t = segment_bucket s \<Longrightarrow> on_bucket charge f t = on_bucket charge f s"
  by (simp only: on_bucket_def)

lemma reconcile_budget_effect:
  assumes "segment_ok s"
  shows "segment_ok (snd (reconcile_budget charge a s))"
    and "fst (reconcile_budget charge a s) = Inr ()"
    and "segment_bucket (snd (reconcile_budget charge a s)) = on_bucket charge (settled (cs_charged_bytes charge) a) s"
proof -
  have "segment_ok (snd (reconcile_budget charge a s)) \<and> fst (reconcile_budget charge a s) = Inr ()
    \<and> segment_bucket (snd (reconcile_budget charge a s)) = on_bucket charge (settled (cs_charged_bytes charge) a) s"
  proof (cases "charged_policy_id charge")
    case None
    then show ?thesis using assms by (simp add: reconcile_budget_def on_bucket_def)
  next
    case (Some p)
    let ?h = "cs_scope_hash charge" and ?c = "cs_charged_bytes charge"
    note refund = refund_result [OF assms, of p ?h "?c - a"]
    note debt = debt_result [OF assms, of p ?h "a - ?c"]
    have upd: "m k = Some b \<Longrightarrow> m(k \<mapsto> b) = m" for m :: "bucket_key \<rightharpoonup> budget_bucket_state" and k b by auto
    obtain r1 s1 where r1: "refund_budget_charge p ?h (?c - a) s = (r1, s1)" by (meson surj_pair)
    obtain r2 s2 where r2: "record_budget_debt p ?h (a - ?c) s = (r2, s2)" by (meson surj_pair)
    consider "a < ?c" | "?c < a" | "a = ?c" by fastforce
    then show ?thesis
      by cases (use assms refund debt r1 r2 upd in
        \<open>auto simp: reconcile_budget_def on_bucket_def settled_def Some budget_reconciliation_def
            refund_charged_bytes_def record_underprediction_debt_def split: option.splits\<close>)
  qed
  then show "segment_ok (snd (reconcile_budget charge a s))" "fst (reconcile_budget charge a s) = Inr ()"
    "segment_bucket (snd (reconcile_budget charge a s)) = on_bucket charge (settled (cs_charged_bytes charge) a) s"
    by simp_all
qed

lemma uncharged_on_bucket: "charged_policy_id charge = None \<Longrightarrow> on_bucket charge f s = segment_bucket s"
  by (simp add: on_bucket_def)

text \<open>A measured statement: its telemetry, its observation, its settlement.\<close>

lemma completed_measured:
  assumes s: "segment_ok s" and v: "server_ok v"
    and start: "as_start_wal_bytes st = Some b0" and stop: "sv_wal_bytes v = Some b1"
  defines "a \<equiv> wal_delta b0 b1" and "charge \<equiv> from_active st"
  shows "segment_ok (reconcile_completed_statement v st s)"
    and "\<exists>t. telemetry (completed_delta st a (if charged_policy_id charge \<noteq> None
              then sat_sub a (cs_charged_bytes charge) else 0)) (completed_recent_decision st a (sv_clock v)) s t
       \<and> (as_query_id st = None \<or> \<not> restore_due (sv_restore_clock v) PROFILE_RESTORE_STALE_MS (header_of s) \<longrightarrow>
            segment_bucket (reconcile_completed_statement v st s) = on_bucket charge (settled (cs_charged_bytes charge) a) t)"
proof -
  let ?d = "completed_delta st a (if charged_policy_id charge \<noteq> None then sat_sub a (cs_charged_bytes charge) else 0)"
  let ?r = "completed_recent_decision st a (sv_clock v)"
  define t where "t = snd (record_decision_telemetry ?d ?r s)"
  have tel: "telemetry ?d ?r s t" unfolding t_def by (rule decision_telemetry_effect [OF s])
  have t: "segment_ok t" using tel by (simp add: telemetry_def)
  have first: "record_reconciliation_result (record_decision_telemetry ?d ?r s) = t"
    using result_effect(3) [of "record_decision_telemetry ?d ?r s"] segment_decision_telemetry [OF s, of ?d ?r]
    by (simp add: t_def)
  define u where "u = (case cs_query_id charge of None \<Rightarrow> t | Some q \<Rightarrow>
     record_reconciliation_result (record_query_observation v (cs_scope_hash charge) q a (sv_clock v) t))"
  have u: "segment_ok u"
    using t result_effect(1) observing_ok(1) [OF v t] by (auto simp: u_def split: option.split)
  have due: "restore_due now stale (header_of t) = restore_due now stale (header_of s)" for now stale
    using tel by (simp add: telemetry_def)
  have ub: "segment_bucket u = segment_bucket t"
    if "as_query_id st = None \<or> \<not> restore_due (sv_restore_clock v) PROFILE_RESTORE_STALE_MS (header_of s)"
    using that t result_effect(2) observing_ok [OF v t]
    by (auto simp: u_def due charge_def from_active_def split: option.splits)
  have result: "reconcile_completed_statement v st s = (if charged_policy_id charge \<noteq> None
      then record_reconciliation_result (reconcile_budget charge a u) else u)"
    unfolding u_def first [symmetric] a_def charge_def reconcile_completed_statement_def
      exact_reconciliation_debt_bytes_def Let_def
    by (simp add: start stop)
  note rec = reconcile_budget_effect [OF u, of charge a]
  have settle: "record_reconciliation_result (reconcile_budget charge a u) = snd (reconcile_budget charge a u)"
    by (rule result_effect(3) [OF rec(1,2)])
  show "segment_ok (reconcile_completed_statement v st s)"
    using u rec(1) by (simp add: result settle)
  have "segment_bucket (reconcile_completed_statement v st s) = on_bucket charge (settled (cs_charged_bytes charge) a) u"
    using rec(3) by (simp add: result settle uncharged_on_bucket)
  then show "\<exists>t. telemetry ?d ?r s t
       \<and> (as_query_id st = None \<or> \<not> restore_due (sv_restore_clock v) PROFILE_RESTORE_STALE_MS (header_of s) \<longrightarrow>
            segment_bucket (reconcile_completed_statement v st s) = on_bucket charge (settled (cs_charged_bytes charge) a) t)"
    using tel ub on_bucket_cong by metis
qed

lemma completed_unmeasured:
  assumes "as_start_wal_bytes st = None \<or> sv_wal_bytes v = None"
  shows "reconcile_completed_statement v st s = record_missing_actual_wal s"
  using assms by (auto simp: reconcile_completed_statement_def split: option.split)

section \<open>Every byte is accounted for\<close>

lemma active_start:
  "as_start_wal_bytes (capture_start v st) = sv_wal_bytes v"
  "from_active (capture_start v st) = from_active st"
  "as_query_id (capture_start v st) = as_query_id st"
  by (simp_all add: capture_start_def from_active_def split: option.split)

lemma reject_admitted:
  assumes "segment_ok s" and "admit_reject_statement c policy now s = (Inr d, s1)"
  defines "b \<equiv> bucket_before c policy now s" and "p \<equiv> ac_predicted_wal_bytes c"
  shows "unat p \<le> available_at policy now b" and "d = charged_decision policy p now b"
    and "segment_bucket s1 = (segment_bucket s)(context_key c policy \<mapsto> charged_bucket policy p now b)"
  using reject_result(2) [OF assms(1), of c policy now, unfolded assms(2), simplified]
  by (auto simp: map_admit_def bucket_before_def reject_callback b_def p_def split: if_splits option.splits)

lemma charged_active:
  fixes c :: admission_context and policy and now and b
  defines "st \<equiv> active_statement_from_context c (charged_decision policy (ac_predicted_wal_bytes c) now b)"
  shows "charged_policy_id (from_active st) = (if ac_predicted_wal_bytes c = 0 then None else Some (ep_policy_id policy))"
    and "cs_scope_hash (from_active st) = sk_value_hash (ac_scope c)"
    and "cs_charged_bytes (from_active st) = ac_predicted_wal_bytes c"
  by (simp_all add: st_def active_statement_from_context_def from_active_def charged_policy_id_def charged_decision_fields)

text \<open>The settlement of a charged bucket, in numbers.\<close>

lemma settled_charged_bucket:
  fixes p a :: wal_bytes
  assumes "unat p \<le> available_at policy now b"
  defines "b' \<equiv> settled p a (charged_bucket policy p now b)"
  shows "unat (bb_available_bytes b') = available_at policy now b - min (unat a) (unat p)"
    and "unat (bb_debt_bytes b') = min (unat (bb_debt_bytes b) + (unat a - unat p)) (2 ^ 64 - 1)"
proof -
  let ?A = "available_at policy now b" and ?c = "charged_bucket policy p now b"
  have av: "unat (bb_available_bytes ?c) = ?A - unat p" by (rule charged_bucket_fields(1) [OF assms(1)])
  have burst: "?A \<le> unat (ep_wal_burst_bytes policy)" by (rule available_at_burst)
  have lim: "unat (ep_wal_burst_bytes policy) < 2 ^ 64" using unat_bound [of "ep_wal_burst_bytes policy"] by simp
  consider "a < p" | "p < a" | "a = p" by fastforce
  then have "unat (bb_available_bytes b') = ?A - min (unat a) (unat p)
    \<and> unat (bb_debt_bytes b') = min (unat (bb_debt_bytes b) + (unat a - unat p)) (2 ^ 64 - 1)"
  proof cases
    case 1
    then have "unat a < unat p" "unat (p - a) = unat p - unat a"
      by (simp_all add: word_less_nat_alt unat_sub word_le_nat_alt)
    moreover have "unat (sat_add (bb_available_bytes ?c) (p - a)) = ?A - unat a"
    proof -
      have "?A - unat p + (unat p - unat a) = ?A - unat a" using calculation(1) assms(1) by linarith
      moreover have "?A - unat a \<le> 2 ^ 64 - 1" using burst lim by linarith
      ultimately show ?thesis using av \<open>unat (p - a) = _\<close> by (simp add: unat_sat_add)
    qed
    moreover have "min (?A - unat a) (unat (ep_wal_burst_bytes policy)) = ?A - unat a"
      using burst by linarith
    ultimately show ?thesis
      using 1 unat_u64_le [of "bb_debt_bytes b"]
      by (simp add: b'_def settled_def refund_bucket_def word_min_nat charged_bucket_fields)
  next
    case 2
    then have "unat p < unat a" "unat (a - p) = unat a - unat p" "\<not> a < p"
      by (simp_all add: word_less_nat_alt unat_sub word_le_nat_alt)
    then show ?thesis
      using 2 av by (simp add: b'_def settled_def debt_bucket_def unat_sat_add charged_bucket_fields)
  next
    case 3
    then show ?thesis
      using av unat_u64_le [of "bb_debt_bytes b"] by (simp add: b'_def settled_def charged_bucket_fields)
  qed
  then show "unat (bb_available_bytes b') = ?A - min (unat a) (unat p)"
    "unat (bb_debt_bytes b') = min (unat (bb_debt_bytes b) + (unat a - unat p)) (2 ^ 64 - 1)" by simp_all
qed



definition measured_server :: "wal_bytes \<Rightarrow> server" where
  "measured_server n = idle_server\<lparr>sv_wal_bytes := Some n\<rparr>"

lemma measured_server_ok: "server_ok (measured_server n)"
  by (simp add: server_ok_def measured_server_def idle_server_def idle_store_def loads_ok_def writes_ok_def
      load_catalog_profiles_def persist_catalog_profiles_def load_profiles_from_def
      persist_profiles_with_def snapshots_ok_def)

lemma sample_before:
  "bucket_before (sample_context 4000) (sample_policy Reject) 10 started_shmem
    = initial_bucket_state (sample_policy Reject) 99 10"
  by (simp add: bucket_before_def started_shmem_ok(2) sample_context_def)



end
