(* ===== verification/Pwb_Utility.thy ===== *)
theory Pwb_Utility
  imports Pwb_Reconcile
begin

text \<open>
  Classifying and admitting utility statements, \<^verbatim>\<open>src/utility.rs\<close>, with the state of a backend
  that the statement hooks work on. The server hands over its plan trees; a tree is a record
  of the fields the code reads, a node tag is its name, a pointer that may be null an option,
  and a C string its bytes. The lemmas show which utility statements count as read-only.
\<close>

section \<open>Plan trees\<close>

type_synonym node_tag = string

datatype cmd_type = CMD_SELECT | CMD_INSERT | CMD_UPDATE | CMD_DELETE | CMD_MERGE | CMD_UTILITY | CMD_OTHER nat

text \<open>
  A node has its tag; the other fields are those of the struct that the tag stands for:
  \<open>Boolean\<close>, \<open>CopyStmt\<close>, \<open>ExplainStmt\<close> (a null list or a list of possibly null elements) and
  \<open>CreateExtensionStmt\<close>.
\<close>

record boolean_node =
  bn_tag :: node_tag
  bn_boolval :: bool

record def_elem =
  de_defname :: "string option"
  de_arg :: "boolean_node option"

record node =
  nd_tag :: node_tag
  nd_is_from :: bool
  nd_options :: "def_elem option list option"
  nd_extname :: "string option"

record planned_stmt =
  ps_command_type :: cmd_type
  ps_has_modifying_cte :: bool
  ps_query_id :: u64
  ps_utility_stmt :: "node option"

section \<open>Classification\<close>

definition read_only_utility_tags :: "node_tag list" where
  "read_only_utility_tags =
     [''VariableSetStmt'', ''VariableShowStmt'', ''TransactionStmt'', ''DeclareCursorStmt'',
      ''ClosePortalStmt'', ''FetchStmt'', ''ListenStmt'', ''UnlistenStmt'', ''DiscardStmt'',
      ''LockStmt'', ''ConstraintsSetStmt'', ''PrepareStmt'', ''DeallocateStmt'']"

definition wal_candidate_utility_tags :: "node_tag list" where
  "wal_candidate_utility_tags =
     [''CreateSchemaStmt'', ''AlterTableStmt'', ''AlterCollationStmt'', ''AlterDomainStmt'',
      ''GrantStmt'', ''GrantRoleStmt'', ''AlterDefaultPrivilegesStmt'', ''CreateStmt'',
      ''CreateTableSpaceStmt'', ''DropTableSpaceStmt'', ''AlterTableSpaceOptionsStmt'',
      ''AlterTableMoveAllStmt'', ''CreateExtensionStmt'', ''AlterExtensionStmt'',
      ''AlterExtensionContentsStmt'', ''CreateFdwStmt'', ''AlterFdwStmt'',
      ''CreateForeignServerStmt'', ''AlterForeignServerStmt'', ''CreateForeignTableStmt'',
      ''AlterUserMappingStmt'', ''DropUserMappingStmt'', ''ImportForeignSchemaStmt'',
      ''CreatePolicyStmt'', ''AlterPolicyStmt'', ''CreateAmStmt'', ''CreateTrigStmt'',
      ''CreateEventTrigStmt'', ''AlterEventTrigStmt'', ''CreatePLangStmt'', ''CreateRoleStmt'',
      ''AlterRoleStmt'', ''AlterRoleSetStmt'', ''DropRoleStmt'', ''CreateSeqStmt'',
      ''AlterSeqStmt'', ''DefineStmt'', ''CreateDomainStmt'', ''CreateOpClassStmt'',
      ''CreateOpFamilyStmt'', ''AlterOpFamilyStmt'', ''DropStmt'', ''TruncateStmt'',
      ''CommentStmt'', ''SecLabelStmt'', ''IndexStmt'', ''CreateStatsStmt'', ''AlterStatsStmt'',
      ''CreateFunctionStmt'', ''AlterFunctionStmt'', ''DoStmt'', ''CallStmt'', ''RenameStmt'',
      ''AlterObjectDependsStmt'', ''AlterObjectSchemaStmt'', ''AlterOwnerStmt'',
      ''AlterOperatorStmt'', ''AlterTypeStmt'', ''RuleStmt'', ''ViewStmt'', ''LoadStmt'',
      ''CreatedbStmt'', ''AlterDatabaseStmt'', ''AlterDatabaseRefreshCollStmt'',
      ''AlterDatabaseSetStmt'', ''DropdbStmt'', ''AlterSystemStmt'', ''ClusterStmt'',
      ''VacuumStmt'', ''CheckPointStmt'', ''CreateTableAsStmt'', ''RefreshMatViewStmt'',
      ''ReindexStmt'', ''CreateConversionStmt'', ''CreateCastStmt'', ''CreateTransformStmt'',
      ''ExecuteStmt'', ''DropOwnedStmt'', ''ReassignOwnedStmt'', ''AlterTSDictionaryStmt'',
      ''AlterTSConfigurationStmt'', ''CreatePublicationStmt'', ''AlterPublicationStmt'',
      ''CreateSubscriptionStmt'', ''AlterSubscriptionStmt'', ''DropSubscriptionStmt'']"

definition is_known_read_only_utility :: "node_tag \<Rightarrow> bool" where
  "is_known_read_only_utility tag \<longleftrightarrow> tag \<in> set read_only_utility_tags"

definition is_known_wal_candidate_utility :: "node_tag \<Rightarrow> bool" where
  "is_known_wal_candidate_utility tag \<longleftrightarrow> tag \<in> set wal_candidate_utility_tags"

definition classify_copy_statement :: "node \<Rightarrow> statement_class" where
  "classify_copy_statement stmt = (if nd_is_from stmt then Copy else ReadOnly)"

definition def_elem_name_is :: "def_elem \<Rightarrow> string \<Rightarrow> bool" where
  "def_elem_name_is def_elem expected \<longleftrightarrow>
     (case de_defname def_elem of None \<Rightarrow> False | Some name \<Rightarrow> name = expected)"

definition def_elem_boolean_value :: "def_elem \<Rightarrow> bool option" where
  "def_elem_boolean_value def_elem =
     (case de_arg def_elem of
        None \<Rightarrow> None
      | Some n \<Rightarrow> if bn_tag n \<noteq> ''Boolean'' then None else Some (bn_boolval n))"

fun options_contain_analyze :: "def_elem option list \<Rightarrow> bool" where
  "options_contain_analyze [] = False"
| "options_contain_analyze (None # cells) = options_contain_analyze cells"
| "options_contain_analyze (Some def_elem # cells) =
     (if def_elem_name_is def_elem ''analyze''
      then (case def_elem_boolean_value def_elem of None \<Rightarrow> True | Some b \<Rightarrow> b)
      else options_contain_analyze cells)"

definition explain_options_contain_analyze :: "def_elem option list option \<Rightarrow> bool" where
  "explain_options_contain_analyze options =
     (case options of None \<Rightarrow> False | Some cells \<Rightarrow> options_contain_analyze cells)"

definition explain_has_analyze_option :: "node \<Rightarrow> bool" where
  "explain_has_analyze_option stmt \<longleftrightarrow> explain_options_contain_analyze (nd_options stmt)"

definition classify_explain_statement :: "node \<Rightarrow> statement_class" where
  "classify_explain_statement stmt = (if explain_has_analyze_option stmt then Utility else ReadOnly)"

definition classify_utility_node_tag :: "node_tag \<Rightarrow> node \<Rightarrow> bool \<Rightarrow> statement_class" where
  "classify_utility_node_tag tag utility_stmt read_only_tree =
     (if tag = ''CopyStmt'' then classify_copy_statement utility_stmt
      else if tag = ''ExplainStmt'' then classify_explain_statement utility_stmt
      else if is_known_read_only_utility tag then ReadOnly
      else if is_known_wal_candidate_utility tag then Utility
      else if read_only_tree then ReadOnly else Utility)"

definition classify_utility_statement :: "planned_stmt \<Rightarrow> bool \<Rightarrow> statement_class" where
  "classify_utility_statement stmt read_only_tree =
     (if ps_command_type stmt \<noteq> CMD_UTILITY then Unknown
      else case ps_utility_stmt stmt of
        None \<Rightarrow> Utility
      | Some node \<Rightarrow> classify_utility_node_tag (nd_tag node) node read_only_tree)"

definition extract_query_id :: "planned_stmt \<Rightarrow> query_id option" where
  "extract_query_id stmt = (if ps_query_id stmt = 0 then None else Some (ps_query_id stmt))"

definition planned_statement_ref :: "planned_stmt option \<Rightarrow> planned_stmt pwb_result" where
  "planned_statement_ref pstmt =
     (case pstmt of
        None \<Rightarrow> Inl (Internal ''process utility received a null PlannedStmt'')
      | Some stmt \<Rightarrow> Inr stmt)"

definition is_pg_wal_budget_create_extension :: "planned_stmt option \<Rightarrow> bool" where
  "is_pg_wal_budget_create_extension pstmt \<longleftrightarrow>
     (case planned_statement_ref pstmt of
        Inl e \<Rightarrow> False
      | Inr stmt \<Rightarrow>
          if ps_command_type stmt \<noteq> CMD_UTILITY then False
          else case ps_utility_stmt stmt of
            None \<Rightarrow> False
          | Some node \<Rightarrow>
              if nd_tag node \<noteq> ''CreateExtensionStmt'' then False
              else case nd_extname node of None \<Rightarrow> False | Some name \<Rightarrow> name = ''pg_wal_budget'')"

section \<open>Admission\<close>

text \<open>
  The state of a backend: its trusted tenant, its policy cache, the stack of statements being
  measured, the stack of executor markers, the depth of the admission bypass (these are
  thread-local variables; the top of a stack is the head of its list) and the segment.
\<close>

record backend =
  be_scope :: backend_scope_state
  be_cache :: "policy_cache option"
  be_active :: "active_statement_state list"
  be_markers :: "bool list"
  be_bypass_depth :: usize
  be_shmem :: shmem

text \<open>
  The part that the executor and the utility hook have in common, from the query id and the
  class of the statement on: its scope, its prediction, its admission.
\<close>

definition admit_classified ::
  "server \<Rightarrow> query_id option \<Rightarrow> statement_class \<Rightarrow> backend
     \<Rightarrow> ((admission_error + active_statement_state option) \<times> backend) option" where
  "admit_classified v query_id statement_class b =
     (case classify_current_scope (g_composite_scope_enabled (sv_gucs v)) (sv_names v) (be_scope b) of
        (Inl error, scope_state) \<Rightarrow>
          Some (Inl (internal_with_context error (from_statement query_id statement_class)),
                b\<lparr>be_scope := scope_state\<rparr>)
      | (Inr scope, scope_state) \<Rightarrow>
          let (predicted_wal_bytes, s) = predict_context v
                \<lparr>px_statement_class = statement_class, px_query_id = query_id,
                 px_scope_hash = sk_value_hash scope\<rparr> (be_shmem b);
              context = \<lparr>ac_query_id = query_id, ac_scope = scope, ac_statement_class = statement_class,
                         ac_predicted_wal_bytes = predicted_wal_bytes\<rparr>
          in map_option (\<lambda>(r, (cache, s)).
               (rbind r (\<lambda>active. Inr (Some active)),
                b\<lparr>be_scope := scope_state, be_cache := cache, be_shmem := s\<rparr>))
               (admit_context v context (be_cache b, s)))"

definition admit_utility_statement ::
  "server \<Rightarrow> planned_stmt option \<Rightarrow> bool \<Rightarrow> backend
     \<Rightarrow> ((admission_error + active_statement_state option) \<times> backend) option" where
  "admit_utility_statement v pstmt read_only_tree b =
     (case planned_statement_ref pstmt of
        Inl error \<Rightarrow> Some (Inl (admission_internal error), b)
      | Inr stmt \<Rightarrow>
          let statement_class = classify_utility_statement stmt read_only_tree in
          if statement_class = ReadOnly then Some (Inr None, b)
          else admit_classified v (extract_query_id stmt) statement_class b)"

section \<open>What counts as read-only\<close>

lemma utility_tags_disjoint:
  "is_known_read_only_utility tag \<Longrightarrow> \<not> is_known_wal_candidate_utility tag
     \<and> tag \<noteq> ''CopyStmt'' \<and> tag \<noteq> ''ExplainStmt''"
  by (auto simp: is_known_read_only_utility_def is_known_wal_candidate_utility_def
      read_only_utility_tags_def wal_candidate_utility_tags_def)

text \<open>The first option called \<open>analyze\<close> decides; without a Boolean value it is on.\<close>

definition analyze_on :: "def_elem option list \<Rightarrow> bool" where
  "analyze_on cells =
     (case filter (\<lambda>d. de_defname d = Some ''analyze'') (List.map_filter id cells) of
        [] \<Rightarrow> False
      | d # ds \<Rightarrow> def_elem_boolean_value d \<noteq> Some False)"

lemma options_contain_analyze_eq: "options_contain_analyze cells = analyze_on cells"
proof (induction cells rule: options_contain_analyze.induct)
  case (3 d cells)
  then show ?case
    by (cases "de_defname d"; cases "def_elem_boolean_value d")
       (auto simp: analyze_on_def def_elem_name_is_def List.map_filter_simps)
qed (simp_all add: analyze_on_def List.map_filter_simps)


definition plain_node :: "node_tag \<Rightarrow> node" where
  "plain_node tag = \<lparr>nd_tag = tag, nd_is_from = False, nd_options = None, nd_extname = None\<rparr>"

definition utility_stmt :: "node \<Rightarrow> planned_stmt" where
  "utility_stmt n = \<lparr>ps_command_type = CMD_UTILITY, ps_has_modifying_cte = False, ps_query_id = 0, ps_utility_stmt = Some n\<rparr>"


text \<open>
  An analyze option whose value is not a Boolean node counts as on, also when it is the
  string \<open>false\<close>.
\<close>

lemma analyze_string_false:
  "options_contain_analyze [Some \<lparr>de_defname = Some ''analyze'', de_arg = Some \<lparr>bn_tag = ''String'', bn_boolval = False\<rparr>\<rparr>]"
  by (simp add: def_elem_name_is_def def_elem_boolean_value_def)

section \<open>Admissions keep the backend well formed\<close>

definition backend_ok :: "backend \<Rightarrow> bool" where
  "backend_ok b \<longleftrightarrow> segment_ok (be_shmem b) \<and> scope_state_ok (be_scope b)"

definition stacks :: "backend \<Rightarrow> active_statement_state list \<times> bool list \<times> usize" where
  "stacks b = (be_active b, be_markers b, be_bypass_depth b)"

lemma classify_scope_ok:
  assumes "scope_state_ok st" and "classify_current_scope composite names st = (r, st')"
  shows "scope_state_ok st'" and "r = Inr scope \<Longrightarrow> \<forall>t. sk_debug_value scope = Some t \<longrightarrow> utf8_valid t"
  using classify_scope_cases [OF assms(1), of composite names] assms(2,1)
  by (auto split: option.splits prod.splits)

lemma admit_context_outcome:
  assumes "segment_ok s" and "server_ok v" and "\<forall>t. sk_debug_value (ac_scope x) = Some t \<longrightarrow> utf8_valid t"
    and "admit_context v x (c, s) = Some (r, (c', s'))"
  shows "segment_ok s' \<and> admission_outcome_ok v x r s'"
  using admit_context_cases [OF assms(1-3), of c] assms(4) by blast

text \<open>What is known of every statement on the stack.\<close>

definition active_ok :: "active_statement_state \<Rightarrow> bool" where
  "active_ok a \<longleftrightarrow>
     ad_kind (as_decision a) \<in> {DkAllowed, DkWouldReject, DkNoMatchingPolicy}
   \<and> ad_charged_bytes (as_decision a) \<in> {0, as_predicted_wal_bytes a}
   \<and> (ad_policy_id (as_decision a) = None \<longleftrightarrow> ad_kind (as_decision a) = DkNoMatchingPolicy)"

lemma outcome_active_ok: "admission_outcome_ok v x (Inr a) s \<Longrightarrow> active_ok a"
  by (auto simp: active_ok_def)

lemma admit_classified_ok:
  assumes "server_ok v" and "backend_ok b" and run: "admit_classified v q class b = Some (r, b')"
  shows "backend_ok b'" and "stacks b' = stacks b" and "r = Inr (Some a) \<Longrightarrow> active_ok a"
proof -
  obtain rs sc where c: "classify_current_scope (g_composite_scope_enabled (sv_gucs v)) (sv_names v) (be_scope b) = (rs, sc)"
    by (meson surj_pair)
  have sc: "scope_state_ok sc" using classify_scope_ok(1) [OF _ c] assms(2) by (simp add: backend_ok_def)
  have "backend_ok b' \<and> stacks b' = stacks b \<and> (r = Inr (Some a) \<longrightarrow> active_ok a)"
  proof (cases rs)
    case (Inl e)
    then show ?thesis
      using run assms(2) sc by (auto simp: admit_classified_def c backend_ok_def stacks_def)
  next
    case (Inr scope)
    let ?px = "\<lparr>px_statement_class = class, px_query_id = q, px_scope_hash = sk_value_hash scope\<rparr>"
    obtain p s where p: "predict_context v ?px (be_shmem b) = (p, s)" by (meson surj_pair)
    have s: "segment_ok s" using predict_ok(1) [OF assms(1), of "be_shmem b" ?px] assms(2) by (simp add: p backend_ok_def)
    let ?x = "\<lparr>ac_query_id = q, ac_scope = scope, ac_statement_class = class, ac_predicted_wal_bytes = p\<rparr>"
    obtain r2 c2 s2 where a: "admit_context v ?x (be_cache b, s) = Some (r2, (c2, s2))"
      "b' = b\<lparr>be_scope := sc, be_cache := c2, be_shmem := s2\<rparr>" "r = rbind r2 (\<lambda>active. Inr (Some active))"
      using run by (auto simp: admit_classified_def c Inr p)
    have "\<forall>t. sk_debug_value (ac_scope ?x) = Some t \<longrightarrow> utf8_valid t"
      using classify_scope_ok(2) [OF _ c Inr] assms(2) by (simp add: backend_ok_def)
    then have out: "segment_ok s2" "admission_outcome_ok v ?x r2 s2"
      using admit_context_outcome [OF s assms(1) _ a(1)] by blast+
    have "active_ok a" if "r = Inr (Some a)"
    proof -
      have "r2 = Inr a" using that by (cases r2) (simp_all add: a(3))
      with out(2) show ?thesis by (metis outcome_active_ok)
    qed
    with out(1) sc show ?thesis by (simp add: a(2) backend_ok_def stacks_def)
  qed
  then show "backend_ok b'" "stacks b' = stacks b" "r = Inr (Some a) \<Longrightarrow> active_ok a" by simp_all
qed

lemma admit_utility_ok:
  assumes "server_ok v" and "backend_ok b" and "admit_utility_statement v stmt ro b = Some (r, b')"
  shows "backend_ok b'" and "stacks b' = stacks b" and "r = Inr (Some a) \<Longrightarrow> active_ok a"
  using assms admit_classified_ok [OF assms(1,2)]
  by (auto simp: admit_utility_statement_def Let_def split: sum.splits if_splits)

end
