(* ===== verification/Pwb_Lifecycle.thy ===== *)
theory Pwb_Lifecycle
  imports Pwb_Utility
begin

text \<open>
  The life of a statement in a backend, \<^verbatim>\<open>src/lifecycle.rs\<close>, and the hooks that drive it,
  \<^verbatim>\<open>src/hooks.rs\<close>. A hook that raises does not return to its caller; its result is the
  report that PostgreSQL gets. A hook that waits forever has no result. The lemmas show that
  statements that nest are each settled with their own admission, that the stacks and the
  bypass are as before after every hook, and that the end of a transaction empties them.
\<close>

section \<open>Stacks and the bypass\<close>

definition push_active_statement :: "active_statement_state \<Rightarrow> backend \<Rightarrow> backend" where
  "push_active_statement statement b = b\<lparr>be_active := statement # be_active b\<rparr>"

definition pop_active_statement :: "backend \<Rightarrow> active_statement_state option \<times> backend" where
  "pop_active_statement b =
     (case be_active b of [] \<Rightarrow> (None, b) | a # rest \<Rightarrow> (Some a, b\<lparr>be_active := rest\<rparr>))"

definition push_executor_admission_marker :: "bool \<Rightarrow> backend \<Rightarrow> backend" where
  "push_executor_admission_marker admitted b = b\<lparr>be_markers := admitted # be_markers b\<rparr>"

definition pop_executor_admission_marker :: "backend \<Rightarrow> bool \<times> backend" where
  "pop_executor_admission_marker b =
     (case be_markers b of [] \<Rightarrow> (False, b) | m # rest \<Rightarrow> (m, b\<lparr>be_markers := rest\<rparr>))"

definition admission_is_bypassed :: "backend \<Rightarrow> bool" where
  "admission_is_bypassed b \<longleftrightarrow> 0 < be_bypass_depth b"

definition bypass_enter :: "backend \<Rightarrow> backend" where
  "bypass_enter b = b\<lparr>be_bypass_depth := sat_add (be_bypass_depth b) 1\<rparr>"

definition bypass_drop :: "backend \<Rightarrow> backend" where
  "bypass_drop b = b\<lparr>be_bypass_depth := sat_sub (be_bypass_depth b) 1\<rparr>"

definition with_admission_bypass :: "(backend \<Rightarrow> 'r \<times> backend) \<Rightarrow> backend \<Rightarrow> 'r \<times> backend" where
  "with_admission_bypass callback b = (case callback (bypass_enter b) of (r, b) \<Rightarrow> (r, bypass_drop b))"

definition drain_active_statements :: "backend \<Rightarrow> active_statement_state list \<times> backend" where
  "drain_active_statements b = (be_active b, b\<lparr>be_markers := [], be_active := []\<rparr>)"

section \<open>Admission in a hook\<close>

text \<open>The \<open>QueryDesc\<close> pointer and the plan it points to may be null.\<close>

definition query_desc_planned_stmt :: "planned_stmt option option \<Rightarrow> admission_error + planned_stmt" where
  "query_desc_planned_stmt query_desc =
     (case query_desc of
        None \<Rightarrow> Inl (admission_internal (Internal ''executor start received a null QueryDesc''))
      | Some plan \<Rightarrow>
          (case plan of
             None \<Rightarrow> Inl (admission_internal (Internal ''executor start received a QueryDesc without a PlannedStmt''))
           | Some stmt \<Rightarrow> Inr stmt))"

definition classify_planned_statement :: "planned_stmt \<Rightarrow> statement_class" where
  "classify_planned_statement stmt =
     (case ps_command_type stmt of
        CMD_SELECT \<Rightarrow> if ps_has_modifying_cte stmt then Write else ReadOnly
      | CMD_INSERT \<Rightarrow> Write
      | CMD_UPDATE \<Rightarrow> Write
      | CMD_DELETE \<Rightarrow> Write
      | CMD_MERGE \<Rightarrow> Write
      | _ \<Rightarrow> Unknown)"

definition admit_normal_statement ::
  "server \<Rightarrow> planned_stmt option option \<Rightarrow> backend
     \<Rightarrow> ((admission_error + active_statement_state option) \<times> backend) option" where
  "admit_normal_statement v query_desc b =
     map_option (\<lambda>(r, b). (r, bypass_drop b))
       (let b = bypass_enter b in
        case query_desc_planned_stmt query_desc of
          Inl e \<Rightarrow> Some (Inl e, b)
        | Inr stmt \<Rightarrow>
            let statement_class = classify_planned_statement stmt in
            if statement_class = ReadOnly then Some (Inr None, b)
            else admit_classified v (extract_query_id stmt) statement_class b)"

definition lifecycle_admit_utility_statement ::
  "server \<Rightarrow> planned_stmt option \<Rightarrow> bool \<Rightarrow> backend
     \<Rightarrow> ((admission_error + active_statement_state option) \<times> backend) option" where
  "lifecycle_admit_utility_statement v pstmt read_only_tree b =
     map_option (\<lambda>(r, b). (r, bypass_drop b)) (admit_utility_statement v pstmt read_only_tree (bypass_enter b))"

definition handle_internal_admission_error ::
  "server \<Rightarrow> pwb_error \<Rightarrow> admission_error_context option \<Rightarrow> backend \<Rightarrow> unit raised \<times> backend" where
  "handle_internal_admission_error v error context b =
     (if g_fail_open (sv_gucs v)
      then (Inr (), b\<lparr>be_shmem := record_internal_fail_open context (sv_error_clock v) (be_shmem b)\<rparr>)
      else (Inl (raised_report error), b))"

definition handle_admission_result ::
  "server \<Rightarrow> (admission_error + active_statement_state option) \<times> backend
     \<Rightarrow> active_statement_state option raised \<times> backend" where
  "handle_admission_result v rb =
     (case rb of
        (Inr active, b) \<Rightarrow> (Inr active, b)
      | (Inl (AdmissionRejected policy_id predicted available), b) \<Rightarrow>
          (Inl (raised_report (BudgetExceeded policy_id predicted available)), b)
      | (Inl (AdmissionInternal error context), b) \<Rightarrow>
          sbind (handle_internal_admission_error v error context b) (\<lambda>_ b. (Inr None, b)))"

section \<open>Statements\<close>

definition executor_statement_start ::
  "server \<Rightarrow> planned_stmt option option \<Rightarrow> backend \<Rightarrow> (unit raised \<times> backend) option" where
  "executor_statement_start v query_desc b =
     (if g_enabled (sv_gucs v) \<and> \<not> admission_is_bypassed b
      then map_option (\<lambda>rb. sbind (handle_admission_result v rb) (\<lambda>active b.
             case active of
               Some a \<Rightarrow> (Inr (), push_executor_admission_marker True (push_active_statement (capture_start v a) b))
             | None \<Rightarrow> (Inr (), push_executor_admission_marker False b)))
             (admit_normal_statement v query_desc b)
      else Some (Inr (), push_executor_admission_marker False b))"

definition settle_popped :: "server \<Rightarrow> active_statement_state option \<times> backend \<Rightarrow> backend" where
  "settle_popped v popped =
     (case popped of
        (Some a, b) \<Rightarrow> b\<lparr>be_shmem := reconcile_completed_statement v a (be_shmem b)\<rparr>
      | (None, b) \<Rightarrow> b)"

definition executor_statement_complete :: "server \<Rightarrow> backend \<Rightarrow> backend" where
  "executor_statement_complete v b =
     (case pop_executor_admission_marker b of
        (True, b) \<Rightarrow> settle_popped v (pop_active_statement b)
      | (False, b) \<Rightarrow> b)"

definition utility_statement_start ::
  "server \<Rightarrow> planned_stmt option \<Rightarrow> bool \<Rightarrow> backend \<Rightarrow> (bool raised \<times> backend) option" where
  "utility_statement_start v pstmt read_only_tree b =
     (if \<not> g_enabled (sv_gucs v) \<or> admission_is_bypassed b then Some (Inr False, b)
      else if is_pg_wal_budget_create_extension pstmt then Some (Inr False, b)
      else map_option (\<lambda>rb. sbind (handle_admission_result v rb) (\<lambda>active b.
             case active of
               Some a \<Rightarrow> (Inr True, push_active_statement (capture_start v a) b)
             | None \<Rightarrow> (Inr False, b)))
             (lifecycle_admit_utility_statement v pstmt read_only_tree b))"

definition utility_statement_complete :: "server \<Rightarrow> bool \<Rightarrow> backend \<Rightarrow> backend" where
  "utility_statement_complete v admitted b = (if admitted then settle_popped v (pop_active_statement b) else b)"

datatype xact_event =
    XACT_EVENT_COMMIT | XACT_EVENT_PARALLEL_COMMIT | XACT_EVENT_ABORT | XACT_EVENT_PARALLEL_ABORT
  | XACT_EVENT_OTHER nat

definition xact_ends :: "xact_event \<Rightarrow> bool" where
  "xact_ends event \<longleftrightarrow>
     event \<in> {XACT_EVENT_COMMIT, XACT_EVENT_PARALLEL_COMMIT, XACT_EVENT_ABORT, XACT_EVENT_PARALLEL_ABORT}"

definition xact_aborts :: "xact_event \<Rightarrow> bool" where
  "xact_aborts event \<longleftrightarrow> event \<in> {XACT_EVENT_ABORT, XACT_EVENT_PARALLEL_ABORT}"

fun end_statements :: "bool \<Rightarrow> active_statement_state list \<Rightarrow> shmem \<Rightarrow> shmem" where
  "end_statements aborting [] s = s"
| "end_statements aborting (a # as) s =
     end_statements aborting as
       (if aborting then snd (record_aborted_statement a s) else record_missing_actual_wal s)"

definition transaction_ending :: "xact_event \<Rightarrow> backend \<Rightarrow> backend" where
  "transaction_ending event b =
     (if \<not> xact_ends event then b
      else case drain_active_statements b of
        (drained, b) \<Rightarrow> b\<lparr>be_shmem := end_statements (xact_aborts event) drained (be_shmem b)\<rparr>)"

section \<open>Hooks\<close>

text \<open>
  Each hook calls the previous hook of its kind, or the server's own routine: an argument,
  which may raise and may run further statements of this backend.
\<close>

type_synonym previous_hook = "backend \<Rightarrow> (unit raised \<times> backend) option"

definition executor_start_hook ::
  "server \<Rightarrow> previous_hook \<Rightarrow> planned_stmt option option \<Rightarrow> backend \<Rightarrow> (unit raised \<times> backend) option" where
  "executor_start_hook v prev query_desc b =
     (case executor_statement_start v query_desc b of
        None \<Rightarrow> None
      | Some (Inl e, b) \<Rightarrow> Some (Inl e, b)
      | Some (Inr u, b) \<Rightarrow> prev b)"

definition executor_end_hook ::
  "server \<Rightarrow> previous_hook \<Rightarrow> backend \<Rightarrow> (unit raised \<times> backend) option" where
  "executor_end_hook v prev b =
     (case prev b of
        None \<Rightarrow> None
      | Some (Inl e, b) \<Rightarrow> Some (Inl e, b)
      | Some (Inr u, b) \<Rightarrow> Some (Inr (), executor_statement_complete v b))"

definition process_utility_hook ::
  "server \<Rightarrow> server \<Rightarrow> previous_hook \<Rightarrow> planned_stmt option \<Rightarrow> bool \<Rightarrow> backend
     \<Rightarrow> (unit raised \<times> backend) option" where
  "process_utility_hook v w prev pstmt read_only_tree b =
     (case utility_statement_start v pstmt read_only_tree b of
        None \<Rightarrow> None
      | Some (Inl e, b) \<Rightarrow> Some (Inl e, b)
      | Some (Inr admitted, b) \<Rightarrow>
          (case prev b of
             None \<Rightarrow> None
           | Some (Inl e, b) \<Rightarrow> Some (Inl e, b)
           | Some (Inr u, b) \<Rightarrow> Some (Inr (), utility_statement_complete w admitted b)))"

section \<open>Every hook keeps the backend well formed\<close>

lemma bypass_round:
  "be_bypass_depth b = 0 \<Longrightarrow> be_bypass_depth (bypass_drop (b\<lparr>be_bypass_depth := be_bypass_depth (bypass_enter b)\<rparr>)) = 0"
  by (simp add: bypass_enter_def bypass_drop_def sat_add_def sat_sub_def)

lemma bypass_stacks:
  "be_bypass_depth b = 0 \<Longrightarrow> stacks b' = stacks (bypass_enter b) \<Longrightarrow> stacks (bypass_drop b') = stacks b"
  by (simp add: stacks_def bypass_enter_def bypass_drop_def sat_add_def sat_sub_def)

lemma bypass_ok [simp]: "backend_ok (bypass_enter b) = backend_ok b" "backend_ok (bypass_drop b) = backend_ok b"
  by (simp_all add: backend_ok_def bypass_enter_def bypass_drop_def)

lemma admit_in_hook_ok:
  assumes "server_ok v" and "backend_ok b" and "be_bypass_depth b = 0"
  shows "admit_normal_statement v qd b = Some (r, b') \<Longrightarrow>
      backend_ok b' \<and> stacks b' = stacks b \<and> (\<forall>a. r = Inr (Some a) \<longrightarrow> active_ok a)"
    and "lifecycle_admit_utility_statement v stmt ro b = Some (r, b') \<Longrightarrow>
      backend_ok b' \<and> stacks b' = stacks b \<and> (\<forall>a. r = Inr (Some a) \<longrightarrow> active_ok a)"
proof -
  have enter: "backend_ok (bypass_enter b)" using assms(2) by simp
  show "admit_normal_statement v qd b = Some (r, b') \<Longrightarrow>
      backend_ok b' \<and> stacks b' = stacks b \<and> (\<forall>a. r = Inr (Some a) \<longrightarrow> active_ok a)"
    using admit_classified_ok [OF assms(1) enter] bypass_stacks [OF assms(3)] assms(2)
    by (auto simp: admit_normal_statement_def Let_def split: sum.splits if_splits)
  show "lifecycle_admit_utility_statement v stmt ro b = Some (r, b') \<Longrightarrow>
      backend_ok b' \<and> stacks b' = stacks b \<and> (\<forall>a. r = Inr (Some a) \<longrightarrow> active_ok a)"
    using admit_utility_ok [OF assms(1) enter] bypass_stacks [OF assms(3)]
    by (auto simp: lifecycle_admit_utility_statement_def)
qed

lemma handle_result_ok:
  assumes "backend_ok b" and "\<forall>a. r = Inr (Some a) \<longrightarrow> active_ok a"
    and "handle_admission_result v (r, b) = (q, b')"
  shows "backend_ok b'" and "stacks b' = stacks b" and "q = Inr (Some a) \<Longrightarrow> active_ok a"
proof -
  have "backend_ok (b\<lparr>be_shmem := record_internal_fail_open c t (be_shmem b)\<rparr>)" for c t
    using assms(1) segment_decision_telemetry(1)
    by (simp add: backend_ok_def record_internal_fail_open_def Let_def)
  then have "backend_ok b' \<and> stacks b' = stacks b \<and> (\<forall>a. q = Inr (Some a) \<longrightarrow> active_ok a)"
    using assms
    by (cases r) (auto simp: handle_admission_result_def handle_internal_admission_error_def stacks_def
        split: admission_error.splits if_splits)
  then show "backend_ok b'" "stacks b' = stacks b" "q = Inr (Some a) \<Longrightarrow> active_ok a" by simp_all
qed

lemma capture_active_ok: "active_ok a \<Longrightarrow> active_ok (capture_start v a)"
  by (simp add: capture_start_def active_ok_def split: option.split)

text \<open>What a hook adds to the stacks when it returns.\<close>

definition executor_pushed :: "backend \<Rightarrow> backend \<Rightarrow> bool" where
  "executor_pushed b b' \<longleftrightarrow>
     be_bypass_depth b' = be_bypass_depth b
   \<and> (be_markers b' = False # be_markers b \<and> be_active b' = be_active b
     \<or> be_markers b' = True # be_markers b \<and> (\<exists>a. active_ok a \<and> be_active b' = a # be_active b))"

definition utility_pushed :: "bool \<Rightarrow> backend \<Rightarrow> backend \<Rightarrow> bool" where
  "utility_pushed admitted b b' \<longleftrightarrow>
     be_bypass_depth b' = be_bypass_depth b \<and> be_markers b' = be_markers b
   \<and> (if admitted then \<exists>a. active_ok a \<and> be_active b' = a # be_active b else be_active b' = be_active b)"

lemma pushes_ok [simp]:
  "backend_ok (push_executor_admission_marker m b) = backend_ok b"
  "backend_ok (push_active_statement a b) = backend_ok b"
  by (simp_all add: backend_ok_def push_executor_admission_marker_def push_active_statement_def)

lemma executor_start_ok:
  assumes "server_ok v" and "backend_ok b" and run: "executor_statement_start v qd b = Some (r, b')"
  shows "backend_ok b'" and "r = Inr () \<Longrightarrow> executor_pushed b b'" and "r = Inl e \<Longrightarrow> stacks b' = stacks b"
proof -
  have "backend_ok b' \<and> (r = Inr () \<longrightarrow> executor_pushed b b') \<and> (\<forall>e. r = Inl e \<longrightarrow> stacks b' = stacks b)"
  proof (cases "g_enabled (sv_gucs v) \<and> \<not> admission_is_bypassed b")
    case True
    then obtain rs b1 where a: "admit_normal_statement v qd b = Some (rs, b1)"
      using run by (auto simp: executor_statement_start_def)
    have "be_bypass_depth b = 0" using True by (simp add: admission_is_bypassed_def word_neq_0_conv [symmetric])
    note adm = admit_in_hook_ok(1) [OF assms(1,2) this a]
    obtain q b2 where h: "handle_admission_result v (rs, b1) = (q, b2)" by (meson surj_pair)
    note res = handle_result_ok [OF adm [THEN conjunct1] adm [THEN conjunct2, THEN conjunct2] h]
    have b2: "backend_ok b2" "stacks b2 = stacks b" by (rule res(1)) (simp only: res(2) adm)
    have b3: "active_ok c" if "q = Inr (Some c)" for c by (rule res(3) [OF that])
    have "Some (r, b') = Some (sbind (q, b2) (\<lambda>active b.
             case active of
               Some a \<Rightarrow> (Inr (), push_executor_admission_marker True (push_active_statement (capture_start v a) b))
             | None \<Rightarrow> (Inr (), push_executor_admission_marker False b)))"
      unfolding run [symmetric] by (simp add: executor_statement_start_def True a h)
    note step = this [unfolded option.inject]
    consider e where "q = Inl e" | "q = Inr None" | a where "q = Inr (Some a)"
      by (metis option.exhaust sum.exhaust)
    then show ?thesis
    proof cases
      case (3 c)
      then have "active_ok (capture_start v c)" using b3 capture_active_ok by blast
      then show ?thesis
        using step b2 3 by (simp add: executor_pushed_def stacks_def push_executor_admission_marker_def
            push_active_statement_def backend_ok_def)
    qed (use step b2 in \<open>simp_all add: executor_pushed_def stacks_def push_executor_admission_marker_def
        backend_ok_def\<close>)
  next
    case False
    then show ?thesis
      using run assms(2)
      by (auto simp: executor_statement_start_def executor_pushed_def push_executor_admission_marker_def backend_ok_def)
  qed
  then show "backend_ok b'" "r = Inr () \<Longrightarrow> executor_pushed b b'" "r = Inl e \<Longrightarrow> stacks b' = stacks b" by simp_all
qed

lemma utility_start_ok:
  assumes "server_ok v" and "backend_ok b" and run: "utility_statement_start v stmt ro b = Some (r, b')"
  shows "backend_ok b'" and "r = Inr admitted \<Longrightarrow> utility_pushed admitted b b'" and "r = Inl e \<Longrightarrow> stacks b' = stacks b"
proof -
  have "backend_ok b' \<and> (\<forall>admitted. r = Inr admitted \<longrightarrow> utility_pushed admitted b b')
    \<and> (\<forall>e. r = Inl e \<longrightarrow> stacks b' = stacks b)"
  proof (cases "\<not> g_enabled (sv_gucs v) \<or> admission_is_bypassed b \<or> is_pg_wal_budget_create_extension stmt")
    case True
    then show ?thesis
      using run assms(2) by (auto simp: utility_statement_start_def utility_pushed_def split: if_splits)
  next
    case False
    then obtain rs b1 where a: "lifecycle_admit_utility_statement v stmt ro b = Some (rs, b1)"
      using run by (auto simp: utility_statement_start_def)
    have "be_bypass_depth b = 0" using False by (simp add: admission_is_bypassed_def word_neq_0_conv [symmetric])
    note adm = admit_in_hook_ok(2) [OF assms(1,2) this a]
    obtain q b2 where h: "handle_admission_result v (rs, b1) = (q, b2)" by (meson surj_pair)
    note res = handle_result_ok [OF adm [THEN conjunct1] adm [THEN conjunct2, THEN conjunct2] h]
    have b2: "backend_ok b2" "stacks b2 = stacks b" by (rule res(1)) (simp only: res(2) adm)
    have b3: "active_ok c" if "q = Inr (Some c)" for c by (rule res(3) [OF that])
    have "Some (r, b') = Some (sbind (q, b2) (\<lambda>active b.
             case active of
               Some a \<Rightarrow> (Inr True, push_active_statement (capture_start v a) b)
             | None \<Rightarrow> (Inr False, b)))"
      unfolding run [symmetric] using False by (simp add: utility_statement_start_def a h)
    note step = this [unfolded option.inject]
    consider e where "q = Inl e" | "q = Inr None" | a where "q = Inr (Some a)"
      by (metis option.exhaust sum.exhaust)
    then show ?thesis
    proof cases
      case (3 c)
      then have "active_ok (capture_start v c)" using b3 capture_active_ok by blast
      then show ?thesis
        using step b2 3 by (simp add: utility_pushed_def stacks_def push_active_statement_def backend_ok_def)
    qed (use step b2 in \<open>simp_all add: utility_pushed_def stacks_def backend_ok_def\<close>)
  qed
  then show "backend_ok b'" "r = Inr admitted \<Longrightarrow> utility_pushed admitted b b'" "r = Inl e \<Longrightarrow> stacks b' = stacks b"
    by simp_all
qed

lemma reconcile_ok:
  assumes "server_ok v" and "segment_ok s"
  shows "segment_ok (reconcile_completed_statement v a s)"
proof (cases "as_start_wal_bytes a = None \<or> sv_wal_bytes v = None")
  case True
  then show ?thesis
    using counters_effect(1) [OF assms(2)] by (simp add: completed_unmeasured record_missing_actual_wal_def)
next
  case False
  then obtain x y where "as_start_wal_bytes a = Some x" "sv_wal_bytes v = Some y" by auto
  then show ?thesis by (rule completed_measured(1) [OF assms(2,1)])
qed

text \<open>Settling the statement on top, and what the two completions do with it.\<close>

definition settle_top :: "server \<Rightarrow> backend \<Rightarrow> backend" where
  "settle_top v b = b\<lparr>be_active := tl (be_active b),
     be_shmem := reconcile_completed_statement v (hd (be_active b)) (be_shmem b)\<rparr>"

lemma settle_popped_eq:
  "settle_popped v (pop_active_statement b) = (if be_active b = [] then b else settle_top v b)"
  by (cases "be_active b") (simp_all add: settle_popped_def pop_active_statement_def settle_top_def)

lemma executor_complete_eq:
  "executor_statement_complete v b =
     (case be_markers b of
        [] \<Rightarrow> b
      | m # rest \<Rightarrow> if m \<and> be_active b \<noteq> [] then settle_top v (b\<lparr>be_markers := rest\<rparr>) else b\<lparr>be_markers := rest\<rparr>)"
  by (simp add: executor_statement_complete_def pop_executor_admission_marker_def settle_popped_eq
      split: list.split bool.split)

lemma utility_complete_eq:
  "utility_statement_complete v admitted b = (if admitted \<and> be_active b \<noteq> [] then settle_top v b else b)"
  by (simp add: utility_statement_complete_def settle_popped_eq)

lemma settle_top_ok: "server_ok v \<Longrightarrow> backend_ok b \<Longrightarrow> backend_ok (settle_top v b)"
  by (simp add: backend_ok_def settle_top_def reconcile_ok)

lemma completions_ok:
  assumes "server_ok v" and "backend_ok b"
  shows "backend_ok (executor_statement_complete v b)" and "backend_ok (utility_statement_complete v admitted b)"
proof -
  have rest: "backend_ok (b\<lparr>be_markers := rest\<rparr>)" for rest using assms(2) by (simp add: backend_ok_def)
  then show "backend_ok (executor_statement_complete v b)"
    using assms settle_top_ok [OF assms(1) rest] by (simp add: executor_complete_eq split: list.split)
  show "backend_ok (utility_statement_complete v admitted b)"
    using assms settle_top_ok [OF assms] by (simp add: utility_complete_eq)
qed

section \<open>Statements that nest\<close>

text \<open>
  What a backend does between the start and the end of a statement when nothing fails: other
  code that leaves the stacks alone, executor statements and utility statements, each closed
  before the next one ends.
\<close>

inductive nested_run :: "backend \<Rightarrow> backend \<Rightarrow> bool" where
  nested_other: "backend_ok b' \<Longrightarrow> stacks b' = stacks b \<Longrightarrow> nested_run b b'"
| nested_executor:
    "server_ok v \<Longrightarrow> executor_statement_start v qd b = Some (Inr (), b1) \<Longrightarrow> nested_run b1 b2
      \<Longrightarrow> server_ok w \<Longrightarrow> nested_run (executor_statement_complete w b2) b' \<Longrightarrow> nested_run b b'"
| nested_utility:
    "server_ok v \<Longrightarrow> utility_statement_start v stmt ro b = Some (Inr admitted, b1) \<Longrightarrow> nested_run b1 b2
      \<Longrightarrow> server_ok w \<Longrightarrow> nested_run (utility_statement_complete w admitted b2) b' \<Longrightarrow> nested_run b b'"

lemma executor_round:
  assumes "executor_pushed b b1" and "stacks b2 = stacks b1"
  shows "stacks (executor_statement_complete w b2) = stacks b"
  using assms by (auto simp: executor_pushed_def stacks_def executor_complete_eq settle_top_def)

lemma utility_round:
  assumes "utility_pushed admitted b b1" and "stacks b2 = stacks b1"
  shows "stacks (utility_statement_complete w admitted b2) = stacks b"
  using assms by (auto simp: utility_pushed_def stacks_def utility_complete_eq settle_top_def split: if_splits)

lemma nested_run_stacks:
  "nested_run b b' \<Longrightarrow> backend_ok b \<Longrightarrow> backend_ok b' \<and> stacks b' = stacks b"
proof (induction rule: nested_run.induct)
  case (nested_executor v qd b b1 b2 w b')
  note start = executor_start_ok [OF nested_executor(1) nested_executor.prems nested_executor(2)]
  have b2: "backend_ok b2" "stacks b2 = stacks b1" using nested_executor.IH(1) start(1) by blast+
  have "backend_ok (executor_statement_complete w b2)" using completions_ok(1) nested_executor(4) b2(1) by blast
  with nested_executor.IH(2) executor_round [OF start(2) b2(2)] show ?case by simp
next
  case (nested_utility v stmt ro b admitted b1 b2 w b')
  note start = utility_start_ok [OF nested_utility(1) nested_utility.prems nested_utility(2)]
  have b2: "backend_ok b2" "stacks b2 = stacks b1" using nested_utility.IH(1) start(1) by blast+
  have "backend_ok (utility_statement_complete w admitted b2)" using completions_ok(2) nested_utility(4) b2(1) by blast
  with nested_utility.IH(2) utility_round [OF start(2) b2(2)] show ?case by simp
qed simp_all

text \<open>
  C13: a statement is settled with its own admission. Whatever well-nested statements run
  between its start and its end, an executor statement finds at its end the very state its
  start pushed: if it was admitted, exactly that statement is taken from the stack and
  reconciled, and if not, nothing is; the stacks and the bypass are then as before its start.
  The same holds for a utility statement.
\<close>

theorem nested_statements_settle:
  assumes "backend_ok b" and "server_ok v" and "nested_run b1 b2"
  shows "(executor_statement_start v qd b = Some (Inr (), b1) \<longrightarrow>
      stacks (executor_statement_complete w b2) = stacks b
    \<and> (be_shmem (executor_statement_complete w b2) = be_shmem b2 \<and> be_active b1 = be_active b
      \<or> (\<exists>a. active_ok a \<and> be_active b1 = a # be_active b
           \<and> be_shmem (executor_statement_complete w b2) = reconcile_completed_statement w a (be_shmem b2))))
   \<and> (utility_statement_start v stmt ro b = Some (Inr admitted, b1) \<longrightarrow>
      stacks (utility_statement_complete w admitted b2) = stacks b
    \<and> (if admitted
       then \<exists>a. active_ok a \<and> be_active b1 = a # be_active b
           \<and> be_shmem (utility_statement_complete w admitted b2) = reconcile_completed_statement w a (be_shmem b2)
       else be_active b1 = be_active b \<and> utility_statement_complete w admitted b2 = b2))"
proof (intro conjI impI)
  assume start: "executor_statement_start v qd b = Some (Inr (), b1)"
  note ok = executor_start_ok [OF assms(2,1) start]
  have b2: "stacks b2 = stacks b1" using nested_run_stacks [OF assms(3) ok(1)] by blast
  show "stacks (executor_statement_complete w b2) = stacks b" by (rule executor_round [OF ok(2) b2]) simp
  show "be_shmem (executor_statement_complete w b2) = be_shmem b2 \<and> be_active b1 = be_active b
      \<or> (\<exists>a. active_ok a \<and> be_active b1 = a # be_active b
           \<and> be_shmem (executor_statement_complete w b2) = reconcile_completed_statement w a (be_shmem b2))"
    using ok(2) b2 by (auto simp: executor_pushed_def stacks_def executor_complete_eq settle_top_def)
next
  assume start: "utility_statement_start v stmt ro b = Some (Inr admitted, b1)"
  note ok = utility_start_ok [OF assms(2,1) start]
  have b2: "stacks b2 = stacks b1" using nested_run_stacks [OF assms(3) ok(1)] by blast
  show "stacks (utility_statement_complete w admitted b2) = stacks b" by (rule utility_round [OF ok(2) b2]) simp
  show "if admitted
       then \<exists>a. active_ok a \<and> be_active b1 = a # be_active b
           \<and> be_shmem (utility_statement_complete w admitted b2) = reconcile_completed_statement w a (be_shmem b2)
       else be_active b1 = be_active b \<and> utility_statement_complete w admitted b2 = b2"
    using ok(2) b2 by (auto simp: utility_pushed_def stacks_def utility_complete_eq settle_top_def)
qed

section \<open>The end of a transaction\<close>

definition refund_charge ::
  "active_statement_state \<Rightarrow> (bucket_key \<rightharpoonup> budget_bucket_state) \<Rightarrow> bucket_key \<rightharpoonup> budget_bucket_state" where
  "refund_charge a m =
     (case charged_policy_id (from_active a) of
        None \<Rightarrow> m
      | Some p \<Rightarrow>
          (case m (p, as_scope_hash a) of
             None \<Rightarrow> m
           | Some b \<Rightarrow> m((p, as_scope_hash a) \<mapsto> snd (refund_bucket (ad_charged_bytes (as_decision a)) b))))"

definition is_charged :: "active_statement_state \<Rightarrow> bool" where
  "is_charged a \<longleftrightarrow> charged_policy_id (from_active a) \<noteq> None"

lemma aborted_effect:
  assumes "segment_ok s"
  shows "segment_ok (snd (record_aborted_statement a s))"
    and "segment_bucket (snd (record_aborted_statement a s)) = refund_charge a (segment_bucket s)"
    and "pc_aborted_after_charge_count (counters_of (snd (record_aborted_statement a s)))
      = (if is_charged a then sat_add (pc_aborted_after_charge_count (counters_of s)) 1
         else pc_aborted_after_charge_count (counters_of s))"
proof -
  let ?one = "counter_delta_default\<lparr>cd_aborted_after_charge_count := 1\<rparr>"
  have "segment_ok (snd (record_aborted_statement a s))
    \<and> segment_bucket (snd (record_aborted_statement a s)) = refund_charge a (segment_bucket s)
    \<and> pc_aborted_after_charge_count (counters_of (snd (record_aborted_statement a s)))
      = (if is_charged a then sat_add (pc_aborted_after_charge_count (counters_of s)) 1
         else pc_aborted_after_charge_count (counters_of s))"
  proof (cases "charged_policy_id (from_active a)")
    case None
    then show ?thesis using assms by (simp add: record_aborted_statement_def Let_def refund_charge_def is_charged_def)
  next
    case (Some p)
    let ?h = "as_scope_hash a" and ?c = "ad_charged_bytes (as_decision a)"
    have fields: "cs_scope_hash (from_active a) = ?h" "cs_charged_bytes (from_active a) = ?c"
      by (simp_all add: from_active_def)
    obtain r t where r: "refund_charged_bytes p ?h ?c s = (r, t)" by (meson surj_pair)
    have t: "segment_ok t" "r = Inr ()"
      "segment_bucket t = (case segment_bucket s (p, ?h) of None \<Rightarrow> segment_bucket s
         | Some b \<Rightarrow> (segment_bucket s)((p, ?h) \<mapsto> snd (refund_bucket ?c b)))"
      using refund_result [OF assms, of p ?h ?c] r by (simp_all add: refund_charged_bytes_def)
    have same: "counters_of t = counters_of s"
      using bucket_counters(1) [OF assms, of p ?h "refund_bucket ?c"] r
      by (auto simp: refund_charged_bytes_def refund_budget_charge_def sbind_def split: prod.splits sum.splits)
    obtain r2 t2 where r2: "add_counters ?one t = (r2, t2)" by (meson surj_pair)
    have "r2 = Inr ()" using segment_add_counters(2) [OF t(1), of ?one] r2 by simp
    then have "snd (record_aborted_statement a s) = t2"
      by (simp add: record_aborted_statement_def Let_def Some fields r t(2) r2 record_reconciliation_result_def)
    then show ?thesis
      using counters_effect [OF t(1), of ?one] r2 t(3) same
      by (simp add: refund_charge_def is_charged_def Some saturating_add_delta_def)
  qed
  then show "segment_ok (snd (record_aborted_statement a s))"
    "segment_bucket (snd (record_aborted_statement a s)) = refund_charge a (segment_bucket s)"
    "pc_aborted_after_charge_count (counters_of (snd (record_aborted_statement a s)))
      = (if is_charged a then sat_add (pc_aborted_after_charge_count (counters_of s)) 1
         else pc_aborted_after_charge_count (counters_of s))" by blast+
qed

lemma missing_effect:
  assumes "segment_ok s"
  shows "segment_ok (record_missing_actual_wal s)"
    and "segment_bucket (record_missing_actual_wal s) = segment_bucket s"
    and "pc_missing_actual_wal_count (counters_of (record_missing_actual_wal s))
      = sat_add (pc_missing_actual_wal_count (counters_of s)) 1"
  using counters_effect [OF assms] by (simp_all add: record_missing_actual_wal_def saturating_add_delta_def)

lemma unat_sat_add_one: "unat (sat_add (n :: u64) 1) = min (unat n + 1) (2 ^ 64 - 1)"
  by (simp add: unat_sat_add)

lemma end_commit:
  "segment_ok s \<Longrightarrow> segment_ok (end_statements False as s)
    \<and> segment_bucket (end_statements False as s) = segment_bucket s
    \<and> unat (pc_missing_actual_wal_count (counters_of (end_statements False as s)))
       = min (unat (pc_missing_actual_wal_count (counters_of s)) + length as) (2 ^ 64 - 1)"
proof (induction as arbitrary: s)
  case Nil
  then show ?case using unat_u64_le [of "pc_missing_actual_wal_count (counters_of s)"] by simp
next
  case (Cons a as)
  note m = missing_effect [OF Cons.prems]
  have "min (min (n + 1) M + length as) M = min (n + length (a # as)) M" for n M :: nat by simp
  with Cons.IH [OF m(1)] m(2,3) show ?case by (simp only: end_statements.simps if_False unat_sat_add_one)
qed

lemma end_abort:
  "segment_ok s \<Longrightarrow> segment_ok (end_statements True as s)
    \<and> segment_bucket (end_statements True as s) = fold refund_charge as (segment_bucket s)
    \<and> unat (pc_aborted_after_charge_count (counters_of (end_statements True as s)))
       = min (unat (pc_aborted_after_charge_count (counters_of s)) + length (filter is_charged as)) (2 ^ 64 - 1)"
proof (induction as arbitrary: s)
  case Nil
  then show ?case using unat_u64_le [of "pc_aborted_after_charge_count (counters_of s)"] by simp
next
  case (Cons a as)
  note m = aborted_effect [OF Cons.prems, of a]
  have "min (min (n + 1) M + k) M = min (n + Suc k) M" for n M k :: nat by simp
  with Cons.IH [OF m(1)] m(2,3) show ?case
    by (cases "is_charged a")
       (simp_all only: end_statements.simps if_True if_False unat_sat_add_one filter.simps fold_simps length_Cons simp_thms)
qed

text \<open>
  C14: the end of a transaction. A commit or an abort, also in a parallel worker, empties both
  stacks, and keeps the segment well formed. On an abort every statement that is still on the
  stack gets its charge back, the latest first, and each refund is counted once; on a commit
  no budget changes and each left-over statement is counted as one without a measurement.
  Every other event changes nothing.
\<close>

theorem transaction_end_spec:
  assumes "backend_ok b"
  shows "let b' = transaction_ending event b; s = be_shmem b; s' = be_shmem b' in
    (\<not> xact_ends event \<longrightarrow> b' = b)
  \<and> (xact_ends event \<longrightarrow> be_active b' = [] \<and> be_markers b' = [] \<and> be_bypass_depth b' = be_bypass_depth b
      \<and> backend_ok b'
      \<and> (if xact_aborts event
         then segment_bucket s' = fold refund_charge (be_active b) (segment_bucket s)
           \<and> unat (pc_aborted_after_charge_count (counters_of s'))
               = min (unat (pc_aborted_after_charge_count (counters_of s)) + length (filter is_charged (be_active b)))
                     (2 ^ 64 - 1)
         else segment_bucket s' = segment_bucket s
           \<and> unat (pc_missing_actual_wal_count (counters_of s'))
               = min (unat (pc_missing_actual_wal_count (counters_of s)) + length (be_active b)) (2 ^ 64 - 1)))"
  using assms end_abort [of "be_shmem b" "be_active b"] end_commit [of "be_shmem b" "be_active b"]
  by (cases "xact_aborts event") (simp_all add: transaction_ending_def drain_active_statements_def backend_ok_def)

section \<open>Everything a backend can do\<close>

text \<open>
  The hooks in any order, also when they raise or do not nest; other code that leaves the
  stacks alone; and the end of transactions.
\<close>

inductive hook_step :: "backend \<Rightarrow> backend \<Rightarrow> bool" where
  step_other: "backend_ok b' \<Longrightarrow> stacks b' = stacks b \<Longrightarrow> hook_step b b'"
| step_executor_start: "server_ok v \<Longrightarrow> executor_statement_start v qd b = Some (r, b') \<Longrightarrow> hook_step b b'"
| step_executor_end: "server_ok v \<Longrightarrow> hook_step b (executor_statement_complete v b)"
| step_utility_start: "server_ok v \<Longrightarrow> utility_statement_start v stmt ro b = Some (r, b') \<Longrightarrow> hook_step b b'"
| step_utility_end: "server_ok v \<Longrightarrow> hook_step b (utility_statement_complete v admitted b)"
| step_transaction_end: "hook_step b (transaction_ending event b)"

definition lifecycle_ok :: "backend \<Rightarrow> bool" where
  "lifecycle_ok b \<longleftrightarrow> backend_ok b \<and> be_bypass_depth b = 0 \<and> (\<forall>a \<in> set (be_active b). active_ok a)"

lemma lifecycle_step: "hook_step b b' \<Longrightarrow> lifecycle_ok b \<Longrightarrow> lifecycle_ok b'"
proof (induction rule: hook_step.induct)
  case (step_executor_start v qd b r b')
  note ok = executor_start_ok [OF step_executor_start(1) _ step_executor_start(2)]
  show ?case
    using ok step_executor_start.prems
    by (cases r) (auto simp: lifecycle_ok_def executor_pushed_def stacks_def)
next
  case (step_utility_start v stmt ro b r b')
  note ok = utility_start_ok [OF step_utility_start(1) _ step_utility_start(2)]
  show ?case
    using ok step_utility_start.prems
    by (cases r) (auto simp: lifecycle_ok_def utility_pushed_def stacks_def split: if_splits)
next
  case (step_executor_end v b)
  have "set (tl xs) \<subseteq> set xs" for xs :: "active_statement_state list" by (cases xs) auto
  then show ?case
    using step_executor_end completions_ok(1) [of v b]
    by (auto simp: lifecycle_ok_def executor_complete_eq settle_top_def split: list.splits if_splits)
next
  case (step_utility_end v b admitted)
  have "set (tl xs) \<subseteq> set xs" for xs :: "active_statement_state list" by (cases xs) auto
  then show ?case
    using step_utility_end completions_ok(2) [of v b admitted]
    by (auto simp: lifecycle_ok_def utility_complete_eq settle_top_def split: if_splits)
next
  case (step_transaction_end b event)
  then show ?case
    using end_abort [of "be_shmem b" "be_active b"] end_commit [of "be_shmem b" "be_active b"]
    by (cases "xact_aborts event") (simp_all add: lifecycle_ok_def transaction_ending_def drain_active_statements_def backend_ok_def)
qed (simp add: lifecycle_ok_def stacks_def)

lemma lifecycle_run: "hook_step\<^sup>*\<^sup>* b b' \<Longrightarrow> lifecycle_ok b \<Longrightarrow> lifecycle_ok b'"
  by (induction rule: rtranclp_induct) (simp_all add: lifecycle_step)

inductive_cases hook_stepE: "hook_step b b'"

text \<open>A step opens at most one statement and one executor marker, so the stacks are no longer than the run.\<close>

definition grows_by_one :: "backend \<Rightarrow> backend \<Rightarrow> bool" where
  "grows_by_one b b' \<longleftrightarrow> length (be_active b') \<le> Suc (length (be_active b))
     \<and> length (be_markers b') \<le> Suc (length (be_markers b))"

lemma start_growth:
  assumes "server_ok v" and "backend_ok b"
  shows "executor_statement_start v qd b = Some (r, b') \<Longrightarrow> grows_by_one b b'"
    and "utility_statement_start v stmt ro b = Some (q, b') \<Longrightarrow> grows_by_one b b'"
proof -
  show "grows_by_one b b'" if "executor_statement_start v qd b = Some (r, b')"
    using executor_start_ok(2,3) [OF assms that]
    by (cases r) (auto simp: grows_by_one_def executor_pushed_def stacks_def)
  show "grows_by_one b b'" if "utility_statement_start v stmt ro b = Some (q, b')"
    using utility_start_ok(2,3) [OF assms that]
    by (cases q) (auto simp: grows_by_one_def utility_pushed_def stacks_def split: if_splits)
qed

lemma step_growth:
  assumes "hook_step b b'" and "lifecycle_ok b"
  shows "grows_by_one b b'"
proof -
  have ok: "backend_ok b" using assms(2) by (simp add: lifecycle_ok_def)
  have other: "grows_by_one b b'" if "stacks b' = stacks b" using that by (simp add: grows_by_one_def stacks_def)
  have ends: "grows_by_one b (executor_statement_complete v b)" "grows_by_one b (utility_statement_complete v m b)"
    "grows_by_one b (transaction_ending event b)" for v m event
    by (auto simp: grows_by_one_def executor_complete_eq utility_complete_eq settle_top_def transaction_ending_def
        drain_active_statements_def split: list.split)
  show ?thesis
    using assms(1) by (elim hook_stepE) (simp_all only: other ends start_growth [OF _ ok])
qed

lemma run_growth:
  assumes "(hook_step ^^ n) b b'" and "lifecycle_ok b" and "be_active b = []"
  shows "length (be_active b') \<le> n"
  using assms(1)
proof (induction n arbitrary: b')
  case 0
  then show ?case using assms(3) by simp
next
  case (Suc n)
  then obtain c where c: "(hook_step ^^ n) b c" "hook_step c b'" by auto
  have "lifecycle_ok c"
    using rtranclp_power [of hook_step b c] c(1) assms(2) lifecycle_run by blast
  with step_growth [OF c(2)] Suc.IH [OF c(1)] show ?case by (simp add: grows_by_one_def)
qed

text \<open>
  C15: the lifecycle invariant. Whatever sequence of hooks a backend runs, in any order, with
  any failures, with any other backends at work: the segment and the trusted tenant stay well
  formed, the admission bypass is never left switched on, and every statement on the stack
  was admitted, was charged nothing or its prediction, and names its policy unless none
  matched. The next end of a transaction leaves no statement behind.
\<close>

theorem lifecycle_invariant:
  assumes "hook_step\<^sup>*\<^sup>* b b'" and "lifecycle_ok b"
  shows "lifecycle_ok b' \<and> \<not> admission_is_bypassed b'
    \<and> (\<forall>event. xact_ends event \<longrightarrow> be_active (transaction_ending event b') = [] \<and> be_markers (transaction_ending event b') = [])"
proof -
  have "lifecycle_ok b'" using assms by (rule lifecycle_run)
  then show ?thesis
    by (simp add: lifecycle_ok_def admission_is_bypassed_def transaction_ending_def drain_active_statements_def)
qed

section \<open>The bypass, and statements that do not nest\<close>

text \<open>
  While the extension queries the catalog for its own purposes the bypass is on, and the
  statements of these queries are invisible: nothing is admitted, recorded or settled.
\<close>

lemma bypassed_statements_invisible:
  assumes "admission_is_bypassed b"
  shows "\<exists>b1. executor_statement_start v qd b = Some (Inr (), b1) \<and> executor_statement_complete w b1 = b"
    and "utility_statement_start v stmt ro b = Some (Inr False, b)" and "utility_statement_complete w False b = b"
  using assms by (simp_all add: executor_statement_start_def utility_statement_start_def
      push_executor_admission_marker_def executor_complete_eq utility_complete_eq)

lemma bypass_transparent:
  assumes "be_bypass_depth b \<noteq> - 1"
    and "\<And>c. be_bypass_depth (snd (callback c)) = be_bypass_depth c"
  shows "be_bypass_depth (snd (with_admission_bypass callback b)) = be_bypass_depth b"
proof -
  have "sat_sub (sat_add d 1) 1 = d" if "d \<noteq> - 1" for d :: usize
  proof -
    have "unat d \<noteq> 2 ^ 64 - 1" using that by (simp add: word_unat_eq_iff unat_max_word)
    with unat_u64_le [of d] have "unat d < 2 ^ 64 - 1" by (simp add: order.strict_iff_order)
    then have "unat (sat_add d 1) = unat d + 1" by (simp add: unat_sat_add)
    then show ?thesis by (simp add: word_unat_eq_iff unat_sat_sub)
  qed
  with assms show ?thesis
    by (simp add: with_admission_bypass_def split_def bypass_enter_def bypass_drop_def)
qed

text \<open>
  The two stacks pair a start with the latest open start, not with its own. When an admitted
  inner statement fails inside a subtransaction, its end never comes, and the end of the
  outer statement settles the inner one: the outer statement stays on the stack until the
  transaction ends. When the inner statement was not admitted, for instance a cursor that a
  function leaves open, the end of the outer statement settles nothing.
\<close>

lemma outer_end_settles_inner:
  assumes "be_markers b = m # True # ms" and "be_active b = (if m then inner # outer # as else outer # as)"
  shows "be_shmem (executor_statement_complete w b) =
      (if m then reconcile_completed_statement w inner (be_shmem b) else be_shmem b)"
    and "outer \<in> set (be_active (executor_statement_complete w b))"
  using assms by (simp_all add: executor_complete_eq settle_top_def)

section \<open>Errors of the extension itself\<close>

lemma handle_result_raises:
  "handle_admission_result v (x, b) = (Inl r, b') \<Longrightarrow>
     b' = b \<and> (g_fail_open (sv_gucs v) \<longrightarrow> (\<exists>p w a. r = raised_report (BudgetExceeded p w a)))"
  by (cases x) (auto simp: handle_admission_result_def handle_internal_admission_error_def
      split: admission_error.splits if_splits)

lemma hook_raises:
  assumes "executor_statement_start v qd b = Some (Inl r, b') \<or> utility_statement_start v stmt ro b = Some (Inl r, b')"
  shows "g_enabled (sv_gucs v) \<and> \<not> admission_is_bypassed b
    \<and> (g_fail_open (sv_gucs v) \<longrightarrow> (\<exists>p w a. r = raised_report (BudgetExceeded p w a)))"
proof -
  have raised: "g_fail_open (sv_gucs v) \<longrightarrow> (\<exists>p w a. r = raised_report (BudgetExceeded p w a))"
    if "handle_admission_result v rb = (Inl r, b')" for rb
    using that handle_result_raises [of v "fst rb" "snd rb"] by simp
  from assms show ?thesis
  proof
    assume start: "executor_statement_start v qd b = Some (Inl r, b')"
    then have on: "g_enabled (sv_gucs v) \<and> \<not> admission_is_bypassed b"
      by (auto simp: executor_statement_start_def split: if_splits)
    with start obtain rb where "sbind (handle_admission_result v rb) (\<lambda>active b. case active of
               Some a \<Rightarrow> (Inr (), push_executor_admission_marker True (push_active_statement (capture_start v a) b))
             | None \<Rightarrow> (Inr (), push_executor_admission_marker False b)) = (Inl r, b')"
      by (auto simp: executor_statement_start_def)
    then have "handle_admission_result v rb = (Inl r, b')"
      by (cases "handle_admission_result v rb"; cases "fst (handle_admission_result v rb)")
        (auto split: option.splits)
    with on raised show ?thesis by blast
  next
    assume start: "utility_statement_start v stmt ro b = Some (Inl r, b')"
    then have on: "g_enabled (sv_gucs v) \<and> \<not> admission_is_bypassed b"
      by (auto simp: utility_statement_start_def split: if_splits)
    with start obtain rb where "sbind (handle_admission_result v rb) (\<lambda>active b. case active of
               Some a \<Rightarrow> (Inr True, push_active_statement (capture_start v a) b)
             | None \<Rightarrow> (Inr False, b)) = (Inl r, b')"
      by (auto simp: utility_statement_start_def split: if_splits)
    then have "handle_admission_result v rb = (Inl r, b')"
      by (cases "handle_admission_result v rb"; cases "fst (handle_admission_result v rb)")
        (auto split: option.splits)
    with on raised show ?thesis by blast
  qed
qed

lemma internal_error_start:
  assumes "server_ok v" and "backend_ok b" and on: "g_enabled (sv_gucs v)" "\<not> admission_is_bypassed b"
    and run: "admit_normal_statement v qd b = Some (Inl (AdmissionInternal e c), b1)"
  shows "if g_fail_open (sv_gucs v)
       then \<exists>b'. executor_statement_start v qd b = Some (Inr (), b')
          \<and> stacks b' = (be_active b, False # be_markers b, be_bypass_depth b)
          \<and> telemetry (counter_delta_default\<lparr>cd_accepted_statements := 1, cd_internal_fail_open_count := 1,
                cd_predicted_wal_bytes := (case Option.bind c xc_predicted_wal_bytes of None \<Rightarrow> 0 | Some p \<Rightarrow> p)\<rparr>)
              (internal_fail_open_recent_decision c decision_internal_error_fail_open (sv_error_clock v))
              (be_shmem b1) (be_shmem b')
       else executor_statement_start v qd b = Some (Inl (raised_report e), b1)"
proof -
  have "be_bypass_depth b = 0" using on by (simp add: admission_is_bypassed_def word_neq_0_conv [symmetric])
  note b1 = admit_in_hook_ok(1) [OF assms(1,2) this run]
  have seg: "segment_ok (be_shmem b1)" using b1 by (simp add: backend_ok_def)
  note start = executor_statement_start_def on run handle_admission_result_def handle_internal_admission_error_def
  show ?thesis
  proof (cases "g_fail_open (sv_gucs v)")
    case True
    define b' where "b' = push_executor_admission_marker False
      (b1\<lparr>be_shmem := record_internal_fail_open c (sv_error_clock v) (be_shmem b1)\<rparr>)"
    have "executor_statement_start v qd b = Some (Inr (), b')" using True by (simp add: start b'_def)
    moreover have "stacks b' = (be_active b, False # be_markers b, be_bypass_depth b)"
      using b1 by (simp add: b'_def stacks_def push_executor_admission_marker_def)
    moreover have "be_shmem b' = record_internal_fail_open c (sv_error_clock v) (be_shmem b1)"
      by (simp add: b'_def push_executor_admission_marker_def)
    ultimately show ?thesis
      using True decision_telemetry_effect [OF seg]
      by (simp add: record_internal_fail_open_def Let_def counter_delta_for_decision_def
          decision_internal_error_fail_open_def)
  next
    case False
    then show ?thesis by (simp add: start)
  qed
qed


section \<open>Concrete runs\<close>

definition idle_backend :: backend where
  "idle_backend = \<lparr>be_scope = backend_scope_default, be_cache = None, be_active = [], be_markers = [],
     be_bypass_depth = 0, be_shmem = started_shmem\<rparr>"

definition insert_stmt :: planned_stmt where
  "insert_stmt = \<lparr>ps_command_type = CMD_INSERT, ps_has_modifying_cte = False, ps_query_id = 0, ps_utility_stmt = None\<rparr>"

lemma idle_backend_ok: "lifecycle_ok idle_backend" "backend_ok idle_backend"
  by (simp_all add: lifecycle_ok_def backend_ok_def idle_backend_def started_shmem_ok(1) scope_state_ok_def
      backend_scope_default_def)

lemma idle_scope:
  "\<exists>scope st. classify_current_scope False (sv_names idle_server) backend_scope_default = (Inr scope, st)"
proof -
  have "to_string_lossy ''db'' = ''db''" by (simp add: lossy_of_valid utf8_valid_ascii)
  moreover have "str_trim ''db'' = ''db''" by code_simp
  ultimately show ?thesis
    by (simp add: classify_current_scope_def classify_current_scope_by_precedence_def current_tenant_def
        backend_scope_default_def current_role_name_def current_database_name_def idle_server_def owned_eq
        borrowed_cstring_to_nonempty_string_def classified_def Let_def scope_key_with_debug_def
        scope_key_with_debug_value_def)
qed

lemma idle_insert_admitted:
  "\<exists>a b1. executor_statement_start idle_server (Some (Some insert_stmt)) idle_backend = Some (Inr (), b1)
     \<and> be_active b1 = [a] \<and> be_markers b1 = [True]"
proof -
  obtain scope st where sc: "classify_current_scope False (sv_names idle_server) backend_scope_default = (Inr scope, st)"
    using idle_scope by blast
  have gucs: "g_enabled default_gucs" "\<not> g_composite_scope_enabled default_gucs"
    by (simp_all add: default_gucs_def)
  have none: "effective_policy_for_scope (sv_store idle_server) scope t (None, s)
      = (Inr None, (Some \<lparr>pc_refreshed_epoch_ms = t, pc_policies = []\<rparr>, s))" for t s scope
    by (simp add: lookup_reload should_reload_def idle_server_def idle_store_def load_policy_rows_def)
  have "extract_query_id insert_stmt = None" "classify_planned_statement insert_stmt = Write"
    by (simp_all add: extract_query_id_def classify_planned_statement_def insert_stmt_def)
  then show ?thesis
    using sc gucs none
    by (simp add: executor_statement_start_def admission_is_bypassed_def idle_backend_def idle_server_fields
        admit_normal_statement_def Let_def query_desc_planned_stmt_def bypass_enter_def admit_classified_def
        predict_without_profile admit_context_def handle_admission_result_def bypass_drop_def
        push_executor_admission_marker_def push_active_statement_def)
qed

theorem nested_statements_settle_witness:
  "\<exists>a b1. executor_statement_start idle_server (Some (Some insert_stmt)) idle_backend = Some (Inr (), b1)
     \<and> be_active b1 = [a] \<and> stacks (executor_statement_complete idle_server b1) = ([], [], 0)
     \<and> be_shmem (executor_statement_complete idle_server b1) = reconcile_completed_statement idle_server a (be_shmem b1)"
proof -
  obtain a b1 where b1: "executor_statement_start idle_server (Some (Some insert_stmt)) idle_backend = Some (Inr (), b1)"
    "be_active b1 = [a]" using idle_insert_admitted by blast
  have "nested_run b1 b1"
    using executor_start_ok(1) [OF idle_server_ok idle_backend_ok(2) b1(1)] by (intro nested_other) simp_all
  from nested_statements_settle [OF idle_backend_ok(2) idle_server_ok this, of "Some (Some insert_stmt)" idle_server] b1
  show ?thesis by (auto simp: stacks_def idle_backend_def)
qed

theorem transaction_end_spec_witness:
  "\<exists>a b1. executor_statement_start idle_server (Some (Some insert_stmt)) idle_backend = Some (Inr (), b1)
     \<and> be_active b1 = [a] \<and> be_active (transaction_ending XACT_EVENT_COMMIT b1) = []
     \<and> segment_bucket (be_shmem (transaction_ending XACT_EVENT_COMMIT b1)) = segment_bucket (be_shmem b1)"
proof -
  obtain a b1 where b1: "executor_statement_start idle_server (Some (Some insert_stmt)) idle_backend = Some (Inr (), b1)"
    "be_active b1 = [a]" using idle_insert_admitted by blast
  have "xact_ends XACT_EVENT_COMMIT" "\<not> xact_aborts XACT_EVENT_COMMIT"
    by (simp_all add: xact_ends_def xact_aborts_def)
  with transaction_end_spec [OF executor_start_ok(1) [OF idle_server_ok idle_backend_ok(2) b1(1)], of XACT_EVENT_COMMIT] b1
  show ?thesis by (auto simp: Let_def)
qed

theorem lifecycle_invariant_witness:
  "\<exists>b. hook_step\<^sup>*\<^sup>* idle_backend b \<and> be_markers b = [True] \<and> lifecycle_ok b
     \<and> be_active (transaction_ending XACT_EVENT_ABORT b) = []"
proof -
  obtain a b1 where b1: "executor_statement_start idle_server (Some (Some insert_stmt)) idle_backend = Some (Inr (), b1)"
    "be_markers b1 = [True]" using idle_insert_admitted by blast
  have "hook_step idle_backend b1" by (rule step_executor_start [OF idle_server_ok b1(1)])
  then have "hook_step\<^sup>*\<^sup>* idle_backend b1" by simp
  with lifecycle_invariant [OF this idle_backend_ok(1)] b1(2) show ?thesis by (auto simp: xact_ends_def)
qed


end
