(* ===== verification/Pwb_Trace.thy ===== *)
theory Pwb_Trace
  imports Pwb_Lifecycle
begin

text \<open>
  The work of several backends on the buckets as one sequence of atomic budget operations.
  An event is an operation with the backend that did it and the bytes it charged; a trace
  leads from one segment to another through its events and through work that changes no
  bucket. The lemmas show that every part of a statement that is not its own charge or
  settlement touches the buckets at most through the work of other backends.
\<close>

section \<open>Traces\<close>

record budget_event =
  ev_backend :: nat
  ev_op :: budget_op
  ev_charge :: nat

inductive bucket_trace :: "shmem \<Rightarrow> budget_event list \<Rightarrow> shmem \<Rightarrow> bool" where
  trace_quiet: "segment_ok s \<Longrightarrow> segment_ok s' \<Longrightarrow> segment_bucket s' = segment_bucket s \<Longrightarrow> bucket_trace s [] s'"
| trace_event:
    "segment_ok s \<Longrightarrow> segment_ok t \<Longrightarrow> segment_bucket t = segment_bucket s
      \<Longrightarrow> budget_step (ev_op e) t = (ev_charge e, u) \<Longrightarrow> bucket_trace u es s' \<Longrightarrow> bucket_trace s (e # es) s'"

inductive_cases trace_NilE: "bucket_trace s [] s'"
inductive_cases trace_ConsE: "bucket_trace s (e # es) s'"

lemma trace_ok: "bucket_trace s es s' \<Longrightarrow> segment_ok s \<and> segment_ok s'"
  by (induction rule: bucket_trace.induct) simp_all

lemma trace_front:
  "bucket_trace t es u \<Longrightarrow> segment_ok s \<Longrightarrow> segment_bucket t = segment_bucket s \<Longrightarrow> bucket_trace s es u"
  by (induction rule: bucket_trace.cases) (auto intro: bucket_trace.intros)

lemma trace_append: "bucket_trace s es t \<Longrightarrow> bucket_trace t fs u \<Longrightarrow> bucket_trace s (es @ fs) u"
  by (induction rule: bucket_trace.induct) (auto intro: trace_front bucket_trace.intros)

lemma budget_step_ok:
  assumes "segment_ok s"
  shows "segment_ok (snd (budget_step op s))"
proof (cases op)
  case (OpReject c policy now)
  then show ?thesis using reject_result(1) [OF assms, of c policy now] by (auto split: prod.split)
next
  case (OpQueue c policy now)
  then show ?thesis
    using queue_result(1) [OF assms, of c policy now] by (auto split: prod.split sum.split charge_attempt.split)
next
  case (OpShadow c policy now)
  then show ?thesis using shadow_result(1) [OF assms, of c policy now] by (auto split: prod.split)
qed (use refund_result(1) debt_result(1) assms in simp_all)

lemma trace_single:
  assumes "segment_ok s" and "budget_step op s = (c, s')"
  shows "bucket_trace s [\<lparr>ev_backend = i, ev_op = op, ev_charge = c\<rparr>] s'"
proof -
  have "segment_ok s'" using budget_step_ok [OF assms(1), of op] assms(2) by simp
  then show ?thesis using assms by (auto intro!: trace_event [where t = s] trace_quiet)
qed

section \<open>Parts of a statement that touch no bucket themselves\<close>

text \<open>Some trace from one segment to the other has only the given events.\<close>

definition moves :: "(budget_event \<Rightarrow> bool) \<Rightarrow> shmem \<Rightarrow> shmem \<Rightarrow> bool" where
  "moves P s s' \<longleftrightarrow> (\<exists>es. bucket_trace s es s' \<and> list_all P es)"

text \<open>
  What other code may do to the segment: any relation that contains the work that changes no
  bucket and that composes. A part of a statement stays in such a relation if the server does.
\<close>

definition server_within :: "(shmem \<Rightarrow> shmem \<Rightarrow> bool) \<Rightarrow> server \<Rightarrow> bool" where
  "server_within E v \<longleftrightarrow> server_ok v \<and>
     (\<forall>s. segment_ok s \<longrightarrow>
        E s (snd (load_catalog_profiles v s)) \<and> E s (snd (load_enabled_policy_rows (sv_store v) s))
      \<and> (\<forall>ps. E s (snd (persist_catalog_profiles v ps s))) \<and> (\<forall>i w. E s (snd (sv_wait v i w s))))"

locale bucket_effect =
  fixes E :: "shmem \<Rightarrow> shmem \<Rightarrow> bool"
  assumes quiet: "segment_ok s \<Longrightarrow> segment_ok s' \<Longrightarrow> segment_bucket s' = segment_bucket s \<Longrightarrow> E s s'"
    and chain: "E s t \<Longrightarrow> E t u \<Longrightarrow> E s u"
begin

lemma refl: "segment_ok s \<Longrightarrow> E s s"
  by (simp add: quiet)

lemma header_effect: "segment_ok s \<Longrightarrow> segment_ok (set_header st s) \<Longrightarrow> E s (set_header st s)"
  by (intro quiet segment_bucket_cong) (simp_all add: set_header_def)

lemma locked_profiles_effect:
  assumes "segment_ok s" and "segment_ok (snd (with_locked_profiles f s))"
  shows "E s (snd (with_locked_profiles f s))"
  using assms by (intro quiet segment_bucket_cong) (simp_all add: with_locked_profiles_eq split: prod.split)

lemma ensure_loaded_effect:
  assumes s: "segment_ok s" and load: "loads_ok load" and within: "\<And>s. segment_ok s \<Longrightarrow> E s (snd (load s))"
  shows "E s (snd (ensure_profiles_loaded now stale load s))"
proof (cases "restore_due now stale (header_of s)")
  case True
  obtain r s2 where l: "load (restore_begun now s) = (r, s2)" by (meson surj_pair)
  have s1: "segment_ok (restore_begun now s)" by (rule restore_begun_ok [OF s])
  have s2: "segment_ok s2" "\<And>ps. r = Inr ps \<Longrightarrow> snapshots_ok ps"
    using load s1 l by (auto simp: loads_ok_def)
  have "E s (restore_begun now s)" using s1 unfolding restore_begun_def by (rule header_effect [OF s])
  then have here: "E s s2" using chain within [OF s1] l by (metis snd_conv)
  have failed: "E s2 (restore_marked_failed s2)"
    using marked_failed_ok [OF s2(1)] unfolding restore_marked_failed_def by (rule header_effect [OF s2(1)])
  have finished: "E s2 (snd (finish_profile_restore ps s2))" if "r = Inr ps" for ps
    using finish_restore_eq(1) [OF s2(1) s2(2) [OF that]] unfolding finish_profile_restore_def
    by (rule locked_profiles_effect [OF s2(1)])
  from ensure_loaded_cases(2) [OF s load True] show ?thesis
    using chain [OF here failed] chain [OF here finished] l
    by (fastforce split: sum.splits if_splits)
qed (simp add: ensure_loaded_cases(1) [OF s load] refl [OF s])

lemma persist_effect:
  assumes s: "segment_ok s" and w: "writes_ok persist" and within: "\<And>ps s. segment_ok s \<Longrightarrow> E s (snd (persist ps s))"
  shows "E s (snd (persist_profiles_if_due now interval persist s))"
proof -
  obtain r s2 where p: "persist (cache_snapshot (sm_profiles (sh_mem s))) (persist_reserved now s) = (r, s2)"
    by (meson surj_pair)
  have s1: "segment_ok (persist_reserved now s)" by (rule persist_reserved_ok [OF s])
  have s2: "segment_ok s2" using w s1 p unfolding writes_ok_def by (metis snd_conv)
  have "E s (persist_reserved now s)" using s1 unfolding persist_reserved_def by (rule header_effect [OF s])
  then have here: "E s s2" using chain within [OF s1] p by (metis snd_conv)
  have "E s2 (marked_clean b s2)" for b
    using marked_clean_ok [OF s2] unfolding marked_clean_def by (rule header_effect [OF s2])
  then have "E s (marked_clean b s2)" for b by (rule chain [OF here])
  then show ?thesis using refl [OF s] by (simp add: persist_cases(1) [OF s w] p)
qed

lemma catalog_effect:
  assumes "server_within E v" and "segment_ok s"
  shows "E s (snd (ensure_catalog_loaded v s))" and "E s (snd (maybe_persist_profiles v now s))"
proof -
  have v: "loads_ok (load_catalog_profiles v)" "writes_ok (persist_catalog_profiles v)"
    "\<And>s. segment_ok s \<Longrightarrow> E s (snd (load_catalog_profiles v s))"
    "\<And>ps s. segment_ok s \<Longrightarrow> E s (snd (persist_catalog_profiles v ps s))"
    using assms(1) unfolding server_within_def server_ok_def by blast+
  show "E s (snd (ensure_catalog_loaded v s))"
    unfolding ensure_catalog_loaded_def by (rule ensure_loaded_effect [OF assms(2) v(1,3)])
  show "E s (snd (maybe_persist_profiles v now s))"
    unfolding maybe_persist_profiles_def by (rule persist_effect [OF assms(2) v(2,4)])
qed

lemma prediction_effect:
  assumes v: "server_within E v" and s: "segment_ok s"
  shows "E s (snd (predict_context v x s))"
proof -
  have ok: "server_ok v" using v by (simp add: server_within_def)
  obtain r s1 where e: "ensure_catalog_loaded v s = (r, s1)" by (meson surj_pair)
  have s1: "segment_ok s1" "E s s1"
    using ensure_catalog_ok [OF ok s] catalog_effect(1) [OF v s] by (simp_all add: e)
  have "E s (snd (maybe_persist_profiles v now s1))" for now
    by (rule chain [OF s1(2) catalog_effect(2) [OF v s1(1)]])
  then show ?thesis
    using s1 refl [OF s]
    by (auto simp: predict_context_def lookup_prediction_profile_def e segment_lookup sbind_def
        split: sum.splits option.splits prod.splits)
qed

lemma observation_effect:
  assumes v: "server_within E v" and s: "segment_ok s"
  shows "E s (snd (record_query_observation v h q a t s))"
proof -
  have ok: "server_ok v" using v by (simp add: server_within_def)
  obtain r s1 where e: "ensure_catalog_loaded v s = (r, s1)" by (meson surj_pair)
  have s1: "segment_ok s1" "E s s1"
    using ensure_catalog_ok [OF ok s] catalog_effect(1) [OF v s] by (simp_all add: e)
  have "E s1 (snd (upsert_scoped_and_global_query_profiles h q a t w s1))" if "weights_ok w" for w
    using segment_upsert [OF s1(1) that] unfolding upsert_scoped_and_global_query_profiles_def
    by (intro locked_profiles_effect [OF s1(1)]) simp
  then show ?thesis
    using s1 chain alpha_weights_ok by (auto simp: record_query_observation_def e sbind_def split: sum.splits)
qed

lemma lookup_effect:
  assumes "server_within E v" and "segment_ok s"
  shows "E s (snd (snd (effective_policy_for_scope (sv_store v) scope now (c, s))))"
proof (cases "should_reload c now")
  case True
  have "E s (snd (load_enabled_policy_rows (sv_store v) s))" using assms by (simp add: server_within_def)
  then show ?thesis by (auto simp: lookup_reload [OF True] split: prod.splits sum.splits)
next
  case False
  then obtain k where "c = Some k" "\<not> cache_is_stale k now" by (auto simp: should_reload_def split: option.splits)
  then show ?thesis using refl [OF assms(2)] by (simp add: lookup_fresh)
qed

lemma recorded_effect:
  assumes "segment_ok s" and "\<And>t. sk_debug_value (ac_scope x) = Some t \<Longrightarrow> utf8_valid t"
  shows "E s (record_admission_decision x d now s)"
proof (rule quiet [OF assms(1)])
  have tel: "telemetry (counter_delta_for_kind (ad_kind d) (ac_predicted_wal_bytes x))
      (admission_recent_decision x d now) s (record_admission_decision x d now s)"
    by (rule recorded_decision [OF assms])
  then show "segment_ok (record_admission_decision x d now s)" by (simp add: telemetry_def)
  show "segment_bucket (record_admission_decision x d now s) = segment_bucket s" by (rule telemetry_buckets [OF tel])
qed

end

interpretation moved: bucket_effect "moves P" for P
proof
  show "segment_ok s \<Longrightarrow> segment_ok s' \<Longrightarrow> segment_bucket s' = segment_bucket s \<Longrightarrow> moves P s s'" for s s'
    by (auto simp: moves_def intro!: exI [of _ "[]"] trace_quiet)
  show "moves P s t \<Longrightarrow> moves P t u \<Longrightarrow> moves P s u" for s t u
    using trace_append unfolding moves_def by fastforce
qed

section \<open>Admissions as traces\<close>

text \<open>What a statement on the stack still has to settle with a bucket.\<close>

definition held :: "bucket_key \<Rightarrow> active_statement_state \<Rightarrow> nat" where
  "held k a =
     (case charged_policy_id (from_active a) of
        None \<Rightarrow> 0
      | Some p \<Rightarrow> if (p, as_scope_hash a) = k then unat (ad_charged_bytes (as_decision a)) else 0)"

fun is_admission :: "budget_op \<Rightarrow> bool" where
  "is_admission (OpRefund p h bytes) = False"
| "is_admission (OpDebt p h bytes) = False"
| "is_admission _ = True"

definition foreign_event :: "nat \<Rightarrow> budget_event \<Rightarrow> bool" where
  "foreign_event i e \<longleftrightarrow> ev_backend e \<noteq> i"

text \<open>
  While a backend neither opens nor settles a statement, its own events are attempts that
  charge nothing; the event that pays for a statement charges what the statement holds.
\<close>

definition idle_event :: "nat \<Rightarrow> budget_event \<Rightarrow> bool" where
  "idle_event i e \<longleftrightarrow> ev_backend e \<noteq> i \<or> is_admission (ev_op e) \<and> ev_charge e = 0"

definition pays_for :: "nat \<Rightarrow> active_statement_state \<Rightarrow> budget_event \<Rightarrow> bool" where
  "pays_for i a e \<longleftrightarrow> ev_backend e = i \<and> is_admission (ev_op e)
     \<and> (\<forall>k. held k a = (if op_key (ev_op e) = k then ev_charge e else 0))"

definition opened_by :: "nat \<Rightarrow> active_statement_state \<Rightarrow> budget_event list \<Rightarrow> bool" where
  "opened_by i a es \<longleftrightarrow> es = [] \<and> (\<forall>k. held k a = 0) \<or> (\<exists>e. es = [e] \<and> pays_for i a e)"

definition opens :: "nat \<Rightarrow> shmem \<Rightarrow> active_statement_state \<Rightarrow> shmem \<Rightarrow> bool" where
  "opens i s a s' \<longleftrightarrow>
     (\<exists>t es u. moves (idle_event i) s t \<and> bucket_trace t es u \<and> opened_by i a es \<and> moves (idle_event i) u s')"

lemma moves_weaken: "moves P s s' \<Longrightarrow> (\<And>e. P e \<Longrightarrow> Q e) \<Longrightarrow> moves Q s s'"
  unfolding moves_def using list.pred_mono_strong by blast

lemma foreign_idle: "moves (foreign_event i) s s' \<Longrightarrow> moves (idle_event i) s s'"
  by (elim moves_weaken) (simp add: foreign_event_def idle_event_def)

lemma opens_before: "moves (idle_event i) s t \<Longrightarrow> opens i t a s' \<Longrightarrow> opens i s a s'"
  unfolding opens_def using moved.chain by blast

lemma opens_after: "opens i s a t \<Longrightarrow> moves (idle_event i) t s' \<Longrightarrow> opens i s a s'"
  unfolding opens_def using moved.chain by blast

lemma opens_free: "segment_ok s \<Longrightarrow> (\<And>k. held k a = 0) \<Longrightarrow> opens i s a s"
  unfolding opens_def opened_by_def using moved.refl trace_quiet [of s s] by blast

text \<open>The outcome of an admission: an opened statement, or an error and nothing charged.\<close>

definition admission_traced ::
  "nat \<Rightarrow> shmem \<Rightarrow> ('e + active_statement_state) \<times> shmem \<Rightarrow> bool" where
  "admission_traced i s rs \<longleftrightarrow>
     (case fst rs of Inl e \<Rightarrow> moves (idle_event i) s (snd rs) | Inr a \<Rightarrow> opens i s a (snd rs))"

definition decision_traced ::
  "nat \<Rightarrow> admission_context \<Rightarrow> shmem \<Rightarrow> admission_decision pwb_result \<times> shmem \<Rightarrow> bool" where
  "decision_traced i x s rs \<longleftrightarrow>
     admission_traced i s (map_prod (map_sum id (active_statement_from_context x)) id rs)"

lemma decision_traced_simps [simp]:
  "decision_traced i x s (Inl e, s') = moves (idle_event i) s s'"
  "decision_traced i x s (Inr d, s') = opens i s (active_statement_from_context x d) s'"
  by (simp_all add: decision_traced_def admission_traced_def)

lemma single_opens:
  assumes "segment_ok s" and "budget_step op s = (c, s')" and "is_admission op"
    and "\<And>k. held k a = (if op_key op = k then c else 0)"
  shows "opens i s a s'"
proof -
  let ?e = "\<lparr>ev_backend = i, ev_op = op, ev_charge = c\<rparr>"
  have "segment_ok s'" using budget_step_ok [OF assms(1), of op] assms(2) by simp
  then have "moves (idle_event i) s s" "moves (idle_event i) s' s'" using assms(1) by (simp_all add: moved.refl)
  moreover have "bucket_trace s [?e] s'" by (rule trace_single [OF assms(1,2)])
  moreover have "opened_by i a [?e]" by (simp add: opened_by_def pays_for_def assms(3,4))
  ultimately show ?thesis unfolding opens_def by blast
qed

lemma single_idle:
  assumes "segment_ok s" and "budget_step op s = (0, s')" and "is_admission op"
  shows "moves (idle_event i) s s'"
  unfolding moves_def
  by (intro exI conjI, rule trace_single [OF assms(1,2)]) (simp add: idle_event_def assms(3))

lemma held_active: "held k (active_statement_from_context x d) =
    (case ad_policy_id d of
       None \<Rightarrow> 0
     | Some p \<Rightarrow> if (p, sk_value_hash (ac_scope x)) = k then charged_by (Inr d) else 0)"
  by (simp add: held_def charged_policy_id_def from_active_def active_statement_from_context_def charged_by_def
      split: option.split)

lemma charged_single_opens:
  assumes "segment_ok s" and "budget_step op s = (charged_by (Inr d), s')" and "is_admission op"
    and "op_key op = context_key x policy" and "ad_policy_id d = Some (ep_policy_id policy)"
  shows "opens i s (active_statement_from_context x d) s'"
  by (rule single_opens [OF assms(1-3)]) (simp add: held_active assms(4,5) context_key_def)

lemma reject_traced:
  assumes "segment_ok s"
  shows "decision_traced i x s (admit_reject_statement x policy now s)"
proof -
  obtain r s' where rs: "admit_reject_statement x policy now s = (r, s')" by (meson surj_pair)
  have step: "budget_step (OpReject x policy now) s = (charged_by r, s')" by (simp add: rs)
  show ?thesis
  proof (cases r)
    case (Inl e)
    then show ?thesis using single_idle [OF assms, of "OpReject x policy now"] step by (simp add: rs charged_by_def)
  next
    case (Inr d)
    have "d = charged_decision policy (ac_predicted_wal_bytes x) now (bucket_before x policy now s)"
      using reject_admitted(2) [OF assms] rs Inr by simp
    then have "ad_policy_id d = Some (ep_policy_id policy)" by (simp add: charged_decision_fields)
    with Inr show ?thesis
      using charged_single_opens [OF assms step [unfolded Inr], of x policy] by (simp add: rs)
  qed
qed

lemma shadow_traced:
  assumes "segment_ok s"
  shows "decision_traced i x s (admit_shadow_statement x policy now s)"
proof -
  obtain r s' where rs: "admit_shadow_statement x policy now s = (r, s')" by (meson surj_pair)
  define d where "d = shadow_decision policy (ac_predicted_wal_bytes x) now (bucket_before x policy now s)"
  have d: "r = Inr d" using shadow_result(2) [OF assms, of x policy now] by (simp add: rs d_def)
  have "ad_policy_id d = Some (ep_policy_id policy)"
    by (simp add: d_def shadow_decision_def shadow_callback with_availability_def decision_allowed_def
        decision_would_reject_def)
  moreover have "budget_step (OpShadow x policy now) s = (charged_by (Inr d), s')" by (simp add: rs d)
  ultimately show ?thesis using charged_single_opens [OF assms, of "OpShadow x policy now"] by (simp add: rs d)
qed

lemma queue_admitted:
  assumes "segment_ok s" and "queue_attempt x policy now s = (Inr (Admitted d), s')"
  shows "d = charged_decision policy (ac_predicted_wal_bytes x) now (bucket_before x policy now s)"
  using queue_result(2) [OF assms(1), of x policy now, unfolded assms(2), simplified]
  by (auto simp: map_admit_def bucket_before_def queue_callback split: if_splits option.splits sum.splits)

lemma queue_traced:
  assumes run: "admit_queue_with_retry (queue_attempt x policy) env n now s = Some y"
    and ok: "segment_ok s" and env: "\<And>n w s. segment_ok s \<Longrightarrow> moves (idle_event i) s (snd (env n w s))"
  shows "decision_traced i x s y"
proof -
  let ?P = "\<lambda>a e n now s y. a = queue_attempt x policy \<longrightarrow> e = env \<longrightarrow> segment_ok s \<longrightarrow> decision_traced i x s y"
  have "?P (queue_attempt x policy) env n now s y"
  proof (rule admit_queue_with_retry.raw_induct [of ?P, OF _ run], intro impI)
    fix retry a e n now s y
    assume IH: "\<And>a e n now s y. retry a e n now s = Some y \<Longrightarrow> ?P a e n now s y"
      and a: "a = queue_attempt x policy" "e = env" and s: "segment_ok s"
      and body: "(case a now s of (Inl e, s) \<Rightarrow> Some (Inl e, s)
        | (Inr (Admitted d), s) \<Rightarrow> Some (Inr d, s)
        | (Inr (WouldWait w), s) \<Rightarrow> (case e n (qw_wait_ms w) s of (now, s) \<Rightarrow> retry a e (Suc n) now s)
        | (Inr (Failed e), s) \<Rightarrow> Some (Inl e, s)) = Some y"
    obtain r s1 where r: "queue_attempt x policy now s = (r, s1)" by (meson surj_pair)
    have s1: "segment_ok s1" using queue_result(1) [OF s, of x policy now] by (simp add: r)
    have idle: "moves (idle_event i) s s1" if "\<And>d. r \<noteq> Inr (Admitted d)"
      using single_idle [OF s, of "OpQueue x policy now"] that by (auto simp: r split: sum.splits charge_attempt.splits)
    consider er where "r = Inl er" | d where "r = Inr (Admitted d)" | w where "r = Inr (WouldWait w)"
      | er where "r = Inr (Failed er)"
      by (metis charge_attempt.exhaust sum.exhaust)
    then show "decision_traced i x s y"
    proof cases
      case (2 d)
      have "ad_policy_id d = Some (ep_policy_id policy)"
        using queue_admitted [OF s, of x policy now d s1] r 2 by (simp add: charged_decision_fields)
      then have "opens i s (active_statement_from_context x d) s1"
        using charged_single_opens [OF s, of "OpQueue x policy now" d s1 x policy] by (simp add: r 2)
      then show ?thesis using body by (auto simp: a r 2)
    next
      case (3 w)
      obtain now2 s2 where w: "env n (qw_wait_ms w) s1 = (now2, s2)" by (meson surj_pair)
      have here: "moves (idle_event i) s s2"
        using moved.chain [OF idle env [OF s1, of n "qw_wait_ms w"]] 3 by (simp add: w)
      then have s2: "segment_ok s2" using trace_ok by (auto simp: moves_def)
      have "retry a e (Suc n) now2 s2 = Some y" using body by (simp add: a r 3 w)
      then have "decision_traced i x s2 y" using IH a s2 by blast
      then show ?thesis
        using opens_before [OF here] moved.chain [OF here] by (cases y; cases "fst y") simp_all
    qed (use body idle in \<open>auto simp: a r\<close>)
  qed
  with ok show ?thesis by simp
qed

lemma statement_traced:
  assumes run: "admit_statement x policy env now s = Some y"
    and ok: "segment_ok s" and env: "\<And>n w s. segment_ok s \<Longrightarrow> moves (idle_event i) s (snd (env n w s))"
  shows "decision_traced i x s y"
proof (cases "\<not> ep_enabled policy \<or> ep_mode policy = Off \<or> ep_mode policy = Observe")
  case True
  have "opens i s (active_statement_from_context x (non_charging_admission p c)) s" for p c
    by (rule opens_free [OF ok]) (simp add: held_active non_charging_admission_def decision_allowed_def charged_by_def)
  then show ?thesis using run True by (auto simp: admit_statement_def split: if_splits)
next
  case False
  then consider "ep_mode policy = Shadow" | "ep_mode policy = Reject" | "ep_mode policy = Queue"
    by (cases "ep_mode policy") auto
  then show ?thesis
  proof cases
    case 3
    show ?thesis
    proof (cases "ac_predicted_wal_bytes x > ep_wal_burst_bytes policy")
      case True
      then show ?thesis
        using run False 3 moved.refl [OF ok] by (auto simp: admit_statement_def admit_queue_statement_def)
    next
      case fits: False
      then have "admit_queue_with_retry (queue_attempt x policy) env 0 now s = Some y"
        using run False 3 by (simp add: admit_statement_def admit_queue_statement_def)
      from queue_traced [OF this ok env] show ?thesis .
    qed
  qed (use run False shadow_traced [OF ok] reject_traced [OF ok] in \<open>auto simp: admit_statement_def\<close>)
qed

lemma context_traced:
  assumes v: "server_within (moves (idle_event i)) v" and s: "segment_ok s"
    and utf8: "\<And>t. sk_debug_value (ac_scope x) = Some t \<Longrightarrow> utf8_valid t"
    and run: "admit_context v x (c, s) = Some (r, (c', s'))"
  shows "admission_traced i s (r, s')"
proof -
  obtain p k t where look: "effective_policy_for_scope (sv_store v) (ac_scope x) (sv_clock v) (c, s) = (p, (k, t))"
    by (metis surj_pair)
  have here: "moves (idle_event i) s t"
    using moved.lookup_effect [OF v s, of "ac_scope x" "sv_clock v" c] by (simp add: look)
  then have t: "segment_ok t" using trace_ok by (auto simp: moves_def)
  have recorded: "moves (idle_event i) u (record_admission_decision x d now u)" if "segment_ok u" for u d now
    by (rule moved.recorded_effect [OF that utf8])
  consider e where "p = Inl e" | "p = Inr None" | policy where "p = Inr (Some policy)"
    by (metis option.exhaust sum.exhaust)
  then show ?thesis
  proof cases
    case 1
    then show ?thesis using run here by (auto simp: admit_context_def look Let_def admission_traced_def)
  next
    case 2
    have "opens i t (active_statement_from_context x decision_no_matching_policy) t"
      by (rule opens_free [OF t]) (simp add: held_active decision_no_matching_policy_def)
    then show ?thesis
      using run 2 opens_after [OF opens_before [OF here] recorded [OF t]]
      by (auto simp: admit_context_def look Let_def admission_traced_def)
  next
    case (3 policy)
    obtain o' u where out: "admit_statement x policy (sv_wait v) (sv_clock v) t = Some (o', u)"
      using run by (auto simp: admit_context_def look Let_def 3 split: option.splits)
    have tr: "decision_traced i x t (o', u)"
      using v by (intro statement_traced [OF out t]) (simp add: server_within_def)
    have u: "segment_ok u"
      using tr trace_ok by (cases o') (auto simp: opens_def moves_def)
    show ?thesis
    proof (cases o')
      case (Inr d)
      then have "opens i s (active_statement_from_context x d) (record_admission_decision x d (sv_clock v) u)"
        using tr opens_after [OF opens_before [OF here] recorded [OF u]] by simp
      then show ?thesis using run out Inr 3 by (auto simp: admit_context_def look Let_def admission_traced_def)
    next
      case (Inl e)
      have "moves (idle_event i) s u" using tr moved.chain [OF here] by (simp add: Inl)
      then have "moves (idle_event i) s u" "moves (idle_event i) s (record_admission_decision x d now u)" for d now
        using moved.chain recorded [OF u] by blast+
      then show ?thesis
        using run out Inl 3
        by (auto simp: admit_context_def look Let_def admission_traced_def budget_exceeded_rejection_def
            split: pwb_error.splits)
    qed
  qed
qed

end
