(* ===== verification/Pwb_System.thy ===== *)
theory Pwb_System
  imports Pwb_Trace
begin

text \<open>
  The whole system: any number of backends that run statements and share the buckets. The
  budget machine says what one backend may do to them: open a statement with one charge,
  settle each opened statement once, with what it wrote, and nothing else. The hooks of a
  backend implement this machine whatever the other backends do meanwhile. Backends that agree on
  one sequence of operations then keep the rate limit together, without any allowance for
  refunds.
\<close>

section \<open>The budget machine\<close>

text \<open>How a statement ends: measured, without a measurement, or rolled back.\<close>

datatype ending = Measured wal_bytes | NotMeasured | RolledBack

fun settle_ops :: "active_statement_state \<Rightarrow> ending \<Rightarrow> budget_op list" where
  "settle_ops a (Measured written) =
     (case charged_policy_id (from_active a) of
        None \<Rightarrow> []
      | Some p \<Rightarrow>
          (case budget_reconciliation (from_active a) written of
             ReconcileNone \<Rightarrow> []
           | ReconcileRefund bytes \<Rightarrow> [OpRefund p (as_scope_hash a) bytes]
           | ReconcileDebt bytes \<Rightarrow> [OpDebt p (as_scope_hash a) bytes]))"
| "settle_ops a NotMeasured = []"
| "settle_ops a RolledBack =
     (case charged_policy_id (from_active a) of
        None \<Rightarrow> []
      | Some p \<Rightarrow> [OpRefund p (as_scope_hash a) (ad_charged_bytes (as_decision a))])"

definition settle_events :: "nat \<Rightarrow> active_statement_state \<Rightarrow> ending \<Rightarrow> budget_event list" where
  "settle_events i a how = map (\<lambda>op. \<lparr>ev_backend = i, ev_op = op, ev_charge = 0\<rparr>) (settle_ops a how)"

text \<open>Its state: the statements that are still to be settled, the latest first, and the segment.\<close>

type_synonym ledger = "active_statement_state list \<times> shmem"

definition ledger_of :: "backend \<Rightarrow> ledger" where
  "ledger_of b = (be_active b, be_shmem b)"

inductive budget_machine ::
  "nat \<Rightarrow> ledger \<Rightarrow> budget_event list \<Rightarrow> (active_statement_state \<times> ending) list \<Rightarrow> ledger \<Rightarrow> bool" for i where
  machine_start: "segment_ok s \<Longrightarrow> budget_machine i (as, s) [] [] (as, s)"
| machine_idle:
    "budget_machine i x es ss (as, s) \<Longrightarrow> bucket_trace s fs s' \<Longrightarrow> list_all (idle_event i) fs
      \<Longrightarrow> budget_machine i x (es @ fs) ss (as, s')"
| machine_open:
    "budget_machine i x es ss (as, s) \<Longrightarrow> bucket_trace s fs s' \<Longrightarrow> opened_by i a fs
      \<Longrightarrow> budget_machine i x (es @ fs) ss (a # as, s')"
| machine_settle:
    "budget_machine i x es ss (a # as, s) \<Longrightarrow> bucket_trace s (settle_events i a how) s'
      \<Longrightarrow> budget_machine i x (es @ settle_events i a how) (ss @ [(a, how)]) (as, s')"

lemma machine_append:
  assumes "budget_machine i y fs ts z" and "budget_machine i x es ss y"
  shows "budget_machine i x (es @ fs) (ss @ ts) z"
  using assms
proof (induction rule: budget_machine.induct)
  case (machine_idle y es' ss' as s fs s')
  from budget_machine.machine_idle [OF machine_idle.IH machine_idle.hyps(2,3)] machine_idle.prems
  show ?case by simp
next
  case (machine_open y es' ss' as s fs s' a)
  from budget_machine.machine_open [OF machine_open.IH machine_open.hyps(2,3)] machine_open.prems
  show ?case by simp
next
  case (machine_settle y es' ss' a as s how s')
  from budget_machine.machine_settle [OF machine_settle.IH machine_settle.hyps(2)] machine_settle.prems
  show ?case by simp
qed simp

section \<open>The hooks implement the machine\<close>

text \<open>One run of the machine, with some events and endings.\<close>

definition runs_to :: "nat \<Rightarrow> ledger \<Rightarrow> ledger \<Rightarrow> bool" where
  "runs_to i x y \<longleftrightarrow> (\<exists>es ss. budget_machine i x es ss y)"

lemma runs_trans [trans]: "runs_to i x y \<Longrightarrow> runs_to i y z \<Longrightarrow> runs_to i x z"
  unfolding runs_to_def using machine_append by blast

lemma runs_start: "segment_ok s \<Longrightarrow> runs_to i (as, s) (as, s)"
  unfolding runs_to_def using machine_start by blast

lemma runs_idle: "moves (idle_event i) s s' \<Longrightarrow> runs_to i (as, s) (as, s')"
  unfolding runs_to_def moves_def using machine_idle [OF machine_start] trace_ok by (metis append_Nil)

lemma runs_quiet: "segment_ok s \<Longrightarrow> segment_ok s' \<Longrightarrow> segment_bucket s' = segment_bucket s \<Longrightarrow> runs_to i (as, s) (as, s')"
  by (intro runs_idle moved.quiet)

lemma runs_open: "opens i s a s' \<Longrightarrow> runs_to i (as, s) (a # as, s')"
proof -
  assume "opens i s a s'"
  then obtain t es u where t: "moves (idle_event i) s t" and u: "bucket_trace t es u" "opened_by i a es"
    and s': "moves (idle_event i) u s'" by (auto simp: opens_def)
  have "segment_ok t" using trace_ok [OF u(1)] by simp
  then have "runs_to i (as, t) (a # as, u)"
    unfolding runs_to_def using machine_open [OF machine_start u] by blast
  with runs_idle [OF t] runs_idle [OF s'] show ?thesis using runs_trans by blast
qed

lemma runs_settle:
  assumes "segment_ok s" and "bucket_trace s (settle_events i a how) s'"
  shows "runs_to i (a # as, s) (as, s')"
  unfolding runs_to_def using machine_settle [OF machine_start [OF assms(1)] assms(2)] by blast

text \<open>The statement that a hook pushes holds what its admission charged.\<close>

lemma held_captured [simp]: "held k (capture_start v a) = held k a"
proof -
  have same: "as_scope_hash (capture_start v a) = as_scope_hash a" "as_decision (capture_start v a) = as_decision a"
    by (simp_all add: capture_start_def split: option.split)
  show ?thesis unfolding held_def active_start(2) same ..
qed

lemma opens_captured: "opens i s (capture_start v a) s' = opens i s a s'"
  by (simp add: opens_def opened_by_def pays_for_def)

definition admitted_backend ::
  "nat \<Rightarrow> backend \<Rightarrow> ('e + active_statement_state option) \<times> backend \<Rightarrow> bool" where
  "admitted_backend i b rb \<longleftrightarrow>
     (case fst rb of
        Inr (Some a) \<Rightarrow> opens i (be_shmem b) a (be_shmem (snd rb))
      | _ \<Rightarrow> moves (idle_event i) (be_shmem b) (be_shmem (snd rb)))"

lemma classified_traced:
  assumes v: "server_within (moves (idle_event i)) v" and b: "backend_ok b"
    and run: "admit_classified v q class b = Some rb"
  shows "admitted_backend i b rb"
proof -
  have ok: "server_ok v" and s: "segment_ok (be_shmem b)"
    using v b by (simp_all add: server_within_def backend_ok_def)
  obtain rs sc where c: "classify_current_scope (g_composite_scope_enabled (sv_gucs v)) (sv_names v) (be_scope b) = (rs, sc)"
    by (meson surj_pair)
  show ?thesis
  proof (cases rs)
    case (Inl e)
    then show ?thesis
      using run moved.refl [OF s] by (auto simp: admit_classified_def c admitted_backend_def)
  next
    case (Inr scope)
    let ?px = "\<lparr>px_statement_class = class, px_query_id = q, px_scope_hash = sk_value_hash scope\<rparr>"
    obtain p t where p: "predict_context v ?px (be_shmem b) = (p, t)" by (meson surj_pair)
    have t: "segment_ok t" "moves (idle_event i) (be_shmem b) t"
      using predict_ok(1) [OF ok s, of ?px] moved.prediction_effect [OF v s, of ?px] by (simp_all add: p)
    let ?x = "\<lparr>ac_query_id = q, ac_scope = scope, ac_statement_class = class, ac_predicted_wal_bytes = p\<rparr>"
    obtain r2 c2 s2 where a: "admit_context v ?x (be_cache b, t) = Some (r2, (c2, s2))"
      "rb = (rbind r2 (\<lambda>active. Inr (Some active)), b\<lparr>be_scope := sc, be_cache := c2, be_shmem := s2\<rparr>)"
      using run by (auto simp: admit_classified_def c Inr p)
    have "\<And>w. sk_debug_value (ac_scope ?x) = Some w \<Longrightarrow> utf8_valid w"
      using classify_scope_ok(2) [OF _ c Inr] b by (simp add: backend_ok_def)
    from context_traced [OF v t(1) this a(1)] show ?thesis
      using opens_before [OF t(2)] moved.chain [OF t(2)]
      by (cases r2) (simp_all add: a(2) admitted_backend_def admission_traced_def)
  qed
qed

lemma bypass_admitted [simp]:
  "admitted_backend i (bypass_enter b) (r, b') = admitted_backend i b (r, b')"
  "admitted_backend i b (r, bypass_drop b') = admitted_backend i b (r, b')"
  by (simp_all add: admitted_backend_def bypass_enter_def bypass_drop_def split: sum.split option.split)

lemma admitted_nothing: "segment_ok (be_shmem b) \<Longrightarrow> admitted_backend i b (Inl e, b)"
    "segment_ok (be_shmem b) \<Longrightarrow> admitted_backend i b (Inr None, b)"
  by (simp_all add: admitted_backend_def moved.refl)

lemma admission_traced_in_hook:
  assumes v: "server_within (moves (idle_event i)) v" and b: "backend_ok b"
  shows "admit_normal_statement v qd b = Some rb \<Longrightarrow> admitted_backend i b rb"
    and "lifecycle_admit_utility_statement v stmt ro b = Some rb \<Longrightarrow> admitted_backend i b rb"
proof -
  have ok: "backend_ok (bypass_enter b)" and s: "segment_ok (be_shmem (bypass_enter b))"
    using b by (simp_all add: backend_ok_def bypass_enter_def)
  note cl = classified_traced [OF v ok] and no = admitted_nothing [OF s, of i]
  show "admit_normal_statement v qd b = Some rb \<Longrightarrow> admitted_backend i b rb"
    using cl no by (auto simp: admit_normal_statement_def Let_def split: sum.splits if_splits)
  show "lifecycle_admit_utility_statement v stmt ro b = Some rb \<Longrightarrow> admitted_backend i b rb"
    using cl no by (auto simp: lifecycle_admit_utility_statement_def admit_utility_statement_def Let_def
        split: sum.splits if_splits)
qed

lemma handled_traced:
  assumes "admitted_backend i b rb" and "backend_ok (snd rb)"
  shows "admitted_backend i b (handle_admission_result v rb)"
proof -
  obtain r b' where rb: "rb = (r, b')" by (meson surj_pair)
  have s: "segment_ok (be_shmem b')" using assms(2) by (simp add: rb backend_ok_def)
  have "moves (idle_event i) (be_shmem b') (record_internal_fail_open c t (be_shmem b'))" for c t
    using telemetry_buckets [OF decision_telemetry_effect [OF s]] s segment_decision_telemetry(1) [OF s]
    by (intro moved.quiet) (simp_all add: record_internal_fail_open_def Let_def)
  then show ?thesis
    using assms(1) moved.chain
    by (cases r) (auto simp: rb admitted_backend_def handle_admission_result_def handle_internal_admission_error_def
        split: admission_error.splits option.splits)
qed

text \<open>The start of a statement opens it, or opens nothing.\<close>

lemma starts_run:
  assumes v: "server_within (moves (idle_event i)) v" and b: "backend_ok b"
  shows "executor_statement_start v qd b = Some (r, b') \<Longrightarrow> runs_to i (ledger_of b) (ledger_of b')"
    and "utility_statement_start v stmt ro b = Some (q, b') \<Longrightarrow> runs_to i (ledger_of b) (ledger_of b')"
proof -
  have ok: "server_ok v" and s: "segment_ok (be_shmem b)" using v b by (simp_all add: server_within_def backend_ok_def)
  have depth: "be_bypass_depth b = 0" if "\<not> admission_is_bypassed b"
    using that by (simp add: admission_is_bypassed_def word_neq_0_conv [symmetric])
  have pushed: "runs_to i (ledger_of b) (as, be_shmem b2)"
    if "admitted_backend i b (rs, b1)" "backend_ok b1" "handle_admission_result v (rs, b1) = (x, b2)"
      "as = (case x of Inr (Some a) \<Rightarrow> capture_start v a # be_active b | _ \<Rightarrow> be_active b)" for rs b1 x b2 as
    using handled_traced [OF that(1), of v] that(2-4) runs_open [of i "be_shmem b"] runs_idle [of i "be_shmem b"]
    by (auto simp: admitted_backend_def ledger_of_def opens_captured split: sum.splits option.splits)
  show "runs_to i (ledger_of b) (ledger_of b')" if run: "executor_statement_start v qd b = Some (r, b')"
  proof (cases "g_enabled (sv_gucs v) \<and> \<not> admission_is_bypassed b")
    case True
    then obtain rs b1 where a: "admit_normal_statement v qd b = Some (rs, b1)"
      using run by (auto simp: executor_statement_start_def)
    note adm = admit_in_hook_ok(1) [OF ok b depth a]
    obtain x b2 where h: "handle_admission_result v (rs, b1) = (x, b2)" by (meson surj_pair)
    have b1: "backend_ok b1" "stacks b1 = stacks b" "\<forall>a. rs = Inr (Some a) \<longrightarrow> active_ok a" using adm True by blast+
    have "stacks b2 = stacks b" using handle_result_ok(2) [OF b1(1,3) h] b1(2) by simp
    with pushed [OF admission_traced_in_hook(1) [OF v b a] b1(1) h] run True show ?thesis
      by (auto simp: executor_statement_start_def a h ledger_of_def stacks_def push_executor_admission_marker_def
          push_active_statement_def split: sum.splits option.splits)
  next
    case False
    then show ?thesis
      using run runs_start [OF s]
      by (auto simp: executor_statement_start_def ledger_of_def push_executor_admission_marker_def)
  qed
  show "runs_to i (ledger_of b) (ledger_of b')" if run: "utility_statement_start v stmt ro b = Some (q, b')"
  proof (cases "\<not> g_enabled (sv_gucs v) \<or> admission_is_bypassed b \<or> is_pg_wal_budget_create_extension stmt")
    case True
    then show ?thesis
      using run runs_start [OF s] by (auto simp: utility_statement_start_def ledger_of_def split: if_splits)
  next
    case False
    then obtain rs b1 where a: "lifecycle_admit_utility_statement v stmt ro b = Some (rs, b1)"
      using run by (auto simp: utility_statement_start_def)
    note adm = admit_in_hook_ok(2) [OF ok b depth a]
    obtain x b2 where h: "handle_admission_result v (rs, b1) = (x, b2)" by (meson surj_pair)
    have b1: "backend_ok b1" "stacks b1 = stacks b" "\<forall>a. rs = Inr (Some a) \<longrightarrow> active_ok a" using adm False by blast+
    have "stacks b2 = stacks b" using handle_result_ok(2) [OF b1(1,3) h] b1(2) by simp
    with pushed [OF admission_traced_in_hook(2) [OF v b a] b1(1) h] run False show ?thesis
      by (auto simp: utility_statement_start_def a h ledger_of_def stacks_def
          push_active_statement_def split: sum.splits option.splits)
  qed
qed

text \<open>The end of a statement settles it.\<close>

lemma settle_trace:
  assumes "segment_ok s"
  shows "settle_ops a how = [] \<Longrightarrow> bucket_trace s (settle_events i a how) s"
    and "settle_ops a how = [op] \<Longrightarrow> \<not> is_admission op
      \<Longrightarrow> bucket_trace s (settle_events i a how) (snd (budget_step op s))"
proof -
  show "settle_ops a how = [] \<Longrightarrow> bucket_trace s (settle_events i a how) s"
    using trace_quiet [OF assms assms] by (simp add: settle_events_def)
  show "settle_ops a how = [op] \<Longrightarrow> \<not> is_admission op
      \<Longrightarrow> bucket_trace s (settle_events i a how) (snd (budget_step op s))"
    using trace_single [OF assms] by (cases op) (simp_all add: settle_events_def)
qed

lemma reconcile_settles:
  assumes "segment_ok s"
  shows "bucket_trace s (settle_events i a (Measured w)) (snd (reconcile_budget (from_active a) w s))"
proof (cases "charged_policy_id (from_active a)")
  case None
  then show ?thesis using settle_trace(1) [OF assms] by (simp add: reconcile_budget_def)
next
  case (Some p)
  have hash: "cs_scope_hash (from_active a) = as_scope_hash a" by (simp add: from_active_def)
  show ?thesis
  proof (cases "budget_reconciliation (from_active a) w")
    case ReconcileNone
    then show ?thesis using settle_trace(1) [OF assms] by (simp add: reconcile_budget_def Some)
  next
    case (ReconcileRefund n)
    have "snd (reconcile_budget (from_active a) w s) = snd (budget_step (OpRefund p (as_scope_hash a) n) s)"
      using refund_result(2) [OF assms, of p "as_scope_hash a" n]
      by (cases "refund_budget_charge p (as_scope_hash a) n s")
        (simp add: reconcile_budget_def Some ReconcileRefund hash refund_charged_bytes_def)
    then show ?thesis
      using settle_trace(2) [OF assms, of a "Measured w" "OpRefund p (as_scope_hash a) n"]
      by (simp add: Some ReconcileRefund)
  next
    case (ReconcileDebt n)
    have "snd (reconcile_budget (from_active a) w s) = snd (budget_step (OpDebt p (as_scope_hash a) n) s)"
      using debt_result(2) [OF assms, of p "as_scope_hash a" n]
      by (cases "record_budget_debt p (as_scope_hash a) n s")
        (simp add: reconcile_budget_def Some ReconcileDebt hash record_underprediction_debt_def)
    then show ?thesis
      using settle_trace(2) [OF assms, of a "Measured w" "OpDebt p (as_scope_hash a) n"]
      by (simp add: Some ReconcileDebt)
  qed
qed

lemma result_runs:
  "segment_ok (snd rs) \<Longrightarrow> runs_to i (as, snd rs) (as, record_reconciliation_result rs)"
  by (intro runs_quiet result_effect)

lemma missing_runs:
  assumes "segment_ok s"
  shows "runs_to i (a # as, s) (as, record_missing_actual_wal s)"
proof -
  have "runs_to i (a # as, s) (as, s)"
    by (rule runs_settle [OF assms settle_trace(1) [OF assms, of a NotMeasured]]) simp
  also have "runs_to i (as, s) (as, record_missing_actual_wal s)"
    by (rule runs_quiet [OF assms missing_effect(1,2) [OF assms]])
  finally show ?thesis .
qed

lemma aborted_runs:
  assumes s: "segment_ok s"
  shows "runs_to i (a # as, s) (as, snd (record_aborted_statement a s))"
proof (cases "charged_policy_id (from_active a)")
  case None
  have "runs_to i (a # as, s) (as, s)"
    by (rule runs_settle [OF s settle_trace(1) [OF s, of a RolledBack]]) (simp add: None)
  then show ?thesis by (simp add: record_aborted_statement_def None)
next
  case (Some p)
  let ?op = "OpRefund p (as_scope_hash a) (ad_charged_bytes (as_decision a))"
  define t where "t = snd (budget_step ?op s)"
  have t: "segment_ok t" unfolding t_def by (rule budget_step_ok [OF s])
  have ref: "refund_charged_bytes p (cs_scope_hash (from_active a)) (cs_charged_bytes (from_active a)) s = (Inr (), t)"
    using refund_result(2) [OF s, of p "as_scope_hash a" "ad_charged_bytes (as_decision a)"]
    by (simp add: refund_charged_bytes_def from_active_def t_def prod_eq_iff)
  let ?count = "add_counters (counter_delta_default\<lparr>cd_aborted_after_charge_count := 1\<rparr>) t"
  have count: "segment_ok (snd ?count)" "segment_bucket (snd ?count) = segment_bucket t"
    by (rule counters_effect(1,2) [OF t])+
  have "runs_to i (a # as, s) (as, t)"
    unfolding t_def by (rule runs_settle [OF s settle_trace(2) [OF s, of a RolledBack]]) (simp_all add: Some)
  also have "runs_to i (as, t) (as, snd ?count)" by (rule runs_quiet [OF t count])
  also have "runs_to i (as, snd ?count) (as, record_reconciliation_result ?count)" by (rule result_runs [OF count(1)])
  finally show ?thesis by (simp add: record_aborted_statement_def Some Let_def ref)
qed

lemma completed_runs:
  assumes v: "server_within (moves (idle_event i)) v" and s: "segment_ok s"
  shows "runs_to i (a # as, s) (as, reconcile_completed_statement v a s)"
proof (cases "as_start_wal_bytes a = None \<or> sv_wal_bytes v = None")
  case True
  then show ?thesis by (simp add: completed_unmeasured missing_runs [OF s])
next
  case False
  then obtain x y where xy: "as_start_wal_bytes a = Some x" "sv_wal_bytes v = Some y" by auto
  define w where "w = wal_delta x y"
  let ?charge = "from_active a"
  define t where "t = record_reconciliation_result (record_decision_telemetry
      (completed_delta a w (if charged_policy_id ?charge \<noteq> None then exact_reconciliation_debt_bytes ?charge w else 0))
      (completed_recent_decision a w (sv_clock v)) s)"
  define u where "u = (case cs_query_id ?charge of None \<Rightarrow> t | Some q \<Rightarrow>
     record_reconciliation_result (record_query_observation v (cs_scope_hash ?charge) q w (sv_clock v) t))"
  have ok: "server_ok v" using v by (simp add: server_within_def)
  note tel = decision_telemetry_effect [OF s, of
      "completed_delta a w (if charged_policy_id ?charge \<noteq> None then exact_reconciliation_debt_bytes ?charge w else 0)"
      "completed_recent_decision a w (sv_clock v)"]
  have t: "segment_ok t" "segment_bucket t = segment_bucket s"
    using result_effect(1,2) tel telemetry_buckets [OF tel] by (simp_all add: t_def telemetry_def)
  have "moves (idle_event i) t u"
  proof (cases "cs_query_id ?charge")
    case (Some q)
    let ?r = "record_query_observation v (cs_scope_hash ?charge) q w (sv_clock v) t"
    have r: "segment_ok (snd ?r)" by (rule observing_ok(1) [OF ok t(1)])
    have "moves (idle_event i) t (snd ?r)" by (rule moved.observation_effect [OF v t(1)])
    moreover have "moves (idle_event i) (snd ?r) (record_reconciliation_result ?r)"
      by (rule moved.quiet [OF r result_effect(1,2) [OF r]])
    ultimately show ?thesis using moved.chain by (simp add: u_def Some)
  qed (simp add: u_def moved.refl [OF t(1)])
  then have "moves (idle_event i) s u" and u: "segment_ok u"
    using moved.chain [OF moved.quiet [OF s t]] trace_ok by (auto simp: moves_def)
  then have "runs_to i (a # as, s) (a # as, u)" by (intro runs_idle)
  also have "runs_to i (a # as, u) (as, snd (reconcile_budget ?charge w u))"
    by (rule runs_settle [OF u reconcile_settles [OF u]])
  also have "runs_to i (as, snd (reconcile_budget ?charge w u)) (as, reconcile_completed_statement v a s)"
  proof -
    have "reconcile_completed_statement v a s = (if charged_policy_id ?charge \<noteq> None
        then record_reconciliation_result (reconcile_budget ?charge w u) else u)"
      unfolding u_def t_def w_def reconcile_completed_statement_def Let_def by (simp add: xy)
    moreover have "snd (reconcile_budget ?charge w u) = u" if "charged_policy_id ?charge = None"
      using that by (simp add: reconcile_budget_def)
    ultimately show ?thesis
      using result_runs [OF reconcile_budget_effect(1) [OF u]] runs_start [OF u] by simp
  qed
  finally show ?thesis .
qed

lemma ends_run:
  assumes v: "server_within (moves (idle_event i)) v" and b: "backend_ok b"
  shows "runs_to i (ledger_of b) (ledger_of (executor_statement_complete v b))"
    and "runs_to i (ledger_of b) (ledger_of (utility_statement_complete v admitted b))"
proof -
  have s: "segment_ok (be_shmem b)" using b by (simp add: backend_ok_def)
  note top = completed_runs [OF v s] and same = runs_start [OF s]
  show "runs_to i (ledger_of b) (ledger_of (executor_statement_complete v b))"
    using top same
    by (cases "be_active b") (simp_all add: executor_complete_eq settle_top_def ledger_of_def split: list.split)
  show "runs_to i (ledger_of b) (ledger_of (utility_statement_complete v admitted b))"
    using top same by (cases "be_active b") (simp_all add: utility_complete_eq settle_top_def ledger_of_def)
qed

lemma end_statements_run:
  "segment_ok s \<Longrightarrow> runs_to i (as, s) ([], end_statements aborting as s)"
proof (induction as arbitrary: s)
  case (Cons a as)
  note ab = aborted_effect(1) [OF Cons.prems, of a] and mi = missing_effect(1) [OF Cons.prems]
  show ?case
    using runs_trans [OF aborted_runs [OF Cons.prems] Cons.IH [OF ab]]
      runs_trans [OF missing_runs [OF Cons.prems] Cons.IH [OF mi]] by (cases aborting) simp_all
qed (simp add: runs_start)

lemma transaction_runs:
  "backend_ok b \<Longrightarrow> runs_to i (ledger_of b) (ledger_of (transaction_ending event b))"
  using end_statements_run [of "be_shmem b"] runs_start [of "be_shmem b"]
  by (simp add: transaction_ending_def drain_active_statements_def ledger_of_def backend_ok_def)

section \<open>A backend among others\<close>

text \<open>
  The hooks of backend \<open>i\<close>. Between two of them, and while one of them waits or asks the
  catalog, the other backends may do anything they can do to the buckets.
\<close>

inductive shared_step :: "nat \<Rightarrow> backend \<Rightarrow> backend \<Rightarrow> bool" for i where
  shared_others: "backend_ok b' \<Longrightarrow> stacks b' = stacks b
      \<Longrightarrow> moves (foreign_event i) (be_shmem b) (be_shmem b') \<Longrightarrow> shared_step i b b'"
| shared_executor_start: "server_within (moves (foreign_event i)) v
      \<Longrightarrow> executor_statement_start v qd b = Some (r, b') \<Longrightarrow> shared_step i b b'"
| shared_executor_end: "server_within (moves (foreign_event i)) v
      \<Longrightarrow> shared_step i b (executor_statement_complete v b)"
| shared_utility_start: "server_within (moves (foreign_event i)) v
      \<Longrightarrow> utility_statement_start v stmt ro b = Some (r, b') \<Longrightarrow> shared_step i b b'"
| shared_utility_end: "server_within (moves (foreign_event i)) v
      \<Longrightarrow> shared_step i b (utility_statement_complete v admitted b)"
| shared_transaction_end: "shared_step i b (transaction_ending event b)"

lemma within_idle: "server_within (moves (foreign_event i)) v \<Longrightarrow> server_within (moves (idle_event i)) v"
  using foreign_idle unfolding server_within_def by blast

lemma shared_hook_step: "shared_step i b b' \<Longrightarrow> hook_step b b'"
  by (induction rule: shared_step.induct) (auto simp: server_within_def intro: hook_step.intros)

lemma shared_step_runs: "shared_step i b b' \<Longrightarrow> backend_ok b \<Longrightarrow> runs_to i (ledger_of b) (ledger_of b')"
proof (induction rule: shared_step.induct)
  case (shared_others b' b)
  then show ?case using runs_idle [OF foreign_idle] by (simp add: ledger_of_def stacks_def)
qed (blast intro: starts_run ends_run transaction_runs within_idle)+

lemma shared_run:
  "(shared_step i)\<^sup>*\<^sup>* b b' \<Longrightarrow> lifecycle_ok b \<Longrightarrow> lifecycle_ok b' \<and> runs_to i (ledger_of b) (ledger_of b')"
proof (induction rule: rtranclp_induct)
  case base
  then show ?case using runs_start by (simp add: lifecycle_ok_def backend_ok_def ledger_of_def)
next
  case (step y z)
  then have y: "lifecycle_ok y" "runs_to i (ledger_of b) (ledger_of y)" by blast+
  then have "backend_ok y" by (simp add: lifecycle_ok_def)
  then show ?case
    using shared_step_runs [OF step(2)] runs_trans [OF y(2)] lifecycle_step [OF shared_hook_step [OF step(2)] y(1)]
    by blast
qed


lemma idle_server_within: "server_within (moves P) idle_server"
  unfolding server_within_def
  by (simp add: idle_server_ok) (simp add: idle_server_def idle_store_def load_catalog_profiles_def
      persist_catalog_profiles_def load_profiles_from_def persist_profiles_with_def moved.refl)


end
