(* ===== verification/Pwb_Share.thy ===== *)
theory Pwb_Share
  imports Pwb_System
begin

text \<open>
  The rate limit of the whole system. Each run of the budget machine balances: what a backend
  charges a bucket is what its statements hold, keep or get back. Summed over all backends
  that agree on one trace, and paid from the credit of the bucket, this bounds the bytes that
  statements keep.
\<close>

section \<open>One backend balances\<close>

definition outstanding :: "bucket_key \<Rightarrow> active_statement_state list \<Rightarrow> nat" where
  "outstanding k as = (\<Sum>a\<leftarrow>as. held k a)"

text \<open>
  The part of its charge that a settled statement keeps, and the bytes it wrote beyond it. A
  statement without a measurement keeps its charge.
\<close>

fun kept :: "bucket_key \<Rightarrow> active_statement_state \<times> ending \<Rightarrow> nat" where
  "kept k (a, Measured written) = min (held k a) (unat written)"
| "kept k (a, NotMeasured) = held k a"
| "kept k (a, RolledBack) = 0"

fun overrun :: "bucket_key \<Rightarrow> active_statement_state \<times> ending \<Rightarrow> nat" where
  "overrun k (a, Measured written) = (if held k a = 0 then 0 else unat written - held k a)"
| "overrun k (a, _) = 0"

definition kept_by :: "bucket_key \<Rightarrow> (active_statement_state \<times> ending) list \<Rightarrow> nat" where
  "kept_by k ss = (\<Sum>x\<leftarrow>ss. kept k x)"

definition overrun_by :: "bucket_key \<Rightarrow> (active_statement_state \<times> ending) list \<Rightarrow> nat" where
  "overrun_by k ss = (\<Sum>x\<leftarrow>ss. overrun k x)"

fun debt_of :: "bucket_key \<Rightarrow> budget_op \<Rightarrow> nat" where
  "debt_of k (OpDebt p h bytes) = (if (p, h) = k then unat bytes else 0)"
| "debt_of k _ = 0"

definition charge_to :: "bucket_key \<Rightarrow> budget_event \<Rightarrow> nat" where
  "charge_to k e = (if op_key (ev_op e) = k then ev_charge e else 0)"

definition own_sum :: "nat \<Rightarrow> (budget_event \<Rightarrow> nat) \<Rightarrow> budget_event list \<Rightarrow> nat" where
  "own_sum i f es = (\<Sum>e\<leftarrow>es. if ev_backend e = i then f e else 0)"

definition foreign_sum :: "nat \<Rightarrow> (budget_event \<Rightarrow> nat) \<Rightarrow> budget_event list \<Rightarrow> nat" where
  "foreign_sum i f es = (\<Sum>e\<leftarrow>es. if ev_backend e = i then 0 else f e)"

lemma own_sum_append [simp]: "own_sum i f (es @ fs) = own_sum i f es + own_sum i f fs"
  by (simp add: own_sum_def)

lemma own_sum_zero: "list_all P es \<Longrightarrow> (\<And>e. P e \<Longrightarrow> ev_backend e = i \<Longrightarrow> f e = 0) \<Longrightarrow> own_sum i f es = 0"
  by (induction es) (auto simp: own_sum_def)

lemma admission_sums: "is_admission op \<Longrightarrow> refund_of k op = 0 \<and> debt_of k op = 0"
  by (cases op) simp_all

lemma idle_sums:
  assumes "list_all (idle_event i) es"
  shows "own_sum i (charge_to k) es = 0" and "own_sum i (\<lambda>e. refund_of k (ev_op e)) es = 0"
    and "own_sum i (\<lambda>e. debt_of k (ev_op e)) es = 0"
  using assms
  by (auto intro!: own_sum_zero [where P = "idle_event i"] simp: idle_event_def charge_to_def admission_sums)

lemma opened_sums:
  assumes "opened_by i a es"
  shows "own_sum i (charge_to k) es = held k a" and "own_sum i (\<lambda>e. refund_of k (ev_op e)) es = 0"
    and "own_sum i (\<lambda>e. debt_of k (ev_op e)) es = 0"
proof -
  consider "es = []" "held k a = 0" | e where "es = [e]" "pays_for i a e"
    using assms by (cases k) (auto simp: opened_by_def)
  then have "own_sum i (charge_to k) es = held k a \<and> own_sum i (\<lambda>e. refund_of k (ev_op e)) es = 0
    \<and> own_sum i (\<lambda>e. debt_of k (ev_op e)) es = 0"
  proof cases
    case (2 e)
    then have "ev_backend e = i" "is_admission (ev_op e)" "held k a = charge_to k e"
      unfolding pays_for_def charge_to_def by blast+
    then show ?thesis by (simp add: own_sum_def 2(1) admission_sums)
  qed (simp add: own_sum_def)
  then show "own_sum i (charge_to k) es = held k a" "own_sum i (\<lambda>e. refund_of k (ev_op e)) es = 0"
    "own_sum i (\<lambda>e. debt_of k (ev_op e)) es = 0" by simp_all
qed

lemma unat_sub_less: "(a :: u64) < b \<Longrightarrow> unat (b - a) = unat b - unat a \<and> unat a < unat b \<and> \<not> b < a"
  by (auto simp: unat_sub word_less_nat_alt word_le_nat_alt)

lemma settle_sums:
  "own_sum i (charge_to k) (settle_events i a how) = 0"
  "own_sum i (\<lambda>e. refund_of k (ev_op e)) (settle_events i a how) + kept k (a, how) = held k a"
  "own_sum i (\<lambda>e. debt_of k (ev_op e)) (settle_events i a how) = overrun k (a, how)"
proof -
  have fields: "cs_charged_bytes (from_active a) = ad_charged_bytes (as_decision a)" by (simp add: from_active_def)
  have pos: "charged_policy_id (from_active a) = Some p \<Longrightarrow> 0 < unat (ad_charged_bytes (as_decision a))" for p
    by (auto simp: charged_policy_id_def from_active_def unat_gt_0 split: if_splits)
  have sums: "own_sum i f (settle_events i a how)
      = (\<Sum>op\<leftarrow>settle_ops a how. f \<lparr>ev_backend = i, ev_op = op, ev_charge = 0\<rparr>)" for f how
    by (simp add: own_sum_def settle_events_def comp_def)
  show "own_sum i (charge_to k) (settle_events i a how) = 0"
    by (rule own_sum_zero [where P = "\<lambda>e. ev_charge e = 0"])
      (simp_all add: settle_events_def list_all_iff charge_to_def)
  have "own_sum i (\<lambda>e. refund_of k (ev_op e)) (settle_events i a how) + kept k (a, how) = held k a
    \<and> own_sum i (\<lambda>e. debt_of k (ev_op e)) (settle_events i a how) = overrun k (a, how)"
  proof (cases "charged_policy_id (from_active a)")
    case None
    then show ?thesis by (cases how) (simp_all add: sums held_def)
  next
    case (Some p)
    let ?c = "ad_charged_bytes (as_decision a)"
    have held: "held k a = (if (p, as_scope_hash a) = k then unat ?c else 0)" by (simp add: held_def Some)
    show ?thesis
    proof (cases how)
      case (Measured w)
      consider "w < ?c" "unat (?c - w) = unat ?c - unat w" "unat w < unat ?c"
        | "?c < w" "unat (w - ?c) = unat w - unat ?c" "unat ?c < unat w" "\<not> w < ?c" | "w = ?c"
        using unat_sub_less [of w ?c] unat_sub_less [of ?c w] by (metis linorder_less_linear)
      then show ?thesis
        by cases (use pos [OF Some] in
          \<open>simp_all add: Measured sums held Some budget_reconciliation_def fields\<close>)
    qed (simp_all add: sums held Some)
  qed
  then show "own_sum i (\<lambda>e. refund_of k (ev_op e)) (settle_events i a how) + kept k (a, how) = held k a"
    "own_sum i (\<lambda>e. debt_of k (ev_op e)) (settle_events i a how) = overrun k (a, how)" by simp_all
qed

lemma machine_balance:
  "budget_machine i x es ss y \<Longrightarrow>
     own_sum i (charge_to k) es + outstanding k (fst x)
       = own_sum i (\<lambda>e. refund_of k (ev_op e)) es + outstanding k (fst y) + kept_by k ss
   \<and> own_sum i (\<lambda>e. debt_of k (ev_op e)) es = overrun_by k ss"
proof (induction rule: budget_machine.induct)
  case (machine_settle x es ss a as s how s')
  then show ?case
    using settle_sums [where i = i and k = k and a = a and how = how]
    by (simp add: outstanding_def kept_by_def overrun_by_def)
qed (simp_all add: idle_sums opened_sums outstanding_def, simp_all add: own_sum_def kept_by_def overrun_by_def)

section \<open>All backends together\<close>

lemma own_sum_total:
  assumes "finite I" and "list_all (\<lambda>e. ev_backend e \<in> I) es"
  shows "(\<Sum>i\<in>I. own_sum i f es) = (\<Sum>e\<leftarrow>es. f e)"
  using assms(2)
proof (induction es)
  case (Cons e es)
  have "(\<Sum>i\<in>I. if ev_backend e = i then f e else 0) = f e" using assms(1) Cons.prems by simp
  with Cons show ?case by (simp add: own_sum_def sum.distrib)
qed (simp add: own_sum_def)

text \<open>The charges of a trace are paid from the credit of the bucket and from refunds.\<close>

lemma trace_pays:
  "bucket_trace s es s' \<Longrightarrow> list_all (\<lambda>e. op_within k rate burst t0 t (ev_op e)) es \<Longrightarrow>
     1000 * (\<Sum>e\<leftarrow>es. charge_to k e) + store_credit rate burst t0 t (segment_bucket s' k)
       \<le> store_credit rate burst t0 t (segment_bucket s k) + 1000 * (\<Sum>e\<leftarrow>es. refund_of k (ev_op e))"
proof (induction rule: bucket_trace.induct)
  case (trace_event s u e v es s')
  have "pays k rate burst t0 t (ev_op e) u (budget_step (ev_op e) u)"
    using trace_event.prems by (intro step_pays trace_event.hyps(2)) simp
  with trace_event show ?case by (simp add: pays_def charge_to_def split: if_splits)
qed simp

lemma machine_trace: "budget_machine i x es ss y \<Longrightarrow> bucket_trace (snd x) es (snd y)"
  by (induction rule: budget_machine.induct) (auto intro: trace_quiet trace_append)

lemma system_pays:
  assumes "finite I" and "I \<noteq> {}"
    and run: "\<And>i. i \<in> I \<Longrightarrow> budget_machine i (as i, s) es (ss i) (as' i, s')"
    and "list_all (\<lambda>e. ev_backend e \<in> I) es"
    and "list_all (\<lambda>e. op_within k rate burst t0 t (ev_op e)) es"
  shows "1000 * (\<Sum>i\<in>I. kept_by k (ss i) + outstanding k (as' i)) + store_credit rate burst t0 t (segment_bucket s' k)
      \<le> store_credit rate burst t0 t (segment_bucket s k) + 1000 * (\<Sum>i\<in>I. outstanding k (as i))"
    and "(\<Sum>e\<leftarrow>es. debt_of k (ev_op e)) = (\<Sum>i\<in>I. overrun_by k (ss i))"
proof -
  note total = own_sum_total [OF assms(1,4)]
  obtain j where "j \<in> I" using assms(2) by blast
  then have trace: "bucket_trace s es s'" using machine_trace [OF run, of j] by simp
  have "(\<Sum>i\<in>I. own_sum i (charge_to k) es + outstanding k (as i))
      = (\<Sum>i\<in>I. own_sum i (\<lambda>e. refund_of k (ev_op e)) es + outstanding k (as' i) + kept_by k (ss i))"
    using machine_balance [OF run] by (intro sum.cong) auto
  then have "(\<Sum>e\<leftarrow>es. charge_to k e) + (\<Sum>i\<in>I. outstanding k (as i))
      = (\<Sum>e\<leftarrow>es. refund_of k (ev_op e)) + (\<Sum>i\<in>I. kept_by k (ss i) + outstanding k (as' i))"
    by (simp add: sum.distrib total)
  with trace_pays [OF trace assms(5)]
  show "1000 * (\<Sum>i\<in>I. kept_by k (ss i) + outstanding k (as' i)) + store_credit rate burst t0 t (segment_bucket s' k)
      \<le> store_credit rate burst t0 t (segment_bucket s k) + 1000 * (\<Sum>i\<in>I. outstanding k (as i))"
    by linarith
  have "(\<Sum>i\<in>I. own_sum i (\<lambda>e. debt_of k (ev_op e)) es) = (\<Sum>i\<in>I. overrun_by k (ss i))"
    using machine_balance [OF run] by (intro sum.cong) auto
  then show "(\<Sum>e\<leftarrow>es. debt_of k (ev_op e)) = (\<Sum>i\<in>I. overrun_by k (ss i))" by (simp add: total)
qed


text \<open>
  The same seen from one backend: its hooks have an account in which what its statements keep
  and hold is paid from the credit of the bucket and from what the others gave back beyond
  their own charges.
\<close>

lemma hooks_rate_limit:
  assumes "(shared_step i)\<^sup>*\<^sup>* b b'" and "lifecycle_ok b"
  shows "\<exists>es ss. budget_machine i (ledger_of b) es ss (ledger_of b')
    \<and> (\<forall>k rate burst t0 t. list_all (\<lambda>e. op_within k rate burst t0 t (ev_op e)) es \<longrightarrow>
        1000 * (kept_by k ss + outstanding k (be_active b')) + 1000 * foreign_sum i (charge_to k) es
          \<le> store_credit rate burst t0 t (segment_bucket (be_shmem b) k) + 1000 * outstanding k (be_active b)
            + 1000 * foreign_sum i (\<lambda>e. refund_of k (ev_op e)) es)"
proof -
  obtain es ss where run: "budget_machine i (ledger_of b) es ss (ledger_of b')"
    using shared_run [OF assms] by (auto simp: runs_to_def)
  have split: "(\<Sum>e\<leftarrow>es. f e) = own_sum i f es + foreign_sum i f es" for f
    by (induction es) (simp_all add: own_sum_def foreign_sum_def)
  have "1000 * (kept_by k ss + outstanding k (be_active b')) + 1000 * foreign_sum i (charge_to k) es
      \<le> store_credit rate burst t0 t (segment_bucket (be_shmem b) k) + 1000 * outstanding k (be_active b)
        + 1000 * foreign_sum i (\<lambda>e. refund_of k (ev_op e)) es"
    if "list_all (\<lambda>e. op_within k rate burst t0 t (ev_op e)) es" for k rate burst t0 t
    using trace_pays [OF machine_trace [OF run] that] machine_balance [OF run, of k]
    by (simp add: split ledger_of_def)
  with run show ?thesis by blast
qed

text \<open>A statement of one backend, charged 4000 bytes, that wrote 3000.\<close>

definition sample_active :: "admission_decision \<Rightarrow> active_statement_state" where
  "sample_active d = active_statement_from_context (sample_context 4000) d"

definition sample_events :: "budget_event list" where
  "sample_events =
     [\<lparr>ev_backend = 3, ev_op = OpReject (sample_context 4000) (sample_policy Reject) 10, ev_charge = 4000\<rparr>,
      \<lparr>ev_backend = 3, ev_op = OpRefund 7 99 1000, ev_charge = 0\<rparr>]"

lemma sample_machine:
  "\<exists>d s'. budget_machine 3 ([], started_shmem) sample_events [(sample_active d, Measured 3000)] ([], s')
     \<and> held (7, 99) (sample_active d) = 4000"
proof -
  let ?op = "OpReject (sample_context 4000) (sample_policy Reject) 10"
  obtain d where d: "admit_reject_statement (sample_context 4000) (sample_policy Reject) 10 started_shmem = (Inr d, used_shmem)"
    using used_shmem_reject(1) by blast
  have p: "ac_predicted_wal_bytes (sample_context 4000) = 4000" "sk_value_hash (ac_scope (sample_context 4000)) = 99"
    "ep_policy_id (sample_policy Reject) = 7"
    by (simp_all add: sample_context_def sample_policy_def)
  note dec = reject_admitted(2) [OF started_shmem_ok(1) d, unfolded p]
  have charge: "charged_by (Inr d) = 4000" by (simp add: dec charged_by_def charged_decision_fields)
  have held: "held k (sample_active d) = (if (7, 99) = k then 4000 else 0)" for k
    unfolding sample_active_def held_active charge p by (simp add: dec charged_decision_fields p)
  have charged: "charged_policy_id (from_active (sample_active d)) = Some 7"
    "ad_charged_bytes (as_decision (sample_active d)) = 4000" "as_scope_hash (sample_active d) = 99"
    using charged_active(1) [of "sample_context 4000" "sample_policy Reject"]
    by (simp_all add: sample_active_def dec p active_statement_from_context_def charged_decision_fields
        from_active_def charged_policy_id_def)
  have "cs_charged_bytes (from_active (sample_active d)) = 4000" using charged(2) by (simp add: from_active_def)
  then have settle: "settle_ops (sample_active d) (Measured 3000) = [OpRefund 7 99 1000]"
    by (simp add: charged budget_reconciliation_def)
  let ?e = "\<lparr>ev_backend = 3, ev_op = ?op, ev_charge = 4000\<rparr>"
  have "budget_step ?op started_shmem = (4000, used_shmem)" by (simp add: d charge)
  then have "bucket_trace started_shmem [?e] used_shmem" by (rule trace_single [OF started_shmem_ok(1)])
  moreover have "opened_by 3 (sample_active d) [?e]" by (simp add: opened_by_def pays_for_def held sample_key)
  ultimately have "budget_machine 3 ([], started_shmem) [?e] [] ([sample_active d], used_shmem)"
    using machine_open [OF machine_start [OF started_shmem_ok(1)]] by fastforce
  from machine_settle [OF this settle_trace(2) [OF used_shmem_reject(2) settle]]
  have "budget_machine 3 ([], started_shmem) sample_events [(sample_active d, Measured 3000)]
      ([], snd (budget_step (OpRefund 7 99 1000) used_shmem))"
    unfolding settle_events_def settle by (simp add: sample_events_def)
  with held show ?thesis by auto
qed


section \<open>Debts\<close>

text \<open>
  A debt never limits anything: whatever the debt of a bucket, every admission decides the same
  and leaves the same bucket but for the debt, and a refill or a refund pays nothing of it.
\<close>

lemma debt_never_limits:
  "fst (admit_reject_with_bucket p policy now (b\<lparr>bb_debt_bytes := x\<rparr>)) = fst (admit_reject_with_bucket p policy now b)"
  "fst (attempt_queue_charge_result p policy now (b\<lparr>bb_debt_bytes := x\<rparr>)) = fst (attempt_queue_charge_result p policy now b)"
  "fst (admit_shadow_with_bucket p policy now (b\<lparr>bb_debt_bytes := x\<rparr>)) = fst (admit_shadow_with_bucket p policy now b)"
  "refreshed policy now (b\<lparr>bb_debt_bytes := x\<rparr>) = (refreshed policy now b)\<lparr>bb_debt_bytes := x\<rparr>"
  "bb_debt_bytes (snd (admit_reject_with_bucket p policy now b)) = bb_debt_bytes b"
  "bb_debt_bytes (snd (attempt_queue_charge_result p policy now b)) = bb_debt_bytes b"
  "bb_debt_bytes (snd (refund_bucket bytes b)) = bb_debt_bytes b"
proof -
  show fresh: "refreshed policy now (b\<lparr>bb_debt_bytes := x\<rparr>) = (refreshed policy now b)\<lparr>bb_debt_bytes := x\<rparr>"
    by (simp add: refreshed_def refresh_bucket_def refresh_bucket_policy_def Let_def)
  have avail: "available_at policy now (b\<lparr>bb_debt_bytes := x\<rparr>) = available_at policy now b" by (simp add: available_at_def)
  show "fst (admit_reject_with_bucket p policy now (b\<lparr>bb_debt_bytes := x\<rparr>)) = fst (admit_reject_with_bucket p policy now b)"
    "fst (attempt_queue_charge_result p policy now (b\<lparr>bb_debt_bytes := x\<rparr>)) = fst (attempt_queue_charge_result p policy now b)"
    "fst (admit_shadow_with_bucket p policy now (b\<lparr>bb_debt_bytes := x\<rparr>)) = fst (admit_shadow_with_bucket p policy now b)"
    by (simp_all add: reject_callback queue_callback shadow_callback fresh avail charged_decision_def split: sum.split)
  show "bb_debt_bytes (snd (admit_reject_with_bucket p policy now b)) = bb_debt_bytes b"
    "bb_debt_bytes (snd (attempt_queue_charge_result p policy now b)) = bb_debt_bytes b"
    "bb_debt_bytes (snd (refund_bucket bytes b)) = bb_debt_bytes b"
    by (simp_all add: reject_callback queue_callback refund_bucket_def refreshed_fields charged_bucket_fields split: sum.split)
qed

end
