(* ===== verification/Pwb_Stats.thy ===== *)
theory Pwb_Stats
  imports Pwb_Lifecycle
begin

text \<open>
  The SQL functions over the shared statistics, \<^verbatim>\<open>src/stats.rs\<close>: five views that copy one
  array each and turn its numbers into SQL values, and three maintenance functions behind the
  admin gate. An SQL \<open>bigint\<close> is signed, so the unsigned numbers saturate. The lemmas show
  that the views of a well formed segment never raise and show exactly its contents, what
  each reset forgets and keeps, and which numbers the saturation cannot tell apart.
\<close>

section \<open>Rows\<close>

definition u64_to_i64_saturating :: "u64 \<Rightarrow> i64" where
  "u64_to_i64_saturating value_u64 = (if 0x7FFFFFFFFFFFFFFF < value_u64 then 0x7FFFFFFFFFFFFFFF else value_u64)"

definition wal_bytes_to_i64_saturating :: "wal_bytes \<Rightarrow> i64" where
  "wal_bytes_to_i64_saturating value_bytes = u64_to_i64_saturating value_bytes"

type_synonym counters_columns = "i64 \<times> i64 \<times> i64 \<times> i64 \<times> i64 \<times> i64 \<times> i64 \<times> i64 \<times> i64 \<times> i64 \<times> i64"
type_synonym scope_stats_columns = "i32 \<times> i64 \<times> i64 \<times> i64 \<times> i64 \<times> i64 \<times> i64"
type_synonym query_profile_columns = "i64 option \<times> i64 \<times> i64 \<times> i64 \<times> i64 \<times> i64 \<times> bool"
type_synonym recent_decision_columns =
  "i64 \<times> string \<times> i32 option \<times> string \<times> i64 \<times> i64 option \<times> string \<times> i64 \<times> i64 option \<times> i64 \<times> i64 \<times> string"
type_synonym scope_name_columns = "string \<times> i64 \<times> string \<times> i64 \<times> i64 \<times> i64"

definition counters_row :: "pwb_counters \<Rightarrow> counters_columns" where
  "counters_row c =
     (u64_to_i64_saturating (pc_accepted_statements c),
      u64_to_i64_saturating (pc_rejected_statements c),
      u64_to_i64_saturating (pc_shadow_would_reject_count c),
      u64_to_i64_saturating (pc_predicted_wal_bytes c),
      u64_to_i64_saturating (pc_actual_wal_bytes c),
      u64_to_i64_saturating (pc_absolute_prediction_error c),
      u64_to_i64_saturating (pc_scope_debt_bytes c),
      u64_to_i64_saturating (pc_missing_actual_wal_count c),
      u64_to_i64_saturating (pc_internal_fail_open_count c),
      u64_to_i64_saturating (pc_aborted_after_charge_count c),
      u64_to_i64_saturating (pc_scope_name_drop_count c))"

definition scope_stats_row :: "budget_bucket_snapshot \<Rightarrow> scope_stats_columns" where
  "scope_stats_row b =
     (bs_policy_id b,
      u64_to_i64_saturating (bs_scope_hash b),
      wal_bytes_to_i64_saturating (bs_available_bytes b),
      wal_bytes_to_i64_saturating (bs_max_burst_bytes b),
      wal_bytes_to_i64_saturating (bs_rate_bytes_per_sec b),
      wal_bytes_to_i64_saturating (bs_debt_bytes b),
      u64_to_i64_saturating (bs_last_refill_epoch_ms b))"

definition query_profile_row :: "query_profile_snapshot \<Rightarrow> query_profile_columns" where
  "query_profile_row s =
     (map_option u64_to_i64_saturating (qs_scope_hash s),
      u64_to_i64_saturating (qs_query_id s),
      u64_to_i64_saturating (qp_calls (qs_profile s)),
      wal_bytes_to_i64_saturating (qp_ewma_wal_bytes (qs_profile s)),
      wal_bytes_to_i64_saturating (qp_max_wal_bytes (qs_profile s)),
      u64_to_i64_saturating (qp_last_seen_epoch_ms (qs_profile s)),
      qs_scope_hash s = None)"

definition recent_decision_row :: "recent_decision_record \<Rightarrow> recent_decision_columns" where
  "recent_decision_row r =
     (u64_to_i64_saturating (rr_timestamp_epoch_ms r),
      decision_kind_as_sql_str (rr_decision_kind r),
      recent_decision_record.rr_policy_id r,
      scope_kind_as_sql_str (recent_decision_record.rr_scope_kind r),
      u64_to_i64_saturating (rr_scope_hash r),
      map_option u64_to_i64_saturating (rr_query_id r),
      statement_class_as_sql_str (rr_statement_class r),
      wal_bytes_to_i64_saturating (rr_predicted_wal_bytes r),
      map_option wal_bytes_to_i64_saturating (rr_actual_wal_bytes r),
      wal_bytes_to_i64_saturating (rr_available_before r),
      wal_bytes_to_i64_saturating (rr_available_after r),
      reason_code_as_sql_str (rr_reason_code r))"

definition scope_name_row :: "scope_name_snapshot \<Rightarrow> scope_name_columns" where
  "scope_name_row s =
     (scope_kind_as_sql_str (sv_scope_kind s),
      u64_to_i64_saturating (sv_scope_hash s),
      sv_scope_value s,
      u64_to_i64_saturating (sv_first_seen_epoch_ms s),
      u64_to_i64_saturating (sv_last_seen_epoch_ms s),
      u64_to_i64_saturating (sv_seen_count s))"

section \<open>Views\<close>

definition rows_or_raise :: "('a \<Rightarrow> 'b) \<Rightarrow> 'a list pwb_result \<Rightarrow> 'b list raised" where
  "rows_or_raise row r = (case r of Inl e \<Rightarrow> Inl (raised_report e) | Inr xs \<Rightarrow> Inr (map row xs))"

definition pwb_counters_view :: "shmem \<Rightarrow> counters_columns list raised" where
  "pwb_counters_view s = rows_or_raise counters_row (rbind (snapshot_counters s) (\<lambda>c. Inr [c]))"

definition pwb_scope_stats :: "shmem \<Rightarrow> scope_stats_columns list raised" where
  "pwb_scope_stats s = rows_or_raise scope_stats_row (snapshot_budget_buckets s)"

definition pwb_query_profiles :: "shmem \<Rightarrow> query_profile_columns list raised" where
  "pwb_query_profiles s = rows_or_raise query_profile_row (snapshot_query_profiles s)"

text \<open>A nonnegative \<open>i32\<close> always fits a \<open>usize\<close>.\<close>

definition limit_to_usize :: "i32 \<Rightarrow> nat" where
  "limit_to_usize limit = nat (max (sint limit) 0)"

definition pwb_recent_decisions :: "i32 \<Rightarrow> shmem \<Rightarrow> recent_decision_columns list raised" where
  "pwb_recent_decisions limit s =
     rows_or_raise recent_decision_row (snapshot_recent_decisions (limit_to_usize limit) s)"

definition pwb_scope_names :: "shmem \<Rightarrow> scope_name_columns list raised" where
  "pwb_scope_names s = rows_or_raise scope_name_row (snapshot_scope_names s)"

section \<open>Maintenance\<close>

definition reset_stats_impl :: "shmem \<Rightarrow> unit pwb_result \<times> shmem" where
  "reset_stats_impl = reset_stats"

definition reset_profiles_impl :: "server \<Rightarrow> shmem \<Rightarrow> unit pwb_result \<times> shmem" where
  "reset_profiles_impl v s = sbind (delete_profiles_with (sv_store v) s) (\<lambda>_ s. reset_profiles s)"

definition flush_profiles_impl :: "server \<Rightarrow> shmem \<Rightarrow> unit pwb_result \<times> shmem" where
  "flush_profiles_impl = flush_profiles"

definition pwb_reset_stats :: "invoking_user \<Rightarrow> shmem \<Rightarrow> unit raised \<times> shmem" where
  "pwb_reset_stats user = gated user Admin ''reset pg_wal_budget stats'' reset_stats_impl"

definition pwb_reset_profiles :: "invoking_user \<Rightarrow> server \<Rightarrow> shmem \<Rightarrow> unit raised \<times> shmem" where
  "pwb_reset_profiles user v = gated user Admin ''reset pg_wal_budget query profiles'' (reset_profiles_impl v)"

definition pwb_flush_profiles :: "invoking_user \<Rightarrow> server \<Rightarrow> shmem \<Rightarrow> unit raised \<times> shmem" where
  "pwb_flush_profiles user v = gated user Admin ''flush pg_wal_budget query profiles'' (flush_profiles_impl v)"

section \<open>SQL numbers\<close>

lemma sint_small:
  assumes "unat v < 2 ^ 63"
  shows "sint (v :: i64) = int (unat v)"
proof -
  have "uint v < 2 ^ 63" using assms by (metis of_nat_less_iff of_nat_numeral of_nat_power uint_nat)
  moreover have "- (2 ^ 63) \<le> uint v" by (rule order_trans [OF _ uint_ge_0]) simp
  ultimately have "sint v = uint v" unfolding sint_uint
    using signed_take_bit_int_eq_self [of 63 "uint v"] by simp
  then show ?thesis by simp
qed

lemma sint_saturating: "sint (u64_to_i64_saturating v) = int (min (unat v) (2 ^ 63 - 1))"
proof -
  have "unat (u64_to_i64_saturating v) = min (unat v) (2 ^ 63 - 1)"
    by (simp add: u64_to_i64_saturating_def word_less_nat_alt min_def)
  then show ?thesis by (subst sint_small) simp_all
qed

lemma saturating_eq_iff:
  "u64_to_i64_saturating a = u64_to_i64_saturating b \<longleftrightarrow> a = b \<or> 2 ^ 63 - 1 \<le> unat a \<and> 2 ^ 63 - 1 \<le> unat b"
  by (auto simp: u64_to_i64_saturating_def word_less_nat_alt word_unat_eq_iff)

lemma limit_to_usize_small: "limit_to_usize limit < 2 ^ 31"
  using sint_less [of limit] by (simp add: limit_to_usize_def)

section \<open>What the views show\<close>

text \<open>The buckets that are occupied, as the view copies them.\<close>

definition bucket_states :: "shmem \<Rightarrow> budget_bucket_state list" where
  "bucket_states s = map budget_bucket_state_of (filter bucket_occ (sm_budget_buckets (sh_mem s)))"

lemma filter_prefix:
  assumes "n \<le> length xs" and "\<And>i. i < length xs \<Longrightarrow> P (xs ! i) \<longleftrightarrow> i < n"
  shows "filter P (take n xs) = take n xs" and "filter P xs = take n xs"
proof -
  show 1: "filter P (take n xs) = take n xs"
    using assms by (auto simp: filter_id_conv in_set_conv_nth)
  have "filter P (drop n xs) = []"
    using assms by (auto simp: filter_empty_conv in_set_conv_nth)
  then show "filter P xs = take n xs"
    using 1 filter_append [of P "take n xs" "drop n xs"] by simp
qed

lemma bucket_snapshot_eq:
  assumes "segment_ok s"
  shows "snapshot_budget_buckets s = Inr (map budget_bucket_snapshot_of (bucket_states s))"
proof -
  let ?st = "sm_state (sh_mem s)" and ?bs = "sm_budget_buckets (sh_mem s)"
  let ?n = "unat (ss_budget_buckets_len ?st)"
  have wf: "buckets_wf (?st, ?bs)" using segment_mem_wf [OF assms] by (simp add: mem_wf_def)
  then have n: "?n \<le> length ?bs" "\<And>i. i < length ?bs \<Longrightarrow> bucket_occ (?bs ! i) \<longleftrightarrow> i < ?n"
    by (simp_all add: buckets_wf_def)
  have occ: "filter (\<lambda>b. pb_occupied b = 1) (take (min ?n (length ?bs)) ?bs) = filter bucket_occ ?bs"
    using filter_prefix [of ?n ?bs bucket_occ, OF n] n(1) by (simp add: bucket_occ_def [abs_def] min_absorb1)
  have "rtraverse (\<lambda>b. rbind (budget_bucket_decode b) (\<lambda>d. Inr (budget_bucket_snapshot_of d))) (filter bucket_occ ?bs)
      = Inr (map (\<lambda>b. budget_bucket_snapshot_of (budget_bucket_state_of b)) (filter bucket_occ ?bs))"
    by (rule rtraverse_map_Inr) (simp add: budget_bucket_decode_def bucket_occ_def)
  with occ show ?thesis
    using segment_guard [OF assms]
    by (simp add: snapshot_budget_buckets_def with_locked_bucket_state_def with_locked_mem_def
        snapshot_budget_buckets_from_slice_def bucket_states_def o_def)
qed

lemma bucket_states_map:
  assumes "segment_ok s"
  shows "segment_bucket s k = Some b \<longleftrightarrow> b \<in> set (bucket_states s) \<and> state_key b = k"
    and "distinct (map state_key (bucket_states s))"
proof -
  let ?bs = "sm_budget_buckets (sh_mem s)"
  have keys: "keys_distinct bucket_occ bucket_key ?bs"
    using segment_mem_wf [OF assms] by (simp add: mem_wf_def buckets_wf_def)
  show "segment_bucket s k = Some b \<longleftrightarrow> b \<in> set (bucket_states s) \<and> state_key b = k"
    by (auto simp: segment_bucket_def bucket_at_def bucket_slots.lookup_in_set [OF keys] bucket_states_def)
  have "distinct (map bucket_key (filter bucket_occ ?bs))"
    by (rule distinct_map_filter) (use keys in \<open>auto simp: keys_distinct_def\<close>)
  then show "distinct (map state_key (bucket_states s))"
    by (simp add: bucket_states_def o_def)
qed

text \<open>The history of decisions a well formed segment holds, newest first.\<close>

lemma recent_snapshot_eq:
  assumes "segment_ok s" and "ring_repr (sm_state (sh_mem s), sm_recent_decisions (sh_mem s)) hist"
  shows "snapshot_recent_decisions limit s
    = Inr (take (min limit (length (sm_recent_decisions (sh_mem s)))) hist)"
  using snapshot_repr [OF assms(2), of limit] segment_guard [OF assms(1)]
  by (simp add: snapshot_recent_decisions_def with_locked_recent_def with_locked_mem_def)

lemma profile_snapshot_eq:
  assumes "segment_ok s"
  shows "snapshot_query_profiles s = Inr (cache_snapshot (sm_profiles (sh_mem s)))"
  using snapshot_slice_eq [OF segment_profiles_wf [OF assms]] segment_guard [OF assms]
  by (simp add: snapshot_query_profiles_def with_locked_profiles_def with_locked_mem_def)

lemma counters_snapshot_eq: "segment_ok s \<Longrightarrow> snapshot_counters s = Inr (ss_counters (sm_state (sh_mem s)))"
  using segment_guard [of s] by (simp add: snapshot_counters_def with_locked_mem_def)

lemma name_decode_key:
  "scope_name_decode e = Inr n \<Longrightarrow> name_occ e \<and> name_key e = (encode_scope_kind (sv_scope_kind n), sv_scope_hash n)"
  by (auto simp: scope_name_decode_def name_occ_def name_key_def Let_def rbind_Inr_iff scope_codec.enc_dec
      split: if_splits)

lemma names_snapshot_eq:
  assumes s: "segment_ok s"
  shows "\<exists>ns. snapshot_scope_names s = Inr ns
    \<and> (\<forall>n. n \<in> set ns \<longleftrightarrow> name_at (sm_scope_names (sh_mem s)) (sv_scope_kind n, sv_scope_hash n) = Some n)"
proof -
  let ?t = "sm_scope_names (sh_mem s)"
  have wf: "names_wf ?t" using segment_mem_wf [OF s] by (simp add: mem_wf_def)
  then have keys: "keys_distinct name_occ name_key ?t" by (simp add: names_wf_def)
  obtain ns where ns: "snapshot_scope_names_from_slice ?t = Inr ns"
    using snapshot_scope_names_ok [OF wf] by blast
  have ok: "scope_name_decode e = Inr (the (name_of e))" if "e \<in> set ?t" "name_occ e" for e
    using wf that by (auto simp: names_wf_def name_occ_def name_of_def is_ok_def split: sum.splits)
  have "rtraverse scope_name_decode (filter name_occ ?t) = Inr (map (the \<circ> name_of) (filter name_occ ?t))"
    by (rule rtraverse_map_Inr) (simp add: ok)
  then have "ns = map (the \<circ> name_of) (filter name_occ ?t)"
    using ns by (simp add: snapshot_scope_names_from_slice_def name_occ_def [abs_def])
  moreover have "name_of e = Some (the (name_of e))" if "e \<in> set ?t" "name_occ e" for e
    using ok [OF that] by (cases "scope_name_decode e") (simp_all add: name_of_def)
  ultimately have set: "n \<in> set ns \<longleftrightarrow> (\<exists>e \<in> set ?t. name_occ e \<and> name_of e = Some n)" for n
    by (force simp: image_iff)
  have "n \<in> set ns \<longleftrightarrow> name_at ?t (sv_scope_kind n, sv_scope_hash n) = Some n" for n
  proof -
    have key: "name_key e = (encode_scope_kind (sv_scope_kind n), sv_scope_hash n)" if "name_of e = Some n" for e
      using that name_decode_key [of e n] by (auto simp: name_of_def split: sum.splits)
    show ?thesis
      unfolding set name_at_def bind_eq_Some_conv name_slots.lookup_in_set [OF keys] fst_conv snd_conv
    proof
      assume "\<exists>e \<in> set ?t. name_occ e \<and> name_of e = Some n"
      then obtain e where "e \<in> set ?t" "name_occ e" "name_of e = Some n" by blast
      with key [of e] show "\<exists>e. (e \<in> set ?t \<and> name_occ e \<and> name_key e
          = (encode_scope_kind (sv_scope_kind n), sv_scope_hash n)) \<and> name_of e = Some n" by blast
    qed blast
  qed
  moreover have "snapshot_scope_names s = Inr ns"
    using segment_guard [OF s] ns
    by (simp add: snapshot_scope_names_def with_locked_scope_name_state_def with_locked_mem_def)
  ultimately show ?thesis by blast
qed

lemma rows_or_raise_Inr [simp]: "rows_or_raise row (Inr xs) = Inr (map row xs)"
  by (simp add: rows_or_raise_def)



section \<open>What the maintenance functions do\<close>

lemma reset_stats_eq:
  "segment_ok s \<Longrightarrow> reset_stats s = (Inr (), s\<lparr>sh_mem := (sh_mem s)\<lparr>
     sm_state := (sm_state (sh_mem s))\<lparr>ss_counters := pwb_counters_default,
                       ss_recent_decision_head := 0, ss_recent_decision_count := 0\<rparr>,
     sm_recent_decisions := map (\<lambda>_. pwb_recent_decision_default) (sm_recent_decisions (sh_mem s)),
     sm_scope_names := map (\<lambda>_. pwb_scope_name_default) (sm_scope_names (sh_mem s))\<rparr>\<rparr>)"
  using segment_guard [of s] by (simp add: reset_stats_def with_locked_mem_def)

lemma reset_profiles_eq:
  "segment_ok s \<Longrightarrow> reset_profiles s = (Inr (), s\<lparr>sh_mem := (sh_mem s)\<lparr>
     sm_state := fst (reset_profiles_locked (sm_state (sh_mem s), sm_profiles (sh_mem s))),
     sm_profiles := map (\<lambda>_. pwb_profile_entry_default) (sm_profiles (sh_mem s))\<rparr>\<rparr>)"
  using segment_guard [of s]
  by (simp add: reset_profiles_def with_locked_profiles_def with_locked_mem_def reset_profiles_locked_def)

lemma reset_stats_views:
  assumes s: "segment_ok s" and s': "reset_stats s = (Inr (), s')"
  shows "pwb_counters_view s' = Inr [(0, 0, 0, 0, 0, 0, 0, 0, 0, 0, 0)]"
    and "pwb_recent_decisions limit s' = Inr []" and "pwb_scope_names s' = Inr []"
    and "pwb_scope_stats s' = pwb_scope_stats s" and "pwb_query_profiles s' = pwb_query_profiles s"
proof -
  have ok: "segment_ok s'" using segment_reset_stats(1) [OF s] s' by simp
  note e = reset_stats_eq [OF s, unfolded s' prod.inject, THEN conjunct2]
  note guards = segment_guard [OF ok] segment_guard [OF s]
  show "pwb_counters_view s' = Inr [(0, 0, 0, 0, 0, 0, 0, 0, 0, 0, 0)]"
    unfolding pwb_counters_view_def counters_snapshot_eq [OF ok]
    by (simp add: e pwb_counters_default_def
        counters_row_def u64_to_i64_saturating_def)
  show "pwb_recent_decisions limit s' = Inr []"
    using guards by (simp add: pwb_recent_decisions_def snapshot_recent_decisions_def with_locked_recent_def
        with_locked_mem_def snapshot_recent_decisions_from_slice_def Let_def recent_decision_count_def e)
  have "filter (\<lambda>n. sn_occupied n = 1) (sm_scope_names (sh_mem s')) = []"
    by (simp add: e filter_empty_conv pwb_scope_name_default_def)
  then show "pwb_scope_names s' = Inr []"
    using guards by (simp add: pwb_scope_names_def snapshot_scope_names_def with_locked_scope_name_state_def
        with_locked_mem_def snapshot_scope_names_from_slice_def)
  show "pwb_scope_stats s' = pwb_scope_stats s"
    unfolding pwb_scope_stats_def bucket_snapshot_eq [OF ok] bucket_snapshot_eq [OF s]
    by (simp add: bucket_states_def e)
  show "pwb_query_profiles s' = pwb_query_profiles s"
    unfolding pwb_query_profiles_def profile_snapshot_eq [OF ok] profile_snapshot_eq [OF s] by (simp add: e)
qed

lemma reset_profiles_views:
  assumes s: "segment_ok s" and s': "reset_profiles s = (Inr (), s')"
  shows "segment_ok s'" and "pwb_query_profiles s' = Inr []"
    and "ss_profile_restore_state (header_of s') = PROFILE_RESTORE_LOADED"
    and "pwb_counters_view s' = pwb_counters_view s" and "pwb_scope_stats s' = pwb_scope_stats s"
    and "profile_at (sm_profiles (sh_mem s')) = Map.empty"
proof -
  show ok: "segment_ok s'" using segment_reset_profiles [OF s] s' by simp
  note e = reset_profiles_eq [OF s, unfolded s' prod.inject, THEN conjunct2]
  have empty: "cache_snapshot (sm_profiles (sh_mem s')) = []"
    by (simp add: cache_snapshot_def e filter_blank)
  then show "pwb_query_profiles s' = Inr []"
    by (simp add: pwb_query_profiles_def profile_snapshot_eq [OF ok])
  show "profile_at (sm_profiles (sh_mem s')) = Map.empty"
    using cache_snapshot_map(2) [OF segment_profiles_wf [OF ok]] empty by (simp add: profiles_map_def)
  show "ss_profile_restore_state (header_of s') = PROFILE_RESTORE_LOADED"
    by (simp add: e reset_profiles_locked_def)
  show "pwb_counters_view s' = pwb_counters_view s"
    unfolding pwb_counters_view_def counters_snapshot_eq [OF ok] counters_snapshot_eq [OF s]
    by (simp add: e reset_profiles_locked_def)
  show "pwb_scope_stats s' = pwb_scope_stats s"
    unfolding pwb_scope_stats_def bucket_snapshot_eq [OF ok] bucket_snapshot_eq [OF s]
    by (simp add: bucket_states_def e)
qed

text \<open>
  C20: maintenance is for administrators: for anybody else the three functions raise and
  change nothing. A reset of the statistics empties the counters, the recent decisions and
  the scope names and keeps the budgets and the profiles. A reset of the profiles empties
  the catalog first: when that fails the cache keeps its profiles, and otherwise the cache
  is empty and counts as restored, so that no old profile comes back, and the counters and
  the budgets are those that were there.
\<close>

theorem maintenance_spec:
  assumes s: "segment_ok s"
  shows "(\<not> authorized user Admin \<longrightarrow>
      (\<exists>m. pwb_reset_stats user s = (Inl (ERRCODE_INSUFFICIENT_PRIVILEGE, m), s))
    \<and> (\<exists>m. pwb_reset_profiles user v s = (Inl (ERRCODE_INSUFFICIENT_PRIVILEGE, m), s))
    \<and> (\<exists>m. pwb_flush_profiles user v s = (Inl (ERRCODE_INSUFFICIENT_PRIVILEGE, m), s)))
   \<and> (authorized user Admin \<longrightarrow>
      (\<exists>s'. pwb_reset_stats user s = (Inr (), s') \<and> segment_ok s'
         \<and> pwb_counters_view s' = Inr [(0, 0, 0, 0, 0, 0, 0, 0, 0, 0, 0)]
         \<and> (\<forall>limit. pwb_recent_decisions limit s' = Inr []) \<and> pwb_scope_names s' = Inr []
         \<and> pwb_scope_stats s' = pwb_scope_stats s \<and> pwb_query_profiles s' = pwb_query_profiles s)
    \<and> (\<forall>e s1. delete_profiles (sv_store v) s = (Inl e, s1) \<longrightarrow>
         pwb_reset_profiles user v s = (Inl (raised_report e), s1))
    \<and> (\<forall>s1. delete_profiles (sv_store v) s = (Inr (), s1) \<and> segment_ok s1 \<longrightarrow>
         (\<exists>s'. pwb_reset_profiles user v s = (Inr (), s') \<and> segment_ok s'
            \<and> pwb_query_profiles s' = Inr [] \<and> profile_at (sm_profiles (sh_mem s')) = Map.empty
            \<and> (\<forall>now stale. \<not> restore_due now stale (header_of s'))
            \<and> pwb_counters_view s' = pwb_counters_view s1 \<and> pwb_scope_stats s' = pwb_scope_stats s1)))"
proof (intro conjI impI allI)
  assume no: "\<not> authorized user Admin"
  show "\<exists>m. pwb_reset_stats user s = (Inl (ERRCODE_INSUFFICIENT_PRIVILEGE, m), s)"
    "\<exists>m. pwb_reset_profiles user v s = (Inl (ERRCODE_INSUFFICIENT_PRIVILEGE, m), s)"
    "\<exists>m. pwb_flush_profiles user v s = (Inl (ERRCODE_INSUFFICIENT_PRIVILEGE, m), s)"
    using no by (simp_all add: pwb_reset_stats_def pwb_reset_profiles_def pwb_flush_profiles_def gated_eq)
next
  assume yes: "authorized user Admin"
  obtain s' where r: "reset_stats s = (Inr (), s')" using reset_stats_eq [OF s] by simp
  have "pwb_reset_stats user s = (Inr (), s')"
    using yes r by (simp add: pwb_reset_stats_def gated_eq reset_stats_impl_def unwrap_or_raise_def)
  moreover have "segment_ok s'" using segment_reset_stats(1) [OF s] r by simp
  ultimately show "\<exists>s'. pwb_reset_stats user s = (Inr (), s') \<and> segment_ok s'
         \<and> pwb_counters_view s' = Inr [(0, 0, 0, 0, 0, 0, 0, 0, 0, 0, 0)]
         \<and> (\<forall>limit. pwb_recent_decisions limit s' = Inr []) \<and> pwb_scope_names s' = Inr []
         \<and> pwb_scope_stats s' = pwb_scope_stats s \<and> pwb_query_profiles s' = pwb_query_profiles s"
    using reset_stats_views [OF s r] by blast
next
  fix e s1
  assume "authorized user Admin" "delete_profiles (sv_store v) s = (Inl e, s1)"
  then show "pwb_reset_profiles user v s = (Inl (raised_report e), s1)"
    by (simp add: pwb_reset_profiles_def gated_eq reset_profiles_impl_def delete_profiles_with_def unwrap_or_raise_def)
next
  fix s1
  assume yes: "authorized user Admin" and d: "delete_profiles (sv_store v) s = (Inr (), s1) \<and> segment_ok s1"
  obtain s' where r: "reset_profiles s1 = (Inr (), s')" using reset_profiles_eq d by blast
  have "pwb_reset_profiles user v s = (Inr (), s')"
    using yes d r by (simp add: pwb_reset_profiles_def gated_eq reset_profiles_impl_def delete_profiles_with_def unwrap_or_raise_def)
  moreover have "\<not> restore_due now stale (header_of s')" for now stale
    using reset_profiles_views(3) [OF _ r] d
    by (simp add: restore_due_def PROFILE_RESTORE_LOADED_def PROFILE_RESTORE_NOT_ATTEMPTED_def
        PROFILE_RESTORE_FAILED_def PROFILE_RESTORE_IN_PROGRESS_def)
  ultimately show "\<exists>s'. pwb_reset_profiles user v s = (Inr (), s') \<and> segment_ok s'
            \<and> pwb_query_profiles s' = Inr [] \<and> profile_at (sm_profiles (sh_mem s')) = Map.empty
            \<and> (\<forall>now stale. \<not> restore_due now stale (header_of s'))
            \<and> pwb_counters_view s' = pwb_counters_view s1 \<and> pwb_scope_stats s' = pwb_scope_stats s1"
    using reset_profiles_views [OF _ r] d by blast
qed

theorem maintenance_spec_witness:
  "(\<exists>m. pwb_reset_stats \<lparr>iu_superuser = False, iu_role_oid = (\<lambda>_. 0), iu_has_privs_of_role = (\<lambda>_. False)\<rparr> started_shmem
      = (Inl (ERRCODE_INSUFFICIENT_PRIVILEGE, m), started_shmem))
   \<and> (\<exists>s'. pwb_reset_profiles \<lparr>iu_superuser = True, iu_role_oid = (\<lambda>_. 0), iu_has_privs_of_role = (\<lambda>_. False)\<rparr>
          idle_server started_shmem = (Inr (), s') \<and> pwb_query_profiles s' = Inr [])"
proof -
  let ?nobody = "\<lparr>iu_superuser = False, iu_role_oid = (\<lambda>_. 0), iu_has_privs_of_role = (\<lambda>_. False)\<rparr>"
  let ?root = "\<lparr>iu_superuser = True, iu_role_oid = (\<lambda>_. 0), iu_has_privs_of_role = (\<lambda>_. False)\<rparr>"
  have "\<not> authorized ?nobody Admin" "authorized ?root Admin"
    by (simp_all add: authorized_def has_role_def)
  moreover have "delete_profiles (sv_store idle_server) started_shmem = (Inr (), started_shmem)"
    by (simp add: idle_server_def idle_store_def)
  ultimately show ?thesis
    using maintenance_spec [OF started_shmem_ok(1), of ?nobody idle_server]
      maintenance_spec [OF started_shmem_ok(1), of ?root idle_server] started_shmem_ok(1) by blast
qed

text \<open>
  The saturation also applies to hashes and query ids, which are identifiers and use all 64
  bits: two scopes whose hashes are above the largest \<open>bigint\<close> are shown with the same
  identifier, although their buckets are two.
\<close>

lemma large_hashes_collapse:
  assumes "2 ^ 63 \<le> unat (bs_scope_hash a)" and "2 ^ 63 \<le> unat (bs_scope_hash b)"
    and "bs_policy_id a = bs_policy_id b"
  shows "fst (scope_stats_row a) = fst (scope_stats_row b)"
    and "fst (snd (scope_stats_row a)) = fst (snd (scope_stats_row b))"
  using assms by (simp_all add: scope_stats_row_def saturating_eq_iff)

end
