(* ===== verification/Pwb_Init.thy ===== *)
theory Pwb_Init
  imports Pwb_Settings
begin

text \<open>
  Loading the library, \<^verbatim>\<open>src/lib.rs\<close>, with the registration of the settings (\<^verbatim>\<open>src/guc.rs\<close>)
  and the publication of the hooks (\<^verbatim>\<open>src/shmem/mod.rs\<close>, \<^verbatim>\<open>src/hooks.rs\<close>). The hooks of
  other extensions are values of a type parameter. The lemmas show that loading again does
  nothing, so that no setting is defined twice and no hook is ever its own predecessor: a
  call of a hook runs the extension once and then the hooks that were there before.
\<close>

section \<open>The process\<close>

datatype own_hook =
  Shmem_request | Shmem_startup | Executor_start_hook | Executor_end_hook | Process_utility_hook | Xact_callback

datatype 'h hook_fn = Own own_hook | Foreign 'h

datatype setting =
    BoolSetting string bool guc_context
  | IntSetting int_guc
  | FloatSetting string f64 f64 f64 guc_context
  | EnumSetting string predictor_kind guc_context

fun setting_name :: "setting \<Rightarrow> string" where
  "setting_name (BoolSetting name v context_of) = name"
| "setting_name (IntSetting g) = ig_name g"
| "setting_name (FloatSetting name v lo hi context_of) = name"
| "setting_name (EnumSetting name v context_of) = name"

text \<open>The hook variables of the server, the saved hooks of the extension, and the settings.\<close>

record 'h process =
  pr_init_done :: bool
  pr_preload_in_progress :: bool
  pr_settings :: "setting list"
  pr_shmem_request_hook :: "'h hook_fn option"
  pr_shmem_startup_hook :: "'h hook_fn option"
  pr_executor_start_hook :: "'h hook_fn option"
  pr_executor_end_hook :: "'h hook_fn option"
  pr_process_utility_hook :: "'h hook_fn option"
  pr_xact_callbacks :: "'h hook_fn list"
  pr_prev_shmem_request :: "'h hook_fn option"
  pr_prev_shmem_startup :: "'h hook_fn option"
  pr_prev_executor_start :: "'h hook_fn option"
  pr_prev_executor_end :: "'h hook_fn option"
  pr_prev_process_utility :: "'h hook_fn option"

section \<open>Registration\<close>

definition runtime_gucs :: "setting list" where
  "runtime_gucs = [BoolSetting ''pwb.enabled'' True Sighup, BoolSetting ''pwb.fail_open'' True Sighup]"

definition prediction_gucs :: "setting list" where
  "prediction_gucs = map IntSetting prediction_int_gucs @
     [FloatSetting ''pwb.profile_ewma_alpha'' DEFAULT_PROFILE_EWMA_ALPHA_VALUE
        MIN_PROFILE_EWMA_ALPHA_VALUE MAX_PROFILE_EWMA_ALPHA_VALUE Sighup,
      BoolSetting ''pwb.composite_scope_enabled'' False Sighup,
      EnumSetting ''pwb.predictor'' ProfileEwma Sighup]"

definition register_settings :: "setting list \<Rightarrow> 'h process \<Rightarrow> 'h process" where
  "register_settings settings p = p\<lparr>pr_settings := pr_settings p @ settings\<rparr>"

definition register_gucs :: "'h process \<Rightarrow> 'h process" where
  "register_gucs p =
     register_settings (map IntSetting capacity_gucs) (register_settings prediction_gucs
       (register_settings runtime_gucs p))"

definition request_shared_memory :: "'h process \<Rightarrow> 'h process" where
  "request_shared_memory p =
     (let p = p\<lparr>pr_prev_shmem_request := pr_shmem_request_hook p\<rparr>;
          p = p\<lparr>pr_shmem_request_hook := Some (Own Shmem_request)\<rparr>;
          p = p\<lparr>pr_prev_shmem_startup := pr_shmem_startup_hook p\<rparr>
      in p\<lparr>pr_shmem_startup_hook := Some (Own Shmem_startup)\<rparr>)"

definition install_hooks :: "'h process \<Rightarrow> 'h process" where
  "install_hooks p =
     (let p = p\<lparr>pr_prev_executor_start := pr_executor_start_hook p\<rparr>;
          p = p\<lparr>pr_executor_start_hook := Some (Own Executor_start_hook)\<rparr>;
          p = p\<lparr>pr_prev_executor_end := pr_executor_end_hook p\<rparr>;
          p = p\<lparr>pr_executor_end_hook := Some (Own Executor_end_hook)\<rparr>;
          p = p\<lparr>pr_prev_process_utility := pr_process_utility_hook p\<rparr>;
          p = p\<lparr>pr_process_utility_hook := Some (Own Process_utility_hook)\<rparr>
      in p\<lparr>pr_xact_callbacks := pr_xact_callbacks p @ [Own Xact_callback]\<rparr>)"

definition pg_init :: "'h process \<Rightarrow> 'h process" where
  "pg_init p =
     (if pr_init_done p then p
      else let p = p\<lparr>pr_init_done := True\<rparr> in
      if \<not> pr_preload_in_progress p then p
      else install_hooks (request_shared_memory (register_gucs p)))"

definition EXTENSION_VERSION :: string where "EXTENSION_VERSION = ''0.3.0''"

definition pg_wal_budget_version :: string where "pg_wal_budget_version = EXTENSION_VERSION"

definition pg_wal_budget_preload_status :: "shmem \<Rightarrow> string" where
  "pg_wal_budget_preload_status s = (if is_available s then ''preloaded'' else ''sql_only_loaded'')"

section \<open>Loading once\<close>

lemma settings_distinct:
  "distinct (map setting_name (runtime_gucs @ prediction_gucs @ map IntSetting capacity_gucs))"
  by (simp add: runtime_gucs_def prediction_gucs_def prediction_int_gucs_def capacity_gucs_def)

lemma pg_init_done: "pr_init_done (pg_init p)"
  by (simp add: pg_init_def Let_def install_hooks_def request_shared_memory_def register_gucs_def
      register_settings_def)

lemma pg_init_again: "pg_init (pg_init p) = pg_init p"
  using pg_init_done [of p] by (subst pg_init_def) simp

lemma pg_init_repeated: "(pg_init ^^ Suc n) p = pg_init p"
  by (induction n) (simp_all add: pg_init_again)

lemma pg_init_preloaded:
  fixes p :: "'h process" and n :: nat
  assumes "\<not> pr_init_done p" and "pr_preload_in_progress p" and "pr_settings p = []"
    and foreign: "\<forall>h \<in> {pr_shmem_request_hook p, pr_shmem_startup_hook p, pr_executor_start_hook p,
        pr_executor_end_hook p, pr_process_utility_hook p}. \<forall>o_h. h \<noteq> Some (Own o_h)"
  defines "q \<equiv> (pg_init ^^ Suc n) p"
  shows "pr_settings q = runtime_gucs @ prediction_gucs @ map IntSetting capacity_gucs"
    and "distinct (map setting_name (pr_settings q))"
    and "pr_xact_callbacks q = pr_xact_callbacks p @ [Own Xact_callback]"
    and "(pr_executor_start_hook q, pr_prev_executor_start q) = (Some (Own Executor_start_hook), pr_executor_start_hook p)"
    and "(pr_executor_end_hook q, pr_prev_executor_end q) = (Some (Own Executor_end_hook), pr_executor_end_hook p)"
    and "(pr_process_utility_hook q, pr_prev_process_utility q)
      = (Some (Own Process_utility_hook), pr_process_utility_hook p)"
    and "(pr_shmem_request_hook q, pr_prev_shmem_request q) = (Some (Own Shmem_request), pr_shmem_request_hook p)"
    and "(pr_shmem_startup_hook q, pr_prev_shmem_startup q) = (Some (Own Shmem_startup), pr_shmem_startup_hook p)"
    and "\<forall>h \<in> {pr_prev_shmem_request q, pr_prev_shmem_startup q, pr_prev_executor_start q,
        pr_prev_executor_end q, pr_prev_process_utility q}. \<forall>o_h. h \<noteq> Some (Own o_h)"
proof -
  have q: "q = install_hooks (request_shared_memory (register_gucs (p\<lparr>pr_init_done := True\<rparr>)))"
    using assms(1,2) unfolding q_def pg_init_repeated by (simp add: pg_init_def)
  note fields = install_hooks_def request_shared_memory_def register_gucs_def register_settings_def Let_def
  show s: "pr_settings q = runtime_gucs @ prediction_gucs @ map IntSetting capacity_gucs"
    by (simp add: q fields assms(3))
  show "distinct (map setting_name (pr_settings q))" unfolding s by (rule settings_distinct)
  show "\<forall>h \<in> {pr_prev_shmem_request q, pr_prev_shmem_startup q, pr_prev_executor_start q,
        pr_prev_executor_end q, pr_prev_process_utility q}. \<forall>o_h. h \<noteq> Some (Own o_h)"
    using foreign by (simp add: q fields)
  show "pr_xact_callbacks q = pr_xact_callbacks p @ [Own Xact_callback]"
    and "(pr_executor_start_hook q, pr_prev_executor_start q) = (Some (Own Executor_start_hook), pr_executor_start_hook p)"
    and "(pr_executor_end_hook q, pr_prev_executor_end q) = (Some (Own Executor_end_hook), pr_executor_end_hook p)"
    and "(pr_process_utility_hook q, pr_prev_process_utility q)
      = (Some (Own Process_utility_hook), pr_process_utility_hook p)"
    and "(pr_shmem_request_hook q, pr_prev_shmem_request q) = (Some (Own Shmem_request), pr_shmem_request_hook p)"
    and "(pr_shmem_startup_hook q, pr_prev_shmem_startup q) = (Some (Own Shmem_startup), pr_shmem_startup_hook p)"
    by (simp_all add: q fields)
qed

text \<open>A load outside of preloading installs nothing, then and later.\<close>

lemma pg_init_sql_only:
  "\<not> pr_preload_in_progress p \<Longrightarrow> (pg_init ^^ Suc n) p = p\<lparr>pr_init_done := True\<rparr>"
  unfolding pg_init_repeated by (simp add: pg_init_def)

end
