(* ===== verification/Spec2Isabelle.thy ===== *)
theory Spec2Isabelle
  imports Pwb_Share Pwb_Stats Pwb_Init
begin

text \<open>
  A verification development for pg_wal_budget, a PostgreSQL extension written in Rust that
  limits the write-ahead log (WAL) that each scope (a tenant, a role, a database, an
  application, or a combination of them) may produce.

  The program. PostgreSQL calls the hooks of the extension around every statement. At its
  start a statement is classified (a read-only statement is ignored), its scope is
  determined, its WAL is predicted from the profile of its query or from a default, and the
  policy of the scope decides: let it run, refuse it, or let it wait until a token bucket in
  shared memory can pay for the prediction. At its end the WAL that was really written is
  read: the bucket is corrected by a refund or a debt, and the profile of the query learns.
  When the transaction aborts the charge is given back. Policies and profiles live in two
  tables of the database; buckets, profiles, counters, the recent decisions and the names of
  scopes live in shared memory under one lock.

  How it is modelled. A Rust struct is a record, an enum a datatype, \<open>Result\<close> a sum with the
  error on the left, an integer a word of its width, a string a list of its bytes. Code that
  changes a state takes it and returns it; code that runs under the lock of the segment is
  one atomic step. A function that waits is a \<open>partial_function\<close> in the option monad: \<open>None\<close>
  is a wait that never ends. What the extension asks of the server is a parameter: the
  answers to its SQL statements (\<open>spi\<close>, \<open>policy_spi\<close>, \<open>durable_catalog_store\<close>), the clock, the
  WAL counter, the settings and the names of the session (\<open>server\<close>), role membership
  (\<open>invoking_user\<close>), the parse nodes of a statement (\<open>node\<close>, \<open>planned_stmt\<close>), and what
  happens while a statement waits (\<open>wait_env\<close>). Between two critical sections such a parameter
  may change the segment, which stands for the work of the other backends.

  The theories, in the order of their imports (files under \<^verbatim>\<open>src/src\<close>):

    \<^item> \<open>Pwb_Prelude\<close>: saturating and widening integer arithmetic, \<open>Result\<close>, and the interfaces
      as locales: \<open>codec\<close> and \<open>exact_codec\<close> (encode and decode), \<open>slot_table\<close> (an array of slots
      with keys) and \<open>keyed_store\<close> (a bounded store of keyed values with admission and visit).
    \<^item> \<open>Pwb_Strings\<close>: the functions of Rust's \<open>str\<close> that the code calls, UTF-8 included.
    \<^item> \<open>Pwb_Types\<close>: \<^verbatim>\<open>types.rs\<close>, \<^verbatim>\<open>errors.rs\<close>; the moving average never leaves the range of
      the observations.
    \<^item> \<open>Pwb_Records\<close>: \<^verbatim>\<open>shmem/records.rs\<close>; every encoder has an inverse, damaged slots are errors.
    \<^item> \<open>Pwb_Layout\<close>: \<^verbatim>\<open>shmem/layout.rs\<close>; regions are aligned, disjoint and inside the segment.
    \<^item> \<open>Pwb_Recent\<close>, \<open>Pwb_Scope_Names\<close>, \<open>Pwb_Buckets\<close>, \<open>Pwb_Profiles\<close>: the four arrays,
      \<^verbatim>\<open>shmem/recent_decisions.rs\<close>, \<^verbatim>\<open>shmem/scope_names.rs\<close>, \<^verbatim>\<open>shmem/budget_buckets.rs\<close>,
      \<^verbatim>\<open>shmem/profiles.rs\<close>; each refines a list or a partial function.
    \<^item> \<open>Pwb_Shmem\<close>, \<open>Pwb_Segment\<close>: \<^verbatim>\<open>shmem/mod.rs\<close>, \<^verbatim>\<open>shmem/counters.rs\<close>,
      \<^verbatim>\<open>shmem/transactions.rs\<close>; the invariant \<open>segment_ok\<close> is established at server start and
      kept by every operation.
    \<^item> \<open>Pwb_Budget\<close>, \<open>Pwb_Rate\<close>, \<open>Pwb_Limit\<close>, \<open>Pwb_Queue\<close>: \<^verbatim>\<open>budget.rs\<close>, \<^verbatim>\<open>time.rs\<close>; refill as
      exact arithmetic, each mode on every branch, the rate limit over any interleaving, the
      progress of queued statements and how they may starve.
    \<^item> \<open>Pwb_Catalog\<close>, \<open>Pwb_Restore\<close>: \<^verbatim>\<open>catalog.rs\<close>, \<^verbatim>\<open>profile_store.rs\<close> and the protocols of
      \<^verbatim>\<open>shmem/profiles.rs\<close> that restore and persist the profiles; the locale \<open>profile_catalog\<close>
      states what a catalog promises, and the in-memory store provides it.
    \<^item> \<open>Pwb_Privileges\<close>, \<open>Pwb_Policy\<close>: \<^verbatim>\<open>privileges.rs\<close>, \<^verbatim>\<open>policy.rs\<close>, \<^verbatim>\<open>policy_cache.rs\<close>; who may
      change a policy, what is stored, which policy a statement gets.
    \<^item> \<open>Pwb_Scope\<close>: \<^verbatim>\<open>scope.rs\<close>; the trusted tenant and the classification of a session, with the
      precedence of scopes as a linear order on their kinds.
    \<^item> \<open>Pwb_Settings\<close>, \<open>Pwb_Init\<close>: \<^verbatim>\<open>guc.rs\<close>, \<^verbatim>\<open>lib.rs\<close>; settings in range start the server, the
      library installs itself once.
    \<^item> \<open>Pwb_Prediction\<close>: \<^verbatim>\<open>profile.rs\<close>; the prediction in every case and what it learns.
    \<^item> \<open>Pwb_Admission\<close>, \<open>Pwb_Reconcile\<close>: \<^verbatim>\<open>admission.rs\<close>, \<^verbatim>\<open>reconcile.rs\<close>; every decision is
      recorded and counted once, every byte is accounted for once, an abort restores the budget.
    \<^item> \<open>Pwb_Utility\<close>, \<open>Pwb_Lifecycle\<close>: \<^verbatim>\<open>utility.rs\<close>, \<^verbatim>\<open>lifecycle.rs\<close>, \<^verbatim>\<open>hooks.rs\<close>; which
      statements are read-only, statements that nest settle with their own admission, the
      end of a transaction, internal errors, and the invariant over all hooks
      (\<open>hook_step\<close>, by rule induction).
    \<^item> \<open>Pwb_Trace\<close>, \<open>Pwb_System\<close>, \<open>Pwb_Share\<close>: the components together, with several backends
      at work. The locale \<open>bucket_effect\<close> states what other code may do to the buckets, and
      every part of a statement stays within it. \<open>budget_machine\<close> is the abstract specification
      of a backend (one charge for each opened statement, one settlement for each statement that
      leaves the stack); the hooks refine it, whatever the other backends do while one of them
      waits. Backends that share one trace of operations keep the rate limit together.
    \<^item> \<open>Pwb_Stats\<close>: \<^verbatim>\<open>stats.rs\<close>; the views show the segment, the resets are for administrators.

  Bounds. Nothing is bounded artificially: words have the width of the code, lists are
  unbounded, and no function uses fuel. The queue loop (\<open>admit_queue_with_retry\<close>) is a
  \<open>partial_function\<close>; that it returns is a property of its own (\<open>queue_admission_progress\<close>, for
  a bucket that is left alone), because with other backends at work it may starve
  (\<open>queue_may_starve\<close>), as the README says. The capacities of the arrays are those of the
  settings, at most a million.

  Not modelled, and why.
    \<^item> The LWLock itself and the memory model: a critical section is atomic by the contract of
      PostgreSQL. Process death inside a critical section restarts the server.
    \<^item> Interrupts: a cancelled or terminated backend leaves a wait by a non-local exit; the
      model of a wait ends or does not.
    \<^item> Panics on slices: the invariant of the segment bounds every index the code computes, so the
      panic branch is left out. The two pointers to the segment are flags.
    \<^item> The text of the SQL statements, their transactions and the tables: the server's. The
      guard objects of pgrx, logging, \<^verbatim>\<open>build.rs\<close>, the SQL scripts and the tests.
    \<^item> Floats: only the conversion of the smoothing factor is needed, and is modelled exactly;
      the decimal text of a float in an error message is a parameter.
\<close>

end
